(* ===== verification/Goose_Prelude.thy ===== *)
theory Goose_Prelude
  imports Main "HOL-Library.Word"
begin

text \<open>
  The prelude of the development: the machine types of the client, the
  collections that carry the component proofs, and the generic facts on lists,
  words and maps the component theories share.

  Rust's unsigned machine integers are words (\<open>u8\<close>, \<open>u32\<close>, \<open>u64\<close>), with \<open>usize\<close>
  the 64-bit one.  The signed \<open>i64\<close> and \<open>i32\<close> are integers that stand for
  values in range; a cast \<open>as u64\<close> is \<^const>\<open>word_of_int\<close> and a cast \<open>as i64\<close> is
  \<^const>\<open>sint\<close>.  A \<open>Bytes\<close> value is a list of bytes.
\<close>

unbundle bit_operations_syntax

type_synonym u8 = "8 word"
type_synonym u32 = "32 word"
type_synonym u64 = "64 word"
type_synonym usize = "64 word"
type_synonym i64 = int
type_synonym i32 = int
type_synonym bytes = "u8 list"

named_theorems word_nat "transfer of word operations to natural numbers"
named_theorems seg_simps "slices of byte lists"

section \<open>Machine arithmetic\<close>

text \<open>The saturating operations of Rust's standard library on unsigned words.\<close>

definition sat_sub :: "'a::len word \<Rightarrow> 'a word \<Rightarrow> 'a word" where
  "sat_sub a b = (if b \<le> a then a - b else 0)"

definition sat_add :: "'a::len word \<Rightarrow> 'a word \<Rightarrow> 'a word" where
  "sat_add a b = (if a \<le> a + b then a + b else - 1)"

text \<open>The wrap-around of \<open>i64\<close> arithmetic in a release build.\<close>

definition wrap_i64 :: "int \<Rightarrow> i64" where
  "wrap_i64 i = sint (word_of_int i :: u64)"

lemma unat_sat_sub [word_nat]: "unat (sat_sub a b) = unat a - unat b"
  by (simp add: sat_sub_def unat_sub word_le_nat_alt)

lemma unat_minus_one_u64 [simp]: "unat (- 1 :: u64) = 18446744073709551615"
  by (simp add: unsigned_minus_1_eq_mask mask_eq_exp_minus_1)

lemma unat_u64_less: "unat (x :: u64) < 18446744073709551616"
  using unsigned_less [of x] by simp

lemma unat_add_nowrap [word_nat]:
  "unat a + unat b < 2 ^ 64 \<Longrightarrow> unat (a + b :: u64) = unat a + unat b"
  by (rule unat_add_lem [THEN iffD1]) simp

lemma unat_sub_le [word_nat]:
  "unat b \<le> unat a \<Longrightarrow> unat (a - b :: 'a::len word) = unat a - unat b"
  by (rule unat_sub) (simp add: word_le_nat_alt)

lemma unat_min [word_nat]: "unat (min a b) = min (unat a) (unat b)"
  by (simp add: min_def word_le_nat_alt)

lemma unat_max [word_nat]: "unat (max a b) = max (unat a) (unat b)"
  by (simp add: max_def word_le_nat_alt)

lemma unat_sat_add [word_nat]:
  "unat (sat_add a b :: u64) = min (unat a + unat b) 18446744073709551615"
proof (cases "unat a + unat b < 18446744073709551616")
  case True
  then show ?thesis
    by (simp add: sat_add_def word_le_nat_alt unat_add_nowrap)
next
  case False
  then have "unat (a + b) = unat a + unat b - 18446744073709551616"
    by (simp add: unat_plus_if')
  moreover have "unat a + unat b - 18446744073709551616 < unat a"
    using False unat_u64_less [of b] by linarith
  ultimately show ?thesis
    using False by (simp add: sat_add_def word_le_nat_alt)
qed

lemmas word_nat_simps = unat_div_distrib unat_mod_distrib word_le_nat_alt word_less_nat_alt

lemma unat_of_int_nat:
  "0 \<le> i \<Longrightarrow> i < 2 ^ 64 \<Longrightarrow> unat (word_of_int i :: u64) = nat i"
  by (simp add: unsigned_of_int take_bit_int_eq_self)

lemma wrap_i64_id: "- (2 ^ 63) \<le> i \<Longrightarrow> i < 2 ^ 63 \<Longrightarrow> wrap_i64 i = i"
  by (simp add: wrap_i64_def int_word_sint)

lemma sint_of_unat:
  assumes "unat (w :: u64) < 2 ^ 63"
  shows "sint w = int (unat w)"
proof -
  have "int (unat w) < int (2 ^ 63)"
    using assms by (simp only: of_nat_less_iff)
  then have "int (unat w) < 2 ^ 63"
    by (simp only: of_nat_power of_nat_numeral)
  then have "(int (unat w) + 2 ^ 63) mod 2 ^ 64 = int (unat w) + 2 ^ 63"
    by (intro mod_pos_pos_trivial) simp_all
  moreover have "sint w = (int (unat w) + 2 ^ 63) mod 2 ^ 64 - 2 ^ 63"
    using int_word_sint [of "int (unat w)", where 'a=64] by simp
  ultimately show ?thesis by simp
qed

lemma xor_right_cancel [simp]: "a XOR c = b XOR c \<longleftrightarrow> a = (b :: 'a::len word)"
proof
  assume eq: "a XOR c = b XOR c"
  have "a = (a XOR c) XOR c" by (simp add: xor.assoc)
  also have "\<dots> = b" unfolding eq by (simp add: xor.assoc)
  finally show "a = b" .
qed simp

lemma xor_left_cancel [simp]: "c XOR a = c XOR b \<longleftrightarrow> a = (b :: 'a::len word)"
  by (simp add: xor.commute [of c])

section \<open>Slices of byte lists\<close>

text \<open>
  \<open>seg off n xs\<close> is the \<open>n\<close> bytes of \<open>xs\<close> from offset \<open>off\<close>, cut off at the end
  of \<open>xs\<close>; \<open>block_of B i xs\<close> is the \<open>i\<close>-th window of a list cut into windows of
  \<open>B\<close> bytes.
\<close>

definition seg :: "nat \<Rightarrow> nat \<Rightarrow> 'a list \<Rightarrow> 'a list" where
  "seg off n xs = take n (drop off xs)"

definition block_of :: "nat \<Rightarrow> nat \<Rightarrow> 'a list \<Rightarrow> 'a list" where
  "block_of B i xs = seg (i * B) B xs"

lemma length_seg [seg_simps]: "length (seg off n xs) = min n (length xs - off)"
  by (simp add: seg_def)

lemma seg_zero [simp]: "seg off 0 xs = []"
  by (simp add: seg_def)

lemma seg_past_end [seg_simps]: "length xs \<le> off \<Longrightarrow> seg off n xs = []"
  by (simp add: seg_def)

lemma seg_append_seg [seg_simps]:
  "seg off m xs @ seg (off + m) n xs = seg off (m + n) xs"
  by (simp add: seg_def take_add add.commute)

lemma seg_seg [seg_simps]:
  "i + n \<le> m \<Longrightarrow> seg i n (seg off m xs) = seg (off + i) n xs"
  by (simp add: seg_def drop_take min_def add.commute)

lemma seg_clamp: "seg off (min n (length xs - off)) xs = seg off n xs"
  by (simp add: seg_def min_def)

lemma seg_block [seg_simps]:
  assumes "n \<le> B - c mod B"
  shows "seg (c mod B) n (block_of B (c div B) xs) = seg c n xs"
proof (cases "B = 0")
  case True
  with assms show ?thesis by simp
next
  case False
  then have "c mod B < B" by simp
  with assms have "c mod B + n \<le> B" by simp
  then show ?thesis
    by (simp add: block_of_def seg_seg)
qed

section \<open>Decimal text\<close>

text \<open>What \<open>format!("{}", n)\<close> prints for an unsigned integer, and \<open>join\<close> on strings.\<close>

definition digit :: "nat \<Rightarrow> char" where
  "digit d = char_of (48 + d)"

fun show_nat :: "nat \<Rightarrow> string" where
  "show_nat n = (if n < 10 then [digit n] else show_nat (n div 10) @ [digit (n mod 10)])"

declare show_nat.simps [simp del]

definition show_int :: "int \<Rightarrow> string" where
  "show_int i = (if i < 0 then CHR ''-'' # show_nat (nat (- i)) else show_nat (nat i))"

fun join :: "'a list \<Rightarrow> 'a list list \<Rightarrow> 'a list" where
  "join sep [] = []"
| "join sep [x] = x"
| "join sep (x # y # ys) = x @ sep @ join sep (y # ys)"

end
