(* ===== verification/Proto_Types.thy ===== *)
theory Proto_Types
  imports Goose_Prelude
begin

text \<open>
  The protocol messages the client works on (\<^verbatim>\<open>src/src/generated/\<close>), each a record
  of the fields that the modelled code reads or writes.  Every protobuf field is
  optional, as prost generates it; a repeated field is a list.
\<close>

record worker_net_address =
  a_host :: "string option"
  a_rpc_port :: "i32 option"

record worker_info =
  w_id :: "i64 option"
  w_address :: "worker_net_address option"
  w_capacity_bytes :: "i64 option"
  w_persist_used_bytes :: "i64 option"
  w_virtual_node_num :: "i32 option"
  w_forbid_write :: "bool option"

record block_location =
  bl_worker_id :: "i64 option"
  bl_worker_address :: "worker_net_address option"

record block_info =
  bi_block_id :: "i64 option"
  bi_length :: "i64 option"
  bi_locations :: "block_location list"

record file_block_info =
  fbi_block_info :: "block_info option"
  fbi_offset :: "i64 option"

text \<open>The extended attributes are a map on the wire; here the list of its entries.\<close>

record file_info =
  fi_file_id :: "i64 option"
  fi_name :: "string option"
  fi_path :: "string option"
  fi_ufs_path :: "string option"
  fi_length :: "i64 option"
  fi_block_size_bytes :: "i64 option"
  fi_creation_time_ms :: "i64 option"
  fi_completed :: "bool option"
  fi_folder :: "bool option"
  fi_cacheable :: "bool option"
  fi_persisted :: "bool option"
  fi_block_ids :: "i64 list"
  fi_last_modification_time_ms :: "i64 option"
  fi_owner :: "string option"
  fi_group :: "string option"
  fi_mode :: "i32 option"
  fi_persistence_state :: "string option"
  fi_mount_point :: "bool option"
  fi_file_block_infos :: "file_block_info list"
  fi_mount_id :: "i64 option"
  fi_in_goose_fs_percentage :: "i32 option"
  fi_in_memory_percentage :: "i32 option"
  fi_ufs_fingerprint :: "string option"
  fi_last_access_time_ms :: "i64 option"
  fi_xattr :: "(string \<times> bytes) list"
  fi_symlink :: "string option"

text \<open>The message with no field set.\<close>

definition default_file_info :: file_info where
  "default_file_info = \<lparr>fi_file_id = None, fi_name = None, fi_path = None, fi_ufs_path = None, fi_length = None,
     fi_block_size_bytes = None, fi_creation_time_ms = None, fi_completed = None, fi_folder = None,
     fi_cacheable = None, fi_persisted = None, fi_block_ids = [], fi_last_modification_time_ms = None,
     fi_owner = None, fi_group = None, fi_mode = None, fi_persistence_state = None, fi_mount_point = None,
     fi_file_block_infos = [], fi_mount_id = None, fi_in_goose_fs_percentage = None,
     fi_in_memory_percentage = None, fi_ufs_fingerprint = None, fi_last_access_time_ms = None,
     fi_xattr = [], fi_symlink = None\<rparr>"

text \<open>\<open>Option::unwrap_or\<close>.\<close>

definition unwrap_or :: "'a option \<Rightarrow> 'a \<Rightarrow> 'a" where
  "unwrap_or x d = (case x of None \<Rightarrow> d | Some v \<Rightarrow> v)"

lemma unwrap_or_simps [simp]:
  "unwrap_or None d = d"
  "unwrap_or (Some v) d = v"
  by (simp_all add: unwrap_or_def)

end
