(* ===== verification/Block_Mapper.thy ===== *)
theory Block_Mapper
  imports Proto_Types
begin

text \<open>
  The block mapper (\<^verbatim>\<open>src/src/block/mapper.rs\<close>): a byte range of a file is cut into
  one segment per fixed-size block it touches.  The lengths, offsets and indices are
  the source's \<open>u64\<close> values; the loops recurse on the bytes that remain.
\<close>

record block_read_plan =
  rp_block_id :: i64
  rp_block_index :: u64
  rp_offset_in_block :: u64
  rp_length :: u64

record block_write_plan =
  wp_block_index :: u64
  wp_offset_in_block :: u64
  wp_length :: u64

section \<open>The loops\<close>

text \<open>
  One iteration cuts off the bytes of the current block.  The callers return early
  when the block size is zero, which is the second half of each guard.
\<close>

definition bytes_in_block :: "u64 \<Rightarrow> u64 \<Rightarrow> u64 \<Rightarrow> u64" where
  "bytes_in_block block_size remaining current_offset =
     min remaining (block_size - current_offset mod block_size)"

lemma unat_bytes_in_block:
  assumes "block_size \<noteq> 0"
  shows "unat (bytes_in_block block_size remaining current_offset) =
     min (unat remaining) (unat block_size - unat current_offset mod unat block_size)"
proof -
  have "unat current_offset mod unat block_size \<le> unat block_size"
    using assms by (simp add: unat_gt_0 less_imp_le)
  then show ?thesis
    by (simp add: bytes_in_block_def unat_min unat_sub_le unat_mod_distrib)
qed

lemma bytes_in_block_bounds:
  assumes "block_size \<noteq> 0" and "remaining \<noteq> 0"
  shows "0 < unat (bytes_in_block block_size remaining current_offset)"
    and "unat (bytes_in_block block_size remaining current_offset) \<le> unat remaining"
  using assms by (simp_all add: unat_bytes_in_block unat_gt_0 mod_less_divisor)

lemma unat_remaining_decreases:
  assumes "block_size \<noteq> 0" and "remaining \<noteq> 0"
  shows "unat (remaining - bytes_in_block block_size remaining current_offset) < unat remaining"
  using bytes_in_block_bounds [OF assms, of current_offset]
  by (simp add: unat_sub_le)

function plan_read_loop :: "i64 list \<Rightarrow> u64 \<Rightarrow> u64 \<Rightarrow> u64 \<Rightarrow> block_read_plan list" where
  "plan_read_loop block_ids block_size remaining current_offset =
     (if remaining = 0 \<or> block_size = 0 then []
      else
        let block_index = current_offset div block_size;
            n = bytes_in_block block_size remaining current_offset;
            block_id = (if unat block_index < length block_ids
                        then block_ids ! unat block_index else -1)
        in \<lparr>rp_block_id = block_id, rp_block_index = block_index,
            rp_offset_in_block = current_offset mod block_size, rp_length = n\<rparr>
           # plan_read_loop block_ids block_size (remaining - n) (current_offset + n))"
  by pat_completeness auto
termination
  by (relation "measure (\<lambda>(_, _, remaining, _). unat remaining)")
    (auto simp: unat_remaining_decreases)

definition plan_read :: "file_info \<Rightarrow> u64 \<Rightarrow> u64 \<Rightarrow> block_read_plan list" where
  "plan_read fi offset len =
     (let block_size = word_of_int (unwrap_or (fi_block_size_bytes fi) (64 * 1024 * 1024));
          file_length = word_of_int (unwrap_or (fi_length fi) 0)
      in if block_size = 0 \<or> len = 0 \<or> file_length \<le> offset then []
         else
           let effective_length = min len (sat_sub file_length offset)
           in if effective_length = 0 then []
              else plan_read_loop (fi_block_ids fi) block_size effective_length offset)"

function plan_write_loop :: "u64 \<Rightarrow> u64 \<Rightarrow> u64 \<Rightarrow> block_write_plan list" where
  "plan_write_loop block_size remaining current_offset =
     (if remaining = 0 \<or> block_size = 0 then []
      else
        let n = bytes_in_block block_size remaining current_offset
        in \<lparr>wp_block_index = current_offset div block_size,
            wp_offset_in_block = current_offset mod block_size, wp_length = n\<rparr>
           # plan_write_loop block_size (remaining - n) (current_offset + n))"
  by pat_completeness auto
termination
  by (relation "measure (\<lambda>(_, remaining, _). unat remaining)")
    (auto simp: unat_remaining_decreases)

definition plan_write :: "u64 \<Rightarrow> u64 \<Rightarrow> u64 \<Rightarrow> block_write_plan list" where
  "plan_write block_size file_offset len =
     (if block_size = 0 \<or> len = 0 then []
      else plan_write_loop block_size len file_offset)"

declare plan_read_loop.simps [simp del] plan_write_loop.simps [simp del]

section \<open>What a cutting loop promises\<close>

text \<open>
  Both loops keep one contract, stated once over the segments a loop emits: block
  index, offset in the block and length.
\<close>

type_synonym segment = "u64 \<times> u64 \<times> u64"

text \<open>The segments tile the bytes from \<open>c\<close> on: each starts where the one before
  ended, none is empty or crosses a block boundary, and all but the last reach one.\<close>

fun tiles_from :: "nat \<Rightarrow> nat \<Rightarrow> segment list \<Rightarrow> bool" where
  "tiles_from B c [] = True"
| "tiles_from B c ((idx, off, n) # ss) =
     (unat idx * B + unat off = c \<and> 0 < unat n \<and> unat off + unat n \<le> B
      \<and> (ss \<noteq> [] \<longrightarrow> unat off + unat n = B) \<and> tiles_from B (c + unat n) ss)"

definition segment_bytes :: "nat \<Rightarrow> 'a list \<Rightarrow> segment \<Rightarrow> 'a list" where
  "segment_bytes B data = (\<lambda>(idx, off, n). seg (unat off) (unat n) (block_of B (unat idx) data))"

definition segments_total :: "segment list \<Rightarrow> nat" where
  "segments_total ss = sum_list (map (\<lambda>(_, _, n). unat n) ss)"

locale block_cutter =
  fixes cut :: "u64 \<Rightarrow> u64 \<Rightarrow> u64 \<Rightarrow> 'p list"
    and view :: "'p \<Rightarrow> segment"
  assumes cut_done: "cut block_size 0 c = []"
    and cut_step: "block_size \<noteq> 0 \<Longrightarrow> remaining \<noteq> 0 \<Longrightarrow>
      \<exists>p. cut block_size remaining c =
            p # cut block_size (remaining - bytes_in_block block_size remaining c)
                               (c + bytes_in_block block_size remaining c)
          \<and> view p = (c div block_size, c mod block_size, bytes_in_block block_size remaining c)"
begin

lemma cut_induct [consumes 2, case_names exhausted step]:
  assumes "block_size \<noteq> 0" and "unat c + unat remaining < 2 ^ 64"
    and "\<And>c. P 0 c"
    and "\<And>remaining c n. remaining \<noteq> 0 \<Longrightarrow> n = bytes_in_block block_size remaining c \<Longrightarrow>
           unat (c + n) = unat c + unat n \<Longrightarrow> unat (remaining - n) = unat remaining - unat n \<Longrightarrow>
           unat n \<le> unat remaining \<Longrightarrow> P (remaining - n) (c + n) \<Longrightarrow> P remaining c"
  shows "P remaining c"
  using assms(2)
proof (induction "unat remaining" arbitrary: remaining c rule: less_induct)
  case less
  show ?case
  proof (cases "remaining = 0")
    case True
    then show ?thesis using assms(3) by simp
  next
    case False
    let ?n = "bytes_in_block block_size remaining c"
    note bounds = bytes_in_block_bounds [OF assms(1) False, of c]
    have cn: "unat (c + ?n) = unat c + unat ?n"
      using bounds less.prems by (intro unat_add_nowrap) linarith
    have rn: "unat (remaining - ?n) = unat remaining - unat ?n"
      using bounds by (intro unat_sub_le)
    have "P (remaining - ?n) (c + ?n)"
      using bounds less.prems by (intro less.hyps) (simp_all add: cn rn)
    then show ?thesis
      using assms(4) [OF False refl cn rn bounds(2)] by blast
  qed
qed

lemma cut_total:
  assumes "block_size \<noteq> 0" and "unat c + unat remaining < 2 ^ 64"
  shows "segments_total (map view (cut block_size remaining c)) = unat remaining"
  using assms
proof (induction rule: cut_induct)
  case (exhausted c)
  show ?case by (simp add: cut_done segments_total_def)
next
  case (step remaining c n)
  with cut_step [OF assms(1), of remaining c] show ?case
    by (auto simp: segments_total_def)
qed

lemma cut_tiles:
  assumes "block_size \<noteq> 0" and "unat c + unat remaining < 2 ^ 64"
  shows "tiles_from (unat block_size) (unat c) (map view (cut block_size remaining c))"
  using assms
proof (induction rule: cut_induct)
  case (exhausted c)
  show ?case by (simp add: cut_done)
next
  case (step remaining c n)
  obtain p where p: "cut block_size remaining c = p # cut block_size (remaining - n) (c + n)"
      "view p = (c div block_size, c mod block_size, n)"
    using cut_step [OF assms(1), of remaining c] step by auto
  have n: "unat n = min (unat remaining) (unat block_size - unat c mod unat block_size)"
    using step.hyps(2) assms(1) by (simp add: unat_bytes_in_block)
  have "0 < unat block_size" using assms(1) by (simp add: unat_gt_0)
  then have lt: "unat c mod unat block_size < unat block_size" by simp
  have pos: "0 < unat n"
    using n lt step.hyps(1) by (simp add: unat_gt_0)
  have last: "cut block_size (remaining - n) (c + n) \<noteq> [] \<Longrightarrow>
      unat c mod unat block_size + unat n = unat block_size"
  proof -
    assume "cut block_size (remaining - n) (c + n) \<noteq> []"
    then have "unat (remaining - n) \<noteq> 0"
      using cut_done by (metis unat_0_iff)
    with step.hyps(4) n lt show ?thesis by linarith
  qed
  show ?case
    using p step.IH pos last n lt
    by (auto simp: unat_div_distrib unat_mod_distrib step.hyps(3))
qed

lemma cut_bytes:
  assumes "block_size \<noteq> 0" and "unat c + unat remaining < 2 ^ 64"
  shows "concat (map (segment_bytes (unat block_size) data \<circ> view) (cut block_size remaining c))
         = seg (unat c) (unat remaining) data"
  using assms
proof (induction rule: cut_induct)
  case (exhausted c)
  show ?case by (simp add: cut_done)
next
  case (step remaining c n)
  obtain p where p: "cut block_size remaining c = p # cut block_size (remaining - n) (c + n)"
      "view p = (c div block_size, c mod block_size, n)"
    using cut_step [OF assms(1), of remaining c] step by auto
  have "unat n \<le> unat block_size - unat c mod unat block_size"
    using step.hyps(2) assms(1) by (simp add: unat_bytes_in_block)
  then have "segment_bytes (unat block_size) data (view p) = seg (unat c) (unat n) data"
    by (simp add: p segment_bytes_def unat_div_distrib unat_mod_distrib seg_block)
  then show ?case
    using step.IH step.hyps by (simp add: p seg_append_seg)
qed

end

definition read_view :: "block_read_plan \<Rightarrow> segment" where
  "read_view p = (rp_block_index p, rp_offset_in_block p, rp_length p)"

definition write_view :: "block_write_plan \<Rightarrow> segment" where
  "write_view p = (wp_block_index p, wp_offset_in_block p, wp_length p)"

interpretation read_cutter: block_cutter "plan_read_loop block_ids" read_view for block_ids
  by unfold_locales
    (simp_all add: plan_read_loop.simps [of block_ids] read_view_def Let_def)

interpretation write_cutter: block_cutter plan_write_loop write_view
  by unfold_locales
    (simp_all add: plan_write_loop.simps write_view_def Let_def)

section \<open>Correctness of the plans\<close>

definition file_block_size :: "file_info \<Rightarrow> nat" where
  "file_block_size fi = nat (unwrap_or (fi_block_size_bytes fi) (64 * 1024 * 1024))"

text \<open>The early returns and the clamp of \<^const>\<open>plan_read\<close>, over natural numbers.\<close>

lemma plan_read_eq_loop:
  assumes "fi_length fi = Some (int flen)" and "flen < 2 ^ 63"
    and "0 < file_block_size fi" and "file_block_size fi < 2 ^ 63"
  obtains block_size remaining where
    "plan_read fi offset len = plan_read_loop (fi_block_ids fi) block_size remaining offset"
    "block_size \<noteq> 0" "unat block_size = file_block_size fi"
    "unat remaining = min (unat len) (flen - unat offset)"
    "unat offset + unat remaining < 2 ^ 64"
proof -
  let ?i = "unwrap_or (fi_block_size_bytes fi) (64 * 1024 * 1024)"
  define block_size :: u64 where "block_size = word_of_int ?i"
  define file_length :: u64 where "file_length = word_of_int (int flen)"
  define remaining where "remaining = min len (sat_sub file_length offset)"
  have "0 \<le> ?i" "?i < 2 ^ 64"
    using assms(3,4) by (auto simp: file_block_size_def)
  then have bs: "unat block_size = file_block_size fi"
    by (simp add: block_size_def file_block_size_def unat_of_int_nat)
  then have nz: "block_size \<noteq> 0"
    using assms(3) by (metis unat_0 less_irrefl)
  have fl: "unat file_length = flen"
    using assms(2) unat_of_int_nat [of "int flen"] by (simp add: file_length_def)
  have rem: "unat remaining = min (unat len) (flen - unat offset)"
    by (simp add: remaining_def unat_min unat_sat_sub fl)
  have "unat offset + unat remaining < 2 ^ 64"
    using rem assms(2) unat_u64_less [of offset] by (auto simp: min_def)
  moreover have "plan_read fi offset len = plan_read_loop (fi_block_ids fi) block_size remaining offset"
  proof -
    have unfolded: "plan_read fi offset len =
        (if block_size = 0 \<or> len = 0 \<or> file_length \<le> offset \<or> remaining = 0 then []
         else plan_read_loop (fi_block_ids fi) block_size remaining offset)"
      unfolding plan_read_def block_size_def file_length_def remaining_def
      by (simp add: assms(1) Let_def)
    have "remaining = 0" if "len = 0 \<or> file_length \<le> offset"
      using that rem fl by (auto simp: word_le_nat_alt unat_0_iff [symmetric])
    then show ?thesis
      using nz by (auto simp: unfolded read_cutter.cut_done)
  qed
  ultimately show ?thesis
    using that [of block_size remaining] nz bs rem by blast
qed

lemma plan_read_loop_block_ids:
  "p \<in> set (plan_read_loop block_ids block_size remaining current_offset) \<Longrightarrow>
   rp_block_id p = (if unat (rp_block_index p) < length block_ids
                    then block_ids ! unat (rp_block_index p) else -1)"
proof (induction block_ids block_size remaining current_offset rule: plan_read_loop.induct)
  case (1 block_ids block_size remaining current_offset)
  show ?case
  proof (cases "remaining = 0 \<or> block_size = 0")
    case True
    with "1.prems" show ?thesis
      by (simp add: plan_read_loop.simps [of block_ids block_size remaining current_offset])
  next
    case False
    with "1.prems" "1.IH" [OF False refl refl refl] show ?thesis
      by (auto simp: plan_read_loop.simps [of block_ids block_size remaining current_offset]
          Let_def)
  qed
qed

definition plan_bytes :: "file_info \<Rightarrow> 'a list \<Rightarrow> block_read_plan \<Rightarrow> 'a list" where
  "plan_bytes fi data p =
     seg (unat (rp_offset_in_block p)) (unat (rp_length p))
       (block_of (file_block_size fi) (unat (rp_block_index p)) data)"

lemma plan_read_concat:
  assumes "fi_length fi = Some (int (length data))" and "length data < 2 ^ 63"
    and "0 < file_block_size fi" and "file_block_size fi < 2 ^ 63"
  shows "concat (map (plan_bytes fi data) (plan_read fi offset len))
         = seg (unat offset) (unat len) data"
proof -
  obtain block_size remaining where *:
    "plan_read fi offset len = plan_read_loop (fi_block_ids fi) block_size remaining offset"
    "block_size \<noteq> 0" "unat block_size = file_block_size fi"
    "unat remaining = min (unat len) (length data - unat offset)"
    "unat offset + unat remaining < 2 ^ 64"
    using plan_read_eq_loop [OF assms] by blast
  have "plan_bytes fi data = segment_bytes (unat block_size) data \<circ> read_view"
    by (simp add: fun_eq_iff plan_bytes_def segment_bytes_def read_view_def *)
  then show ?thesis
    using read_cutter.cut_bytes [OF *(2,5), of data "fi_block_ids fi"]
    by (simp add: * seg_clamp)
qed

lemma tiles_from_member:
  "tiles_from B c ss \<Longrightarrow> (idx, off, n) \<in> set ss \<Longrightarrow>
     0 < unat n \<and> unat off + unat n \<le> B \<and> c \<le> unat idx * B + unat off
     \<and> unat idx * B + unat off + unat n \<le> c + segments_total ss"
proof (induction B c ss rule: tiles_from.induct)
  case (2 B c i off' n' ss)
  then show ?case by (auto simp: segments_total_def)
qed simp

text \<open>Where the segments of a plan lie, and whose they are.\<close>

lemma plan_read_segment:
  assumes "fi_length fi = Some (int flen)" and "flen < 2 ^ 63"
    and "0 < file_block_size fi" and "file_block_size fi < 2 ^ 63"
    and "p \<in> set (plan_read fi offset len)"
  shows "0 < unat (rp_length p)"
    and "unat (rp_offset_in_block p) + unat (rp_length p) \<le> file_block_size fi"
    and "unat (rp_block_index p) * file_block_size fi + unat (rp_offset_in_block p) + unat (rp_length p) \<le> flen"
    and "rp_block_id p = (if unat (rp_block_index p) < length (fi_block_ids fi)
           then fi_block_ids fi ! unat (rp_block_index p) else -1)"
proof -
  obtain block_size remaining where *:
    "plan_read fi offset len = plan_read_loop (fi_block_ids fi) block_size remaining offset"
    "block_size \<noteq> 0" "unat block_size = file_block_size fi"
    "unat remaining = min (unat len) (flen - unat offset)"
    "unat offset + unat remaining < 2 ^ 64"
    using plan_read_eq_loop [OF assms(1-4)] by blast
  have mem: "read_view p \<in> set (map read_view (plan_read_loop (fi_block_ids fi) block_size remaining offset))"
    using assms(5) by (simp add: *(1))
  note t = tiles_from_member [OF read_cutter.cut_tiles [OF *(2,5), of "fi_block_ids fi"],
      of "rp_block_index p" "rp_offset_in_block p" "rp_length p"]
  have t: "0 < unat (rp_length p)"
    "unat (rp_offset_in_block p) + unat (rp_length p) \<le> file_block_size fi"
    "unat (rp_block_index p) * file_block_size fi + unat (rp_offset_in_block p) + unat (rp_length p)
       \<le> unat offset + unat remaining"
    "unat offset \<le> unat (rp_block_index p) * file_block_size fi + unat (rp_offset_in_block p)"
    using t mem read_cutter.cut_total [OF *(2,5), of "fi_block_ids fi"] *(3) by (simp_all add: read_view_def)
  then show "0 < unat (rp_length p)" "unat (rp_offset_in_block p) + unat (rp_length p) \<le> file_block_size fi"
    by simp_all
  show "unat (rp_block_index p) * file_block_size fi + unat (rp_offset_in_block p) + unat (rp_length p) \<le> flen"
    using t *(4) by linarith
  show "rp_block_id p = (if unat (rp_block_index p) < length (fi_block_ids fi)
      then fi_block_ids fi ! unat (rp_block_index p) else -1)"
    using plan_read_loop_block_ids assms(5) by (simp add: *(1))
qed

text \<open>A file of ten bytes in blocks of four, the input of the witnesses below.\<close>

definition ten_byte_file :: file_info where
  "ten_byte_file =
    default_file_info\<lparr>fi_file_id := Some 7, fi_length := Some 10, fi_block_size_bytes := Some 4,
     fi_block_ids := [100, 101, 102]\<rparr>"

text \<open>
  (C1) A read plan fetches the requested bytes.  For a file of fewer than \<open>2 ^ 63\<close> bytes
  stored in blocks of any positive size, every offset and every length, the segments of
  \<open>plan_read\<close>, each read from its own block and concatenated in plan order, are exactly the
  bytes of the file in the requested range, cut off at the end of the file.
\<close>

theorem plan_read_bytes:
  assumes "fi_length fi = Some (int (length data))" and "length data < 2 ^ 63"
    and "0 < file_block_size fi" and "file_block_size fi < 2 ^ 63"
  shows "concat (map (plan_bytes fi data) (plan_read fi offset len))
         = seg (unat offset) (unat len) data"
  using assms by (rule plan_read_concat)

theorem plan_read_bytes_witness:
  "concat (map (plan_bytes ten_byte_file [0 ..< 10]) (plan_read ten_byte_file 3 6))
   = [3, 4, 5, 6, 7, 8]"
  by (subst plan_read_bytes) (simp_all add: ten_byte_file_def file_block_size_def seg_def upt_rec)

text \<open>
  A read plan is a tiling of the effective range: its segments follow each other without
  gap or overlap from the requested offset, none is empty or crosses a block boundary, all
  but the last end at one, their lengths add up to the requested length clamped to the end
  of the file, and each carries the id of its block, or \<open>-1\<close> where the file lists none.
\<close>

theorem plan_read_tiles:
  assumes "fi_length fi = Some (int flen)" and "flen < 2 ^ 63"
    and "0 < file_block_size fi" and "file_block_size fi < 2 ^ 63"
  shows "tiles_from (file_block_size fi) (unat offset) (map read_view (plan_read fi offset len))
    \<and> segments_total (map read_view (plan_read fi offset len)) = min (unat len) (flen - unat offset)
    \<and> (\<forall>p \<in> set (plan_read fi offset len). rp_block_id p =
          (if unat (rp_block_index p) < length (fi_block_ids fi)
           then fi_block_ids fi ! unat (rp_block_index p) else -1))"
proof -
  obtain block_size remaining where *:
    "plan_read fi offset len = plan_read_loop (fi_block_ids fi) block_size remaining offset"
    "block_size \<noteq> 0" "unat block_size = file_block_size fi"
    "unat remaining = min (unat len) (flen - unat offset)"
    "unat offset + unat remaining < 2 ^ 64"
    using plan_read_eq_loop [OF assms] by blast
  show ?thesis
    using read_cutter.cut_tiles [OF *(2,5)] read_cutter.cut_total [OF *(2,5)]
      plan_read_loop_block_ids
    by (simp add: *)
qed

theorem plan_read_tiles_witness:
  "tiles_from 4 3 (map read_view (plan_read ten_byte_file 3 100))
   \<and> segments_total (map read_view (plan_read ten_byte_file 3 100)) = 7"
  using plan_read_tiles [of ten_byte_file 10 3 100]
  by (simp add: ten_byte_file_def file_block_size_def)

text \<open>
  A write plan tiles the appended range: for a positive block size and a range that ends
  below \<open>2 ^ 64\<close>, the segments of \<open>plan_write\<close> follow each other from the file offset, none is
  empty or crosses a block boundary, all but the last end at one, and their lengths add up to
  the number of bytes to write.
\<close>

theorem plan_write_tiles:
  assumes "block_size \<noteq> 0" and "unat file_offset + unat len < 2 ^ 64"
  shows "tiles_from (unat block_size) (unat file_offset)
           (map write_view (plan_write block_size file_offset len))
         \<and> segments_total (map write_view (plan_write block_size file_offset len)) = unat len"
proof (cases "len = 0")
  case True
  then show ?thesis by (simp add: plan_write_def segments_total_def)
next
  case False
  with assms show ?thesis
    by (simp add: plan_write_def write_cutter.cut_tiles write_cutter.cut_total)
qed

theorem plan_write_tiles_witness:
  "tiles_from 4 3 (map write_view (plan_write 4 3 10))
   \<and> segments_total (map write_view (plan_write 4 3 10)) = 10"
  using plan_write_tiles [of 4 3 10] by simp

end
