(* ===== verification/Checksums.thy ===== *)
theory Checksums
  imports Goose_Prelude
begin

text \<open>
  The in-tree checksums of the writer: Castagnoli CRC32C (\<^verbatim>\<open>src/src/io/crc32c.rs\<close>) and
  IEEE CRC32 (\<^verbatim>\<open>src/src/io/crc32.rs\<close>).  Both files hold the same two routines over
  another polynomial: a table built bit by bit and a byte loop that looks it up.  The
  locale below states what such a table must satisfy, and shows against the bit-serial
  register that the byte loop computes the CRC, composes, and detects damage.
\<close>

section \<open>The routines\<close>

text \<open>One turn of the inner loop of \<open>make_table\<close>.\<close>

definition crc_bit :: "u32 \<Rightarrow> u32 \<Rightarrow> u32" where
  "crc_bit poly crc = (if crc AND 1 \<noteq> 0 then drop_bit 1 crc XOR poly else drop_bit 1 crc)"

definition make_table :: "u32 \<Rightarrow> u32 list" where
  "make_table poly = map (\<lambda>i. (crc_bit poly ^^ 8) (of_nat i)) [0 ..< 256]"

text \<open>The byte loop of both \<open>append\<close> functions, on the table it reads.\<close>

fun crc_loop :: "u32 list \<Rightarrow> u32 \<Rightarrow> bytes \<Rightarrow> u32" where
  "crc_loop table crc [] = crc"
| "crc_loop table crc (b # bs) =
     (let idx = unat ((ucast crc :: u8) XOR b)
      in crc_loop table (table ! idx XOR drop_bit 8 crc) bs)"

definition poly_crc32c :: u32 where
  "poly_crc32c = 0x82f63b78"

definition table_crc32c :: "u32 list" where
  "table_crc32c = make_table poly_crc32c"

definition crc32c_append :: "u32 \<Rightarrow> bytes \<Rightarrow> u32" where
  "crc32c_append crc data = NOT (crc_loop table_crc32c (NOT crc) data)"

definition crc32c :: "bytes \<Rightarrow> u32" where
  "crc32c data = crc32c_append 0 data"

definition poly_crc32 :: u32 where
  "poly_crc32 = 0xedb88320"

definition table_crc32 :: "u32 list" where
  "table_crc32 = make_table poly_crc32"

definition crc32_append :: "u32 \<Rightarrow> bytes \<Rightarrow> u32" where
  "crc32_append crc data = NOT (crc_loop table_crc32 (NOT crc) data)"

definition crc32 :: "bytes \<Rightarrow> u32" where
  "crc32 data = crc32_append 0 data"

section \<open>The bit-serial register\<close>

text \<open>The reference: one byte is shifted through the register bit by bit.\<close>

definition crc_byte :: "u32 \<Rightarrow> u32 \<Rightarrow> u8 \<Rightarrow> u32" where
  "crc_byte poly crc b = (crc_bit poly ^^ 8) (crc XOR ucast b)"

fun crc_register :: "u32 \<Rightarrow> u32 \<Rightarrow> bytes \<Rightarrow> u32" where
  "crc_register poly crc [] = crc"
| "crc_register poly crc (b # bs) = crc_register poly (crc_byte poly crc b) bs"

lemma register_append:
  "crc_register poly crc (xs @ ys) = crc_register poly (crc_register poly crc xs) ys"
  by (induction xs arbitrary: crc) simp_all

lemma crc_bit_alt: "crc_bit poly x = drop_bit 1 x XOR (if bit x 0 then poly else 0)"
  by (simp add: crc_bit_def bit_0 even_iff_mod_2_eq_zero and_one_eq odd_iff_mod_2_eq_one)

lemma crc_bit_xor: "crc_bit poly (x XOR y) = crc_bit poly x XOR crc_bit poly y"
  by (auto simp: crc_bit_alt bit_xor_iff drop_bit_xor ac_simps)

lemma crc_bits_xor: "(crc_bit poly ^^ n) (x XOR y) = (crc_bit poly ^^ n) x XOR (crc_bit poly ^^ n) y"
  by (induction n) (simp_all add: crc_bit_xor)

lemma crc_bits_shifted:
  assumes "\<And>m. bit y m \<Longrightarrow> m + n < 32"
  shows "(crc_bit poly ^^ n) (push_bit n (y :: u32)) = y"
  using assms
proof (induction n arbitrary: y)
  case 0
  then show ?case by simp
next
  case (Suc n)
  have "drop_bit 1 (push_bit (Suc n) y) = push_bit n y"
  proof (rule bit_word_eqI)
    fix m
    have "bit y (m - n) \<Longrightarrow> n \<le> m \<Longrightarrow> Suc m < 32"
      using Suc.prems [of "m - n"] by simp
    then show "bit (drop_bit 1 (push_bit (Suc n) y)) m = bit (push_bit n y) m"
      by (auto simp: bit_drop_bit_eq bit_push_bit_iff simp del: push_bit_Suc)
  qed
  then have "crc_bit poly (push_bit (Suc n) y) = push_bit n y"
    by (simp add: crc_bit_alt bit_push_bit_iff del: push_bit_Suc)
  moreover have "(crc_bit poly ^^ n) (push_bit n y) = y"
    using Suc.prems by (intro Suc.IH) fastforce
  ultimately show ?case
    by (simp add: funpow_Suc_right del: push_bit_Suc funpow.simps)
qed

lemma crc_bits_split:
  "(crc_bit poly ^^ 8) x = (crc_bit poly ^^ 8) (x AND mask 8) XOR drop_bit 8 x"
proof -
  have "x = (x AND mask 8) XOR push_bit 8 (drop_bit 8 x)"
    by (rule bit_word_eqI)
      (auto simp: bit_and_iff bit_xor_iff bit_push_bit_iff bit_drop_bit_eq bit_mask_iff)
  moreover have "(crc_bit poly ^^ 8) (push_bit 8 (drop_bit 8 x)) = drop_bit 8 x"
    by (rule crc_bits_shifted) (auto simp: bit_drop_bit_eq dest: bit_imp_le_length)
  ultimately show ?thesis
    by (metis crc_bits_xor)
qed

text \<open>A polynomial whose top coefficient is set gives a register that loses nothing.\<close>

lemma crc_bit_inject:
  assumes "bit poly 31" and "crc_bit poly x = crc_bit poly y"
  shows "x = y"
proof -
  have top: "bit (crc_bit poly z) 31 \<longleftrightarrow> bit z 0" for z
    using assms(1) by (auto simp: crc_bit_alt bit_xor_iff bit_drop_bit_eq dest: bit_imp_le_length)
  have low: "bit x 0 \<longleftrightarrow> bit y 0"
    using top [of x] top [of y] assms(2) by simp
  have "drop_bit 1 x = drop_bit 1 y"
    using assms(2) low by (auto simp: crc_bit_alt split: if_splits)
  then have "bit x (Suc n) \<longleftrightarrow> bit y (Suc n)" for n
    by (metis bit_drop_bit_eq comp_apply plus_1_eq_Suc)
  with low have "bit x n \<longleftrightarrow> bit y n" for n
    by (cases n) auto
  then show ?thesis by (rule bit_word_eqI)
qed

lemma crc_bits_inject:
  assumes "bit poly 31"
  shows "(crc_bit poly ^^ n) x = (crc_bit poly ^^ n) y \<longleftrightarrow> x = y"
  by (induction n) (auto dest: crc_bit_inject [OF assms])

lemma ucast_u8_u32_inject: "(ucast a :: u32) = ucast b \<longleftrightarrow> a = (b :: u8)"
proof -
  have "ucast (ucast c :: u32) = c" for c :: u8
    by (rule bit_word_eqI) (simp add: bit_ucast_iff)
  then show ?thesis by metis
qed

section \<open>The table computes the register\<close>

locale crc_table =
  fixes poly :: u32 and table :: "u32 list"
  assumes table_nth: "i < 256 \<Longrightarrow> table ! i = (crc_bit poly ^^ 8) (of_nat i)"
    and poly_top: "bit poly 31"
begin

lemma table_step:
  "table ! unat ((ucast crc :: u8) XOR b) XOR drop_bit 8 crc = crc_byte poly crc b"
proof -
  let ?x = "crc XOR ucast b"
  have "unat ((ucast crc :: u8) XOR b) < 256"
    using unsigned_less [of "(ucast crc :: u8) XOR b"] by simp
  moreover have "(of_nat (unat ((ucast crc :: u8) XOR b)) :: u32) = ucast ((ucast crc :: u8) XOR b)"
    by simp
  moreover have "(ucast ((ucast crc :: u8) XOR b) :: u32) = ?x AND mask 8"
    by (rule bit_word_eqI)
      (auto simp: bit_and_iff bit_xor_iff bit_ucast_iff bit_mask_iff dest: bit_imp_le_length)
  ultimately have "table ! unat ((ucast crc :: u8) XOR b) = (crc_bit poly ^^ 8) (?x AND mask 8)"
    by (simp add: table_nth)
  moreover have "drop_bit 8 ?x = drop_bit 8 crc"
    by (rule bit_word_eqI)
      (auto simp: bit_drop_bit_eq bit_xor_iff bit_ucast_iff dest: bit_imp_le_length)
  ultimately show ?thesis
    using crc_bits_split [of poly ?x] by (simp add: crc_byte_def)
qed

lemma loop_register: "crc_loop table crc data = crc_register poly crc data"
  by (induction data arbitrary: crc) (simp_all add: table_step Let_def)

lemma loop_append: "crc_loop table crc (xs @ ys) = crc_loop table (crc_loop table crc xs) ys"
  by (simp add: loop_register register_append)

lemma register_inject:
  "crc_register poly r data = crc_register poly r' data \<longleftrightarrow> r = r'"
  by (induction data arbitrary: r r')
    (simp_all add: crc_byte_def crc_bits_inject [OF poly_top])

lemma loop_detects_byte:
  "crc_loop table crc (xs @ x # ys) = crc_loop table crc (xs @ y # ys) \<longleftrightarrow> x = y"
  by (simp add: loop_register register_append register_inject)
    (simp add: crc_byte_def crc_bits_inject [OF poly_top] ucast_u8_u32_inject)

end

lemma make_table_nth: "i < 256 \<Longrightarrow> make_table poly ! i = (crc_bit poly ^^ 8) (of_nat i)"
  by (simp add: make_table_def)

interpretation crc32c_table: crc_table poly_crc32c table_crc32c
  by unfold_locales (simp_all add: table_crc32c_def make_table_nth poly_crc32c_def)

interpretation crc32_table: crc_table poly_crc32 table_crc32
  by unfold_locales (simp_all add: table_crc32_def make_table_nth poly_crc32_def)

lemma crc32c_append_register:
  "crc32c_append crc data = NOT (crc_register poly_crc32c (NOT crc) data)"
  by (simp add: crc32c_append_def crc32c_table.loop_register)

lemma crc32_append_register:
  "crc32_append crc data = NOT (crc_register poly_crc32 (NOT crc) data)"
  by (simp add: crc32_append_def crc32_table.loop_register)

lemma funpow_8: "(f ^^ 8) x = f (f (f (f (f (f (f (f x)))))))"
  by (simp add: eval_nat_numeral)

section \<open>Correctness\<close>

text \<open>
  (C38) The table-driven checksums are the bit-serial ones: for every running value and every
  input, \<open>crc32c_append\<close> and \<open>crc32_append\<close> return the complement of what the reflected shift
  register of their polynomial holds after the bytes have been shifted through it bit by
  bit, started from the complement of the running value.
\<close>

theorem crc_append_is_register:
  "crc32c_append crc data = NOT (crc_register poly_crc32c (NOT crc) data)
   \<and> crc32_append crc data = NOT (crc_register poly_crc32 (NOT crc) data)"
  using crc32c_append_register crc32_append_register by blast

text \<open>
  A checksum can be taken piecewise, as the writer does: continuing from the checksum of
  a prefix with the rest gives the checksum of the whole, for both polynomials and any split.
\<close>

theorem crc_append_compose:
  "crc32c_append (crc32c_append crc xs) ys = crc32c_append crc (xs @ ys)
   \<and> crc32_append (crc32_append crc xs) ys = crc32_append crc (xs @ ys)"
  by (simp add: crc32c_append_def crc32_append_def crc32c_table.loop_append
      crc32_table.loop_append)

text \<open>
  Both checksums detect every change of one byte: two inputs that differ in exactly one
  byte have different checksums, whatever comes before and after it.
\<close>

theorem crc_detects_one_byte:
  "(crc32c (xs @ x # ys) = crc32c (xs @ y # ys) \<longleftrightarrow> x = y)
   \<and> (crc32 (xs @ x # ys) = crc32 (xs @ y # ys) \<longleftrightarrow> x = y)"
  by (simp add: crc32c_def crc32_def crc32c_append_def crc32_append_def
      crc32c_table.loop_detects_byte crc32_table.loop_detects_byte)

text \<open>
  The check vectors of both algorithms: the checksums of the ASCII text
  \<open>123456789\<close> are \<open>0xe3069283\<close> (CRC32C) and \<open>0xcbf43926\<close> (CRC32), and those of the empty
  input are zero.
\<close>

theorem crc_check_vectors:
  "crc32c [0x31, 0x32, 0x33, 0x34, 0x35, 0x36, 0x37, 0x38, 0x39] = 0xe3069283
   \<and> crc32 [0x31, 0x32, 0x33, 0x34, 0x35, 0x36, 0x37, 0x38, 0x39] = 0xcbf43926
   \<and> crc32c [] = 0 \<and> crc32 [] = 0"
  by (simp add: crc32c_def crc32_def crc32c_append_register crc32_append_register
      crc_byte_def funpow_8 crc_bit_def poly_crc32c_def poly_crc32_def)

end
