(* ===== verification/Murmur3.thy ===== *)
theory Murmur3
  imports Goose_Prelude
begin

text \<open>
  The Guava-compatible MurmurHash3 x64 128-bit of the consistent-hash ring
  (\<^verbatim>\<open>src/src/block/murmur3.rs\<close>): sixteen-byte blocks, the fall-through tail and the
  final mix, all on wrapping \<open>u64\<close> words, and the hash of a \<open>long\<close> followed by an
  \<open>int\<close> that the ring is keyed by.
\<close>

section \<open>The hash function\<close>

definition murmur_c1 :: u64 where "murmur_c1 = 0x87c37b91114253d5"
definition murmur_c2 :: u64 where "murmur_c2 = 0x4cf5ad432745937f"

text \<open>\<open>from_le_bytes\<close> and \<open>to_le_bytes\<close>.\<close>

fun from_le :: "bytes \<Rightarrow> u64" where
  "from_le [] = 0"
| "from_le (b # bs) = ucast b OR push_bit 8 (from_le bs)"

definition to_le :: "nat \<Rightarrow> 'a::len word \<Rightarrow> bytes" where
  "to_le n w = map (\<lambda>i. ucast (drop_bit (8 * i) w)) [0 ..< n]"

definition read_u64_le :: "bytes \<Rightarrow> nat \<Rightarrow> u64" where
  "read_u64_le data off = from_le (take 8 (drop off data))"

definition fmix64 :: "u64 \<Rightarrow> u64" where
  "fmix64 k0 =
     (let k1 = k0 XOR drop_bit 33 k0;
          k2 = k1 * 0xff51afd7ed558ccd;
          k3 = k2 XOR drop_bit 33 k2;
          k4 = k3 * 0xc4ceb9fe1a85ec53
      in k4 XOR drop_bit 33 k4)"

definition mix_k1 :: "u64 \<Rightarrow> u64" where
  "mix_k1 k = word_rotl 31 (k * murmur_c1) * murmur_c2"

definition mix_k2 :: "u64 \<Rightarrow> u64" where
  "mix_k2 k = word_rotl 33 (k * murmur_c2) * murmur_c1"

text \<open>One turn of the block loop.\<close>

definition murmur_block :: "bytes \<Rightarrow> u64 \<times> u64 \<Rightarrow> nat \<Rightarrow> u64 \<times> u64" where
  "murmur_block data = (\<lambda>(h1, h2) i.
     let k1 = read_u64_le data (i * 16);
         k2 = read_u64_le data (i * 16 + 8);
         h1 = (word_rotl 27 (h1 XOR mix_k1 k1) + h2) * 5 + 0x52dce729;
         h2 = (word_rotl 31 (h2 XOR mix_k2 k2) + h1) * 5 + 0x38495ab5
     in (h1, h2))"

text \<open>One arm of the fall-through switch: byte \<open>i\<close> of the tail, if there is one.\<close>

definition xor_tail :: "bytes \<Rightarrow> nat \<Rightarrow> nat \<Rightarrow> u64 \<Rightarrow> u64" where
  "xor_tail tail i shift k =
     (if i < length tail then k XOR push_bit shift (ucast (tail ! i)) else k)"

definition tail_k2 :: "bytes \<Rightarrow> u64" where
  "tail_k2 tail =
     xor_tail tail 8 0 (xor_tail tail 9 8 (xor_tail tail 10 16 (xor_tail tail 11 24
       (xor_tail tail 12 32 (xor_tail tail 13 40 (xor_tail tail 14 48 0))))))"

definition tail_k1 :: "bytes \<Rightarrow> u64" where
  "tail_k1 tail =
     xor_tail tail 0 0 (xor_tail tail 1 8 (xor_tail tail 2 16 (xor_tail tail 3 24
       (xor_tail tail 4 32 (xor_tail tail 5 40 (xor_tail tail 6 48 (xor_tail tail 7 56 0)))))))"

definition murmurhash3_x64_128 :: "bytes \<Rightarrow> u32 \<Rightarrow> u64 \<times> u64" where
  "murmurhash3_x64_128 data seed =
     (let len = length data;
          nblocks = len div 16;
          (h1, h2) = foldl (murmur_block data) (ucast seed, ucast seed) [0 ..< nblocks];
          tail = drop (nblocks * 16) data;
          h2 = (if 9 \<le> length tail then h2 XOR mix_k2 (tail_k2 tail) else h2);
          h1 = (if 1 \<le> length tail then h1 XOR mix_k1 (tail_k1 tail) else h1);
          h1 = h1 XOR of_nat len;
          h2 = h2 XOR of_nat len;
          h1 = h1 + h2;
          h2 = h2 + h1;
          h1 = fmix64 h1;
          h2 = fmix64 h2;
          h1 = h1 + h2;
          h2 = h2 + h1
      in (h1, h2))"

definition murmur3_128_as_long_put_long_int :: "i64 \<Rightarrow> i32 \<Rightarrow> i64" where
  "murmur3_128_as_long_put_long_int key index =
     (let buf = to_le 8 (word_of_int key :: u64) @ to_le 4 (word_of_int index :: u32);
          (h1, h2) = murmurhash3_x64_128 buf 0
      in sint h1)"

section \<open>Bytes and words\<close>

lemma length_to_le [simp]: "length (to_le n w) = n"
  by (simp add: to_le_def)

lemma to_le_nth [simp]: "i < n \<Longrightarrow> to_le n w ! i = ucast (drop_bit (8 * i) w)"
  by (simp add: to_le_def)

text \<open>The shifted bytes of a word, combined, give the word back.\<close>

lemma byte_of_word_bit:
  "bit (push_bit (8 * i) (ucast (ucast (drop_bit (8 * i) w) :: u8)) :: u64) n
   \<longleftrightarrow> n div 8 = i \<and> n < 64 \<and> bit w n"
  by (auto simp: bit_push_bit_iff bit_ucast_iff bit_drop_bit_eq dest: bit_imp_le_length)

lemma tail_k1_to_le:
  "tail_k1 (to_le 8 (w :: u64) @ rest) = w"
proof (rule bit_word_eqI)
  fix n assume "n < LENGTH(64)"
  then have "n div 8 < 8" by simp
  then consider "n div 8 = 0" | "n div 8 = 1" | "n div 8 = 2" | "n div 8 = 3"
    | "n div 8 = 4" | "n div 8 = 5" | "n div 8 = 6" | "n div 8 = 7"
    by linarith
  then show "bit (tail_k1 (to_le 8 w @ rest)) n = bit w n"
    using \<open>n < LENGTH(64)\<close> byte_of_word_bit [of 0 w n] byte_of_word_bit [of 1 w n]
      byte_of_word_bit [of 2 w n] byte_of_word_bit [of 3 w n] byte_of_word_bit [of 4 w n]
      byte_of_word_bit [of 5 w n] byte_of_word_bit [of 6 w n] byte_of_word_bit [of 7 w n]
    by cases (simp_all add: tail_k1_def xor_tail_def nth_append bit_xor_iff)
qed

lemma tail_k2_to_le:
  assumes "length xs = 8"
  shows "tail_k2 (xs @ to_le 4 (w :: u32)) = ucast w"
proof (rule bit_word_eqI)
  fix n assume n: "n < LENGTH(64)"
  have "bit w n \<Longrightarrow> n < 32" by (auto dest: bit_imp_le_length)
  moreover have "n div 8 = 0 \<or> n div 8 = 1 \<or> n div 8 = 2 \<or> n div 8 = 3" if "n < 32"
    using that by linarith
  ultimately show "bit (tail_k2 (xs @ to_le 4 w)) n = bit (ucast w :: u64) n"
    using assms n byte_of_word_bit [of 0 w n] byte_of_word_bit [of 1 w n]
      byte_of_word_bit [of 2 w n] byte_of_word_bit [of 3 w n]
    by (auto simp: tail_k2_def xor_tail_def nth_append bit_xor_iff bit_ucast_iff)
qed

section \<open>The final mix is reversible\<close>

definition xorshift33 :: "u64 \<Rightarrow> u64" where
  "xorshift33 x = x XOR drop_bit 33 x"

lemma xorshift33_twice: "xorshift33 (xorshift33 x) = x"
  unfolding xorshift33_def
  by (rule bit_word_eqI) (auto simp: bit_xor_iff bit_drop_bit_eq dest: bit_imp_le_length)

lemma fmix64_alt:
  "fmix64 k = xorshift33 (xorshift33 (xorshift33 k * 0xff51afd7ed558ccd) * 0xc4ceb9fe1a85ec53)"
  by (simp add: fmix64_def xorshift33_def Let_def)

definition unfmix64 :: "u64 \<Rightarrow> u64" where
  "unfmix64 k = xorshift33 (xorshift33 (xorshift33 k * 0x9cb4b2f8129337db) * 0x4f74430c22a54005)"

lemma mult_inverse_pair: "a * b = (1 :: u64) \<Longrightarrow> x * a * b = x"
  by (simp add: mult.assoc)

lemma fmix_multipliers:
  "x * 0xff51afd7ed558ccd * 0x4f74430c22a54005 = (x :: u64)"
  "x * 0xc4ceb9fe1a85ec53 * 0x9cb4b2f8129337db = (x :: u64)"
  "x * 0x4f74430c22a54005 * 0xff51afd7ed558ccd = (x :: u64)"
  "x * 0x9cb4b2f8129337db * 0xc4ceb9fe1a85ec53 = (x :: u64)"
  by (rule mult_inverse_pair, simp)+

lemma unfmix64_fmix64: "unfmix64 (fmix64 k) = k"
  unfolding unfmix64_def fmix64_alt xorshift33_twice fmix_multipliers ..

lemma fmix64_unfmix64: "fmix64 (unfmix64 k) = k"
  unfolding unfmix64_def fmix64_alt xorshift33_twice fmix_multipliers ..

section \<open>Correctness\<close>

lemma murmur3_long_int_words:
  "murmur3_128_as_long_put_long_int key index =
     (let h1 = mix_k1 (word_of_int key) XOR 12;
          h2 = mix_k2 (ucast (word_of_int index :: u32)) XOR 12;
          h1 = h1 + h2;
          h2 = h2 + h1
      in sint (fmix64 h1 + fmix64 h2))"
  by (simp add: murmur3_128_as_long_put_long_int_def murmurhash3_x64_128_def Let_def
      tail_k1_to_le tail_k2_to_le)

text \<open>
  The hash of the ring on words: for every key and index, hashing the twelve bytes of
  \<open>putLong\<close> and \<open>putInt\<close> byte by byte equals the closed form on the two words themselves,
  which is the reference the Java client evaluates.
\<close>

theorem murmur3_long_int_closed_form:
  "murmur3_128_as_long_put_long_int key index =
     (let h1 = mix_k1 (word_of_int key) XOR 12;
          h2 = mix_k2 (ucast (word_of_int index :: u32)) XOR 12;
          h1 = h1 + h2;
          h2 = h2 + h1
      in sint (fmix64 h1 + fmix64 h2))"
  by (rule murmur3_long_int_words)

text \<open>
  The final mix of the hash is a bijection on 64-bit words: it never maps two different
  accumulators to the same value.
\<close>

theorem fmix64_bij: "bij fmix64"
  by (rule o_bij [of unfmix64]) (simp_all add: fun_eq_iff unfmix64_fmix64 fmix64_unfmix64)

text \<open>
  The golden vectors shared with the GooseFS Java \<open>ConsistentHashProvider\<close>.
\<close>

theorem murmur3_golden_vectors:
  "murmur3_128_as_long_put_long_int 1 0 = 8673688779682957586
   \<and> murmur3_128_as_long_put_long_int 42 7 = 1969424773395075097
   \<and> murmur3_128_as_long_put_long_int 100 1 = -8854681018154386345
   \<and> murmur3_128_as_long_put_long_int (-1) 0 = 7097917686268154775
   \<and> murmur3_128_as_long_put_long_int 0 0 = -6568239567428591645
   \<and> murmur3_128_as_long_put_long_int 85429583872 0 = -5867849384608515022
   \<and> murmur3_128_as_long_put_long_int 8769479697893324776 0 = -6296241382218419536"
  unfolding murmur3_long_int_words by code_simp

end
