(* ===== verification/Range_Coalesce.thy ===== *)
theory Range_Coalesce
  imports Goose_Prelude "HOL-Library.Multiset"
begin

text \<open>
  The range coalescing planner (\<^verbatim>\<open>src/src/io/range_coalesce.rs\<close>): many small byte ranges
  become few merged fetches, with a slice of a fetch for each input range.  Offsets and
  lengths are \<open>u64\<close> words with the source's wrapping and saturating arithmetic; an index
  into a vector is a natural number, and \<open>NO_FETCH\<close> is \<open>usize::MAX\<close>.
\<close>

section \<open>The planner\<close>

record slice_map =
  sm_fetch_index :: nat
  sm_offset_in_fetch :: u64
  sm_len :: u64

record merged_fetch =
  mf_offset :: u64
  mf_len :: u64

record coalesce_plan =
  cp_fetches :: "merged_fetch list"
  cp_slices :: "slice_map list"
  cp_total_input_bytes :: u64
  cp_total_fetch_bytes :: u64

definition NO_FETCH :: nat where
  "NO_FETCH = 2 ^ 64 - 1"

definition wasted_bytes :: "coalesce_plan \<Rightarrow> u64" where
  "wasted_bytes p = sat_sub (cp_total_fetch_bytes p) (cp_total_input_bytes p)"

type_synonym indexed_range = "nat \<times> u64 \<times> u64"
type_synonym coalesce_state = "merged_fetch list \<times> slice_map list"

text \<open>One turn of the merge loop.\<close>

definition coalesce_step ::
  "u64 \<Rightarrow> u64 \<Rightarrow> coalesce_state \<Rightarrow> indexed_range \<Rightarrow> coalesce_state" where
  "coalesce_step gap max_bytes = (\<lambda>(fetches, slices) (orig_idx, off, len).
     let last_idx = length fetches - 1;
         cur_offset = mf_offset (fetches ! last_idx);
         cur_len = mf_len (fetches ! last_idx);
         cur_end = cur_offset + cur_len;
         candidate_end = max cur_end (off + len);
         candidate_len = candidate_end - cur_offset;
         within_gap = (off \<le> sat_add cur_end gap);
         effective_cap = max max_bytes cur_len;
         within_cap = (candidate_len \<le> effective_cap)
     in if within_gap \<and> within_cap
        then (fetches[last_idx := (fetches ! last_idx)\<lparr>mf_len := candidate_len\<rparr>],
              slices[orig_idx := \<lparr>sm_fetch_index = last_idx,
                                  sm_offset_in_fetch = off - cur_offset, sm_len = len\<rparr>])
        else (fetches @ [\<lparr>mf_offset = off, mf_len = len\<rparr>],
              slices[orig_idx := \<lparr>sm_fetch_index = length fetches,
                                  sm_offset_in_fetch = 0, sm_len = len\<rparr>]))"

definition empty_slice :: slice_map where
  "empty_slice = \<lparr>sm_fetch_index = NO_FETCH, sm_offset_in_fetch = 0, sm_len = 0\<rparr>"

text \<open>The ranges of positive length with their positions, stably sorted by offset.\<close>

definition sorted_ranges :: "(u64 \<times> u64) list \<Rightarrow> indexed_range list" where
  "sorted_ranges ranges =
     sort_key (\<lambda>(_, off, _). off)
       (filter (\<lambda>(_, _, l). 0 < l) (enumerate 0 ranges))"

definition clear_empty :: "(u64 \<times> u64) list \<Rightarrow> slice_map list \<Rightarrow> slice_map list" where
  "clear_empty ranges slices =
     map (\<lambda>(s, (_, l)). if l = 0 then s\<lparr>sm_len := 0\<rparr> else s) (zip slices ranges)"

definition coalesce_plan_of :: "(u64 \<times> u64) list \<Rightarrow> u64 \<Rightarrow> u64 \<Rightarrow> coalesce_plan" where
  "coalesce_plan_of ranges gap max_bytes0 =
     (let max_bytes = max max_bytes0 1;
          slices = replicate (length ranges) empty_slice;
          total_input_bytes = sum_list (map snd ranges)
      in case sorted_ranges ranges of
           [] \<Rightarrow> \<lparr>cp_fetches = [],
                  cp_slices = map (\<lambda>(s, (_, l)). s\<lparr>sm_len := l\<rparr>) (zip slices ranges),
                  cp_total_input_bytes = total_input_bytes, cp_total_fetch_bytes = 0\<rparr>
         | (first_idx, first_off, first_len) # rest \<Rightarrow>
             let st = ([\<lparr>mf_offset = first_off, mf_len = first_len\<rparr>],
                       slices[first_idx := \<lparr>sm_fetch_index = 0, sm_offset_in_fetch = 0,
                                            sm_len = first_len\<rparr>]);
                 (fetches, slices) = foldl (coalesce_step gap max_bytes) st rest
             in \<lparr>cp_fetches = fetches, cp_slices = clear_empty ranges slices,
                 cp_total_input_bytes = total_input_bytes,
                 cp_total_fetch_bytes = sum_list (map mf_len fetches)\<rparr>)"

section \<open>The sorted input\<close>

definition fits :: "u64 \<Rightarrow> u64 \<Rightarrow> bool" where
  "fits off len \<longleftrightarrow> unat off + unat len < 2 ^ 64"

lemma set_sorted_ranges:
  "(i, off, len) \<in> set (sorted_ranges ranges)
   \<longleftrightarrow> i < length ranges \<and> ranges ! i = (off, len) \<and> 0 < len"
  by (force simp: sorted_ranges_def in_set_enumerate_eq)

lemma length_sorted_ranges: "length (sorted_ranges ranges) \<le> length ranges"
  using length_filter_le [of _ "enumerate 0 ranges"] by (simp add: sorted_ranges_def)

lemma sorted_sorted_ranges: "sorted (map (\<lambda>(_, off, _). off) (sorted_ranges ranges))"
  by (simp add: sorted_ranges_def)

lemma distinct_map_filterI: "distinct (map f xs) \<Longrightarrow> distinct (map f (filter P xs))"
  by (induction xs) auto

lemma distinct_sorted_ranges: "distinct (map fst (sorted_ranges ranges))"
proof -
  let ?xs = "filter (\<lambda>(_, _, l). 0 < l) (enumerate 0 ranges)"
  have "distinct (map fst ?xs)"
    by (intro distinct_map_filterI) simp
  then show ?thesis
    by (simp add: sorted_ranges_def distinct_map)
qed

section \<open>What the merge loop keeps\<close>

text \<open>Input range \<open>(i, off, len)\<close> is served by the slice at its position.\<close>

definition serves :: "coalesce_state \<Rightarrow> indexed_range \<Rightarrow> bool" where
  "serves = (\<lambda>(fetches, slices) (i, off, len).
     i < length slices \<and> sm_len (slices ! i) = len
     \<and> sm_fetch_index (slices ! i) < length fetches
     \<and> (let f = fetches ! sm_fetch_index (slices ! i); d = sm_offset_in_fetch (slices ! i)
        in unat (mf_offset f) + unat d = unat off \<and> unat d + unat len \<le> unat (mf_len f)))"

lemma serves_grow:
  assumes "serves (fs @ [f], slices) r" and "fst r \<noteq> i"
    and "mf_offset f' = mf_offset f" and "unat (mf_len f) \<le> unat (mf_len f')"
  shows "serves (fs @ [f'], slices[i := x]) r"
  using assms by (auto simp: serves_def nth_append Let_def split: if_splits prod.splits)

lemma serves_push:
  assumes "serves (fs, slices) r" and "fst r \<noteq> i"
  shows "serves (fs @ [g], slices[i := x]) r"
  using assms by (auto simp: serves_def nth_append Let_def split: prod.splits)

definition last_fetch :: "coalesce_state \<Rightarrow> merged_fetch" where
  "last_fetch st = last (fst st)"

text \<open>
  The merge test accepts a range that starts at or after the current fetch only together
  with bounds that keep the merged fetch inside the address space.
\<close>

lemma coalesce_step_cases [consumes 5, case_names merge new]:
  assumes "fetches \<noteq> []" and "f = last fetches" and "mf_offset f \<le> off"
    and "fits (mf_offset f) (mf_len f)" and "fits off len"
  obtains
    (merge) n where
      "coalesce_step gap max_bytes (fetches, slices) (i, off, len) =
         (butlast fetches @ [f\<lparr>mf_len := n\<rparr>],
          slices[i := \<lparr>sm_fetch_index = length fetches - 1,
                       sm_offset_in_fetch = off - mf_offset f, sm_len = len\<rparr>])"
      "unat n = max (unat (mf_offset f) + unat (mf_len f)) (unat off + unat len)
                - unat (mf_offset f)"
      "unat off \<le> unat (mf_offset f) + unat (mf_len f) + unat gap"
      "n \<le> max max_bytes (mf_len f)"
  | (new) "coalesce_step gap max_bytes (fetches, slices) (i, off, len) =
         (fetches @ [\<lparr>mf_offset = off, mf_len = len\<rparr>],
          slices[i := \<lparr>sm_fetch_index = length fetches, sm_offset_in_fetch = 0,
                       sm_len = len\<rparr>])"
proof -
  define n where "n = max (mf_offset f + mf_len f) (off + len) - mf_offset f"
  have last: "fetches ! (length fetches - 1) = f"
    using assms(1,2) by (simp add: last_conv_nth)
  have upd: "fetches[length fetches - 1 := x] = butlast fetches @ [x]" for x
    using assms(1) by (metis append_butlast_last_id length_butlast list_update_length)
  have ends: "unat (mf_offset f + mf_len f) = unat (mf_offset f) + unat (mf_len f)"
      "unat (off + len) = unat off + unat len"
    using assms(4,5) by (simp_all add: fits_def unat_add_nowrap)
  have n: "unat n = max (unat (mf_offset f) + unat (mf_len f)) (unat off + unat len)
                    - unat (mf_offset f)"
    unfolding n_def by (subst unat_sub_le) (simp_all add: unat_max ends)
  show ?thesis
  proof (cases "off \<le> sat_add (mf_offset f + mf_len f) gap \<and> n \<le> max max_bytes (mf_len f)")
    case True
    then have "unat off \<le> unat (mf_offset f) + unat (mf_len f) + unat gap"
      by (simp add: word_le_nat_alt unat_sat_add ends)
    with True n show ?thesis
      by (intro merge [of n])
        (simp_all add: coalesce_step_def last Let_def upd flip: n_def One_nat_def)
  next
    case False
    then show ?thesis
      by (intro new) (auto simp: coalesce_step_def last Let_def simp flip: n_def One_nat_def)
  qed
qed

definition coalesce_inv :: "indexed_range list \<Rightarrow> coalesce_state \<Rightarrow> bool" where
  "coalesce_inv served st \<longleftrightarrow>
     fst st \<noteq> [] \<and> (\<forall>r \<in> set served. serves st r)
     \<and> (\<forall>f \<in> set (fst st). fits (mf_offset f) (mf_len f))
     \<and> sorted (map mf_offset (fst st))"

lemma coalesce_step_inv:
  assumes inv: "coalesce_inv served st"
    and "mf_offset (last_fetch st) \<le> off" and "fits off len"
    and "i < length (snd st)" and "i \<notin> fst ` set served"
  shows "coalesce_inv (served @ [(i, off, len)]) (coalesce_step gap max_bytes st (i, off, len))"
    and "length (snd (coalesce_step gap max_bytes st (i, off, len))) = length (snd st)"
    and "mf_offset (last_fetch (coalesce_step gap max_bytes st (i, off, len))) \<le> off"
proof -
  obtain fetches slices where st: "st = (fetches, slices)" by (cases st)
  define f where "f = last fetches"
  have ne: "fetches \<noteq> []" using inv by (simp add: coalesce_inv_def st)
  then obtain fs where fs: "fetches = fs @ [f]" using f_def by (metis append_butlast_last_id)
  have le: "mf_offset f \<le> off" using assms(2) by (simp add: last_fetch_def st f_def)
  have fit: "fits (mf_offset f) (mf_len f)" using inv by (simp add: coalesce_inv_def st fs)
  note served = inv [unfolded coalesce_inv_def st, simplified]
  have "coalesce_inv (served @ [(i, off, len)]) (coalesce_step gap max_bytes st (i, off, len))
    \<and> length (snd (coalesce_step gap max_bytes st (i, off, len))) = length (snd st)
    \<and> mf_offset (last_fetch (coalesce_step gap max_bytes st (i, off, len))) \<le> off"
    using ne f_def le fit assms(3)
  proof (cases rule: coalesce_step_cases
      [where gap = gap and max_bytes = max_bytes and slices = slices and i = i])
    case (merge n)
    let ?f = "f\<lparr>mf_len := n\<rparr>"
    have unat_le: "unat (mf_offset f) \<le> unat off" using le by (simp add: word_le_nat_alt)
    have fit': "fits (mf_offset ?f) (mf_len ?f)"
      using merge(2) fit assms(3) by (auto simp: fits_def)
    have step: "coalesce_step gap max_bytes st (i, off, len) =
        (fs @ [?f], slices[i := \<lparr>sm_fetch_index = length fs,
           sm_offset_in_fetch = off - mf_offset f, sm_len = len\<rparr>])"
      using merge(1) by (simp add: st fs)
    have "serves (fs @ [?f], slices[i := \<lparr>sm_fetch_index = length fs,
           sm_offset_in_fetch = off - mf_offset f, sm_len = len\<rparr>]) (i, off, len)"
      using assms(4) merge(2) unat_le by (auto simp: serves_def st unat_sub_le)
    moreover have "serves (fs @ [?f], slices[i := x]) r" if "r \<in> set served" for r x
      using that served assms(5) merge(2)
      by (intro serves_grow [of _ f]) (auto simp: fs st)
    ultimately show ?thesis
      using served fit' le unfolding step
      by (auto simp: coalesce_inv_def last_fetch_def fs st)
  next
    case new
    have "serves (coalesce_step gap max_bytes st (i, off, len)) (i, off, len)"
      using assms(4) unfolding st new by (simp add: serves_def)
    moreover have "serves (coalesce_step gap max_bytes st (i, off, len)) r" if "r \<in> set served" for r
      using that served assms(5) unfolding st new by (intro serves_push) auto
    ultimately show ?thesis
      using served le assms(3) unfolding st new
      by (auto simp: coalesce_inv_def last_fetch_def fs sorted_append intro: order_trans)
  qed
  then show "coalesce_inv (served @ [(i, off, len)]) (coalesce_step gap max_bytes st (i, off, len))"
    and "length (snd (coalesce_step gap max_bytes st (i, off, len))) = length (snd st)"
    and "mf_offset (last_fetch (coalesce_step gap max_bytes st (i, off, len))) \<le> off"
    by blast+
qed

text \<open>The bounds on what is fetched, kept beside the invariant.\<close>

definition fetch_total :: "merged_fetch list \<Rightarrow> nat" where
  "fetch_total fetches = sum_list (map (unat \<circ> mf_len) fetches)"

definition range_total :: "indexed_range list \<Rightarrow> nat" where
  "range_total rs = sum_list (map (\<lambda>(_, _, len). unat len) rs)"

definition coalesce_bounds :: "u64 \<Rightarrow> u64 \<Rightarrow> indexed_range list \<Rightarrow> coalesce_state \<Rightarrow> bool" where
  "coalesce_bounds gap max_bytes served st \<longleftrightarrow>
     served \<noteq> [] \<and> length (fst st) \<le> length served
     \<and> (\<forall>f \<in> set (fst st). mf_len f \<le> max_bytes \<or> (mf_offset f, mf_len f) \<in> snd ` set served)
     \<and> fetch_total (fst st) \<le> range_total served + (length served - 1) * unat gap"

lemma coalesce_step_bounds:
  assumes inv: "coalesce_inv served st" and bounds: "coalesce_bounds gap max_bytes served st"
    and "mf_offset (last_fetch st) \<le> off" and "fits off len"
  shows "coalesce_bounds gap max_bytes (served @ [(i, off, len)])
           (coalesce_step gap max_bytes st (i, off, len))"
proof -
  obtain fetches slices where st: "st = (fetches, slices)" by (cases st)
  define f where "f = last fetches"
  have ne: "fetches \<noteq> []" using inv by (simp add: coalesce_inv_def st)
  then obtain fs where fs: "fetches = fs @ [f]" using f_def by (metis append_butlast_last_id)
  have le: "mf_offset f \<le> off" using assms(3) by (simp add: last_fetch_def st f_def)
  have fit: "fits (mf_offset f) (mf_len f)" using inv by (simp add: coalesce_inv_def st fs)
  have gaps: "length served * unat gap = unat gap + (length served - 1) * unat gap"
    using bounds by (cases served) (simp_all add: coalesce_bounds_def)
  show ?thesis
    using ne f_def le fit assms(4)
  proof (cases rule: coalesce_step_cases
      [where gap = gap and max_bytes = max_bytes and slices = slices and i = i])
    case (merge n)
    have "n = mf_len f" if "\<not> n \<le> max_bytes"
    proof -
      have "n \<le> mf_len f" using that merge(4) by (auto simp: max_def split: if_splits)
      moreover have "mf_len f \<le> n" using merge(2) by (simp add: word_le_nat_alt)
      ultimately show ?thesis by simp
    qed
    moreover have "unat n \<le> unat (mf_len f) + unat gap + unat len"
      using merge(2,3) by linarith
    ultimately show ?thesis
      using bounds gaps unfolding st merge(1)
      by (auto simp: coalesce_bounds_def fs fetch_total_def range_total_def)
  next
    case new
    then show ?thesis
      using bounds gaps unfolding st new
      by (auto simp: coalesce_bounds_def fetch_total_def range_total_def)
  qed
qed

lemma coalesce_loop:
  assumes "coalesce_inv served st" and "coalesce_bounds gap max_bytes served st"
    and "\<forall>(i, off, len) \<in> set rest. mf_offset (last_fetch st) \<le> off \<and> fits off len
           \<and> i < length (snd st)"
    and "sorted (map (\<lambda>(_, off, _). off) rest)" and "distinct (map fst (served @ rest))"
  shows "coalesce_inv (served @ rest) (foldl (coalesce_step gap max_bytes) st rest)
    \<and> coalesce_bounds gap max_bytes (served @ rest) (foldl (coalesce_step gap max_bytes) st rest)
    \<and> length (snd (foldl (coalesce_step gap max_bytes) st rest)) = length (snd st)"
  using assms
proof (induction rest arbitrary: served st)
  case Nil
  then show ?case by simp
next
  case (Cons r rest)
  obtain i off len where r: "r = (i, off, len)" by (cases r)
  let ?st = "coalesce_step gap max_bytes st r"
  have pre: "mf_offset (last_fetch st) \<le> off" "fits off len" "i < length (snd st)"
      "i \<notin> fst ` set served"
    using Cons.prems(3,5) by (auto simp: r)
  note step = coalesce_step_inv [OF Cons.prems(1) pre, of gap max_bytes, folded r]
  have next_ok: "\<forall>(j, off', len') \<in> set rest. mf_offset (last_fetch ?st) \<le> off' \<and> fits off' len'
           \<and> j < length (snd ?st)"
    using Cons.prems(3,4) step(2,3) by (fastforce simp: r)
  have "coalesce_bounds gap max_bytes (served @ [r]) ?st"
    using coalesce_step_bounds [OF Cons.prems(1,2) pre(1,2)] by (simp add: r)
  from Cons.IH [OF step(1) this next_ok] Cons.prems(4,5) step(2) show ?case
    by simp
qed

lemma coalesce_step_frame:
  "j \<noteq> fst r \<Longrightarrow> snd (coalesce_step gap max_bytes st r) ! j = snd st ! j"
  by (auto simp: coalesce_step_def Let_def split: prod.splits)

lemma coalesce_loop_frame:
  "j \<notin> fst ` set rest \<Longrightarrow> snd (foldl (coalesce_step gap max_bytes) st rest) ! j = snd st ! j"
  by (induction rest arbitrary: st) (auto simp: coalesce_step_frame)

section \<open>The finished plan\<close>

lemma clear_empty_nth:
  assumes "length slices = length ranges" and "i < length ranges"
  shows "clear_empty ranges slices ! i =
    (if snd (ranges ! i) = 0 then (slices ! i)\<lparr>sm_len := 0\<rparr> else slices ! i)"
  using assms by (simp add: clear_empty_def split: prod.splits)

text \<open>
  The state the plan is read off: the invariant and the bounds hold for all ranges of
  positive length, and the slices of empty ranges are untouched.
\<close>

lemma coalesce_plan_state:
  assumes fit: "\<forall>(off, len) \<in> set ranges. fits off len"
    and ne: "sorted_ranges ranges \<noteq> []"
  obtains st where
    "cp_fetches (coalesce_plan_of ranges gap max_bytes) = fst st"
    "cp_slices (coalesce_plan_of ranges gap max_bytes) = clear_empty ranges (snd st)"
    "length (snd st) = length ranges"
    "coalesce_inv (sorted_ranges ranges) st"
    "coalesce_bounds gap (max max_bytes 1) (sorted_ranges ranges) st"
    "\<And>i. i < length ranges \<Longrightarrow> snd (ranges ! i) = 0 \<Longrightarrow> snd st ! i = empty_slice"
proof -
  obtain i0 off0 len0 rest where sr: "sorted_ranges ranges = (i0, off0, len0) # rest"
    using ne by (metis list.exhaust surj_pair)
  define st0 where "st0 = ([\<lparr>mf_offset = off0, mf_len = len0\<rparr>],
      (replicate (length ranges) empty_slice)[i0 := \<lparr>sm_fetch_index = 0,
         sm_offset_in_fetch = 0, sm_len = len0\<rparr>])"
  define st where "st = foldl (coalesce_step gap (max max_bytes 1)) st0 rest"
  have mem: "i < length ranges \<and> ranges ! i = (off, len) \<and> fits off len"
    if "(i, off, len) \<in> set (sorted_ranges ranges)" for i off len
    using that fit nth_mem by (fastforce simp: set_sorted_ranges)
  have first: "i0 < length ranges" "fits off0 len0"
    using mem [of i0 off0 len0] by (simp_all add: sr)
  have "coalesce_inv [(i0, off0, len0)] st0"
    using first by (simp add: coalesce_inv_def serves_def st0_def)
  moreover have "coalesce_bounds gap (max max_bytes 1) [(i0, off0, len0)] st0"
    by (simp add: coalesce_bounds_def st0_def fetch_total_def range_total_def)
  moreover have "\<forall>(i, off, len) \<in> set rest. mf_offset (last_fetch st0) \<le> off \<and> fits off len
      \<and> i < length (snd st0)"
    using mem sorted_sorted_ranges [of ranges]
    by (fastforce simp: sr st0_def last_fetch_def)
  ultimately have loop:
    "coalesce_inv (sorted_ranges ranges) st"
    "coalesce_bounds gap (max max_bytes 1) (sorted_ranges ranges) st"
    "length (snd st) = length (snd st0)"
    using coalesce_loop [of "[(i0, off0, len0)]" st0 gap "max max_bytes 1" rest]
      sorted_sorted_ranges [of ranges] distinct_sorted_ranges [of ranges]
    by (simp_all add: sr st_def)
  have "coalesce_plan_of ranges gap max_bytes =
      \<lparr>cp_fetches = fst st, cp_slices = clear_empty ranges (snd st),
       cp_total_input_bytes = sum_list (map snd ranges),
       cp_total_fetch_bytes = sum_list (map mf_len (fst st))\<rparr>"
    by (simp add: coalesce_plan_of_def sr Let_def flip: st0_def)
      (simp add: st_def [symmetric] split_def)
  moreover have "snd st ! i = empty_slice" if "i < length ranges" "snd (ranges ! i) = 0" for i
  proof -
    have "i \<notin> fst ` set (sorted_ranges ranges)"
      using that by (auto simp: set_sorted_ranges)
    then show ?thesis
      using that(1) by (auto simp: st_def coalesce_loop_frame sr st0_def)
  qed
  ultimately show ?thesis
    using that [of st] loop by (simp add: st0_def)
qed

text \<open>What the caller hands out for a slice, given the bytes of the merged fetches.\<close>

definition slice_output :: "coalesce_plan \<Rightarrow> 'a list \<Rightarrow> slice_map \<Rightarrow> 'a list" where
  "slice_output p data s =
     (if sm_fetch_index s = NO_FETCH then []
      else let f = cp_fetches p ! sm_fetch_index s
           in seg (unat (sm_offset_in_fetch s)) (unat (sm_len s))
                (seg (unat (mf_offset f)) (unat (mf_len f)) data))"

lemma sorted_ranges_empty:
  assumes "sorted_ranges ranges = []" and "i < length ranges"
  shows "snd (ranges ! i) = 0"
proof (rule ccontr)
  assume "snd (ranges ! i) \<noteq> 0"
  then have "(i, ranges ! i) \<in> set (sorted_ranges ranges)"
    using assms(2) by (cases "ranges ! i") (simp add: set_sorted_ranges word_gt_0)
  then show False using assms(1) by simp
qed

lemma coalesce_plan_empty:
  assumes "sorted_ranges ranges = []"
  shows "cp_fetches (coalesce_plan_of ranges gap max_bytes) = []"
    and "length (cp_slices (coalesce_plan_of ranges gap max_bytes)) = length ranges"
    and "i < length ranges \<Longrightarrow> cp_slices (coalesce_plan_of ranges gap max_bytes) ! i = empty_slice"
  using assms sorted_ranges_empty [OF assms, of i]
  by (auto simp: coalesce_plan_of_def Let_def empty_slice_def split: prod.splits)

text \<open>Where the slice of an input range lies.\<close>

lemma coalesce_slice_at:
  fixes ranges gap max_bytes
  defines "p \<equiv> coalesce_plan_of ranges gap max_bytes"
  assumes "\<forall>(off, len) \<in> set ranges. fits off len" "i < length ranges" "ranges ! i = (off, len)"
  shows "length (cp_slices p) = length ranges" and "length (cp_fetches p) \<le> length ranges"
    and "len = 0 \<Longrightarrow> cp_slices p ! i = empty_slice"
    and "len \<noteq> 0 \<Longrightarrow> sm_fetch_index (cp_slices p ! i) < length (cp_fetches p)"
    and "len \<noteq> 0 \<Longrightarrow> sm_len (cp_slices p ! i) = len"
    and "len \<noteq> 0 \<Longrightarrow> unat (mf_offset (cp_fetches p ! sm_fetch_index (cp_slices p ! i)))
           + unat (sm_offset_in_fetch (cp_slices p ! i)) = unat off"
    and "len \<noteq> 0 \<Longrightarrow> unat (sm_offset_in_fetch (cp_slices p ! i)) + unat len
           \<le> unat (mf_len (cp_fetches p ! sm_fetch_index (cp_slices p ! i)))"
proof -
  have "length (cp_slices p) = length ranges \<and> length (cp_fetches p) \<le> length ranges
    \<and> (len = 0 \<longrightarrow> cp_slices p ! i = empty_slice)
    \<and> (len \<noteq> 0 \<longrightarrow> serves (cp_fetches p, cp_slices p) (i, off, len))"
  proof (cases "sorted_ranges ranges = []")
    case True
    then show ?thesis
      using coalesce_plan_empty [OF True, where gap = gap and max_bytes = max_bytes] assms(3,4)
        sorted_ranges_empty [OF True assms(3)]
      by (simp add: p_def)
  next
    case False
    obtain st where st: "cp_fetches p = fst st" "cp_slices p = clear_empty ranges (snd st)"
        "length (snd st) = length ranges" "coalesce_inv (sorted_ranges ranges) st"
        "coalesce_bounds gap (max max_bytes 1) (sorted_ranges ranges) st"
        "\<And>i. i < length ranges \<Longrightarrow> snd (ranges ! i) = 0 \<Longrightarrow> snd st ! i = empty_slice"
      using coalesce_plan_state [OF assms(2) False, of gap max_bytes] unfolding p_def by blast
    have "length (fst st) \<le> length ranges"
      using st(5) length_sorted_ranges [of ranges] by (simp add: coalesce_bounds_def)
    moreover have slice: "cp_slices p ! i = (if len = 0 then empty_slice else snd st ! i)"
      using assms(3,4) st(3,6) by (simp add: st(2) clear_empty_nth empty_slice_def)
    moreover have "serves st (i, off, len)" if "len \<noteq> 0"
      using that st(4) assms(3,4) by (simp add: coalesce_inv_def set_sorted_ranges word_gt_0)
    moreover have "length (cp_slices p) = length ranges" using st(3) by (simp add: st(2) clear_empty_def)
    ultimately show ?thesis
      using assms(3) by (auto simp: st(1) serves_def Let_def split: prod.splits)
  qed
  then show "length (cp_slices p) = length ranges" and "length (cp_fetches p) \<le> length ranges"
    and "len = 0 \<Longrightarrow> cp_slices p ! i = empty_slice"
    and "len \<noteq> 0 \<Longrightarrow> sm_fetch_index (cp_slices p ! i) < length (cp_fetches p)"
    and "len \<noteq> 0 \<Longrightarrow> sm_len (cp_slices p ! i) = len"
    and "len \<noteq> 0 \<Longrightarrow> unat (mf_offset (cp_fetches p ! sm_fetch_index (cp_slices p ! i)))
           + unat (sm_offset_in_fetch (cp_slices p ! i)) = unat off"
    and "len \<noteq> 0 \<Longrightarrow> unat (sm_offset_in_fetch (cp_slices p ! i)) + unat len
           \<le> unat (mf_len (cp_fetches p ! sm_fetch_index (cp_slices p ! i)))"
    by (auto simp: serves_def Let_def)
qed

lemma coalesce_slices_length:
  assumes "\<forall>(off, len) \<in> set ranges. fits off len"
  shows "length (cp_slices (coalesce_plan_of ranges gap max_bytes)) = length ranges"
proof (cases ranges)
  case Nil
  then show ?thesis by (simp add: coalesce_plan_of_def sorted_ranges_def Let_def)
next
  case (Cons r rs)
  obtain off len where "ranges ! 0 = (off, len)" by fastforce
  from coalesce_slice_at(1) [OF assms _ this] Cons show ?thesis by simp
qed

text \<open>Every slice, cut from the bytes of its fetch, is the input range.\<close>

lemma slice_bytes:
  assumes "\<forall>(off, len) \<in> set ranges. fits off len" "length ranges < NO_FETCH"
    and "i < length ranges" "ranges ! i = (off, len)"
  shows "slice_output (coalesce_plan_of ranges gap max_bytes) data (cp_slices (coalesce_plan_of ranges gap max_bytes) ! i)
    = seg (unat off) (unat len) data"
proof (cases "len = 0")
  case True
  then show ?thesis using coalesce_slice_at(3) [OF assms(1,3,4)] by (simp add: empty_slice_def slice_output_def)
next
  case False
  note at = coalesce_slice_at(2,4-7) [OF assms(1,3,4), where gap = gap and max_bytes = max_bytes]
  show ?thesis
    using at(1) at(2-5) [OF False] assms(2) by (simp add: slice_output_def Let_def seg_seg)
qed

text \<open>
  (C5) Coalescing loses no byte: for ranges that end below \<open>2 ^ 64\<close>, any gap and any cap, the
  plan has one slice per input range in input order, and the bytes a slice takes from its
  merged fetch are exactly the bytes of the file in that input range (none for an empty range).
\<close>

theorem coalesce_slices_recover:
  assumes "\<forall>(off, len) \<in> set ranges. fits off len" and "length ranges < NO_FETCH"
  shows "map (slice_output (coalesce_plan_of ranges gap max_bytes) data)
           (cp_slices (coalesce_plan_of ranges gap max_bytes))
         = map (\<lambda>(off, len). seg (unat off) (unat len) data) ranges"
proof (rule nth_equalityI)
  let ?p = "coalesce_plan_of ranges gap max_bytes"
  show len: "length (map (slice_output ?p data) (cp_slices ?p)) =
      length (map (\<lambda>(off, len). seg (unat off) (unat len) data) ranges)"
    using coalesce_slices_length [OF assms(1)] by simp
  fix i assume "i < length (map (slice_output ?p data) (cp_slices ?p))"
  then have i: "i < length ranges" using len by simp
  obtain off len where r: "ranges ! i = (off, len)" by fastforce
  show "map (slice_output ?p data) (cp_slices ?p) ! i
      = map (\<lambda>(off, len). seg (unat off) (unat len) data) ranges ! i"
    using slice_bytes [OF assms i r, of gap max_bytes data] i r coalesce_slices_length [OF assms(1), of gap max_bytes]
    by simp
qed

theorem coalesce_slices_recover_witness:
  "map (slice_output (coalesce_plan_of [(2, 3), (9, 0), (0, 4)] 1 100) [0, 1, 2, 3, 4, 5, 6 :: nat])
     (cp_slices (coalesce_plan_of [(2, 3), (9, 0), (0, 4)] 1 100))
   = [[2, 3, 4], [], [0, 1, 2, 3]]"
  using coalesce_slices_recover [of "[(2, 3), (9, 0), (0, 4)]" 1 100 "[0, 1, 2, 3, 4, 5, 6 :: nat]"]
  by (simp add: fits_def NO_FETCH_def seg_def)

lemma range_total_sorted_ranges:
  "range_total (sorted_ranges ranges) \<le> sum_list (map (unat \<circ> snd) ranges)"
proof -
  let ?w = "\<lambda>(_ :: nat, _ :: u64, len :: u64). unat len"
  let ?xs = "filter (\<lambda>(_, _, l). 0 < l) (enumerate 0 ranges)"
  have "range_total (sorted_ranges ranges) = sum_list (map ?w ?xs)"
    by (simp add: range_total_def sorted_ranges_def mset_map flip: sum_mset_sum_list)
  also have "\<dots> \<le> sum_list (map ?w (enumerate 0 ranges))"
    by (rule sum_list_filter_le_nat)
  also have "map ?w (enumerate 0 ranges) = map (unat \<circ> snd) (map snd (enumerate 0 ranges))"
    unfolding map_map by (rule map_cong) auto
  finally show ?thesis by (simp only: map_snd_enumerate)
qed

text \<open>
  What coalescing may cost: the merged fetches are in ascending offset order and no more
  than the input ranges, each of them stays within the cap unless it is one input range taken
  alone, and together they fetch at most one gap per merge beyond the bytes asked for.
\<close>

theorem coalesce_fetch_bounds:
  assumes "\<forall>(off, len) \<in> set ranges. fits off len"
  shows "sorted (map mf_offset (cp_fetches (coalesce_plan_of ranges gap max_bytes)))
    \<and> length (cp_fetches (coalesce_plan_of ranges gap max_bytes)) \<le> length ranges
    \<and> (\<forall>f \<in> set (cp_fetches (coalesce_plan_of ranges gap max_bytes)).
         mf_len f \<le> max max_bytes 1 \<or> (mf_offset f, mf_len f) \<in> set ranges)
    \<and> fetch_total (cp_fetches (coalesce_plan_of ranges gap max_bytes))
        \<le> sum_list (map (unat \<circ> snd) ranges) + (length ranges - 1) * unat gap"
proof (cases "sorted_ranges ranges = []")
  case True
  then show ?thesis
    by (simp add: coalesce_plan_empty(1) fetch_total_def)
next
  case False
  let ?p = "coalesce_plan_of ranges gap max_bytes"
  obtain st where st: "cp_fetches ?p = fst st" "coalesce_inv (sorted_ranges ranges) st"
      "coalesce_bounds gap (max max_bytes 1) (sorted_ranges ranges) st"
    using coalesce_plan_state [OF assms False, of gap max_bytes] by blast
  have sub: "snd ` set (sorted_ranges ranges) \<subseteq> set ranges"
    using nth_mem by (fastforce simp: set_sorted_ranges)
  have gaps: "(length (sorted_ranges ranges) - 1) * unat gap \<le> (length ranges - 1) * unat gap"
    using length_sorted_ranges [of ranges] by (intro mult_le_mono1 diff_le_mono)
  have order: "sorted (map mf_offset (fst st))"
    using st(2) unfolding coalesce_inv_def by blast
  have few: "length (fst st) \<le> length (sorted_ranges ranges)"
    and cap: "\<forall>f \<in> set (fst st). mf_len f \<le> max max_bytes 1
           \<or> (mf_offset f, mf_len f) \<in> snd ` set (sorted_ranges ranges)"
    and total: "fetch_total (fst st)
           \<le> range_total (sorted_ranges ranges) + (length (sorted_ranges ranges) - 1) * unat gap"
    using st(3) unfolding coalesce_bounds_def by blast+
  have "fetch_total (fst st)
      \<le> sum_list (map (unat \<circ> snd) ranges) + (length ranges - 1) * unat gap"
    by (rule le_trans [OF total add_mono [OF range_total_sorted_ranges gaps]])
  moreover have "length (fst st) \<le> length ranges"
    using few length_sorted_ranges [of ranges] by (rule le_trans)
  ultimately show ?thesis
    unfolding st(1) using order cap sub by blast
qed

theorem coalesce_fetch_bounds_witness:
  "fetch_total (cp_fetches (coalesce_plan_of [(8, 4), (0, 4)] 4 100)) \<le> 4 + 4 + 4
   \<and> length (cp_fetches (coalesce_plan_of [(8, 4), (0, 4)] 4 100)) \<le> 2"
  using coalesce_fetch_bounds [of "[(8, 4), (0, 4)]" 4 100] by (simp add: fits_def)

text \<open>
  Overlapping ranges share their bytes: the fetch total can fall below the input total, and
  the waste the plan then reports is zero.
\<close>

lemma coalesce_overlap_shrinks:
  "cp_total_input_bytes (coalesce_plan_of [(0, 10), (0, 10)] 0 100) = 20
   \<and> cp_total_fetch_bytes (coalesce_plan_of [(0, 10), (0, 10)] 0 100) = 10
   \<and> wasted_bytes (coalesce_plan_of [(0, 10), (0, 10)] 0 100) = 0"
  by (simp add: coalesce_plan_of_def sorted_ranges_def coalesce_step_def clear_empty_def
      wasted_bytes_def sat_sub_def sat_add_def empty_slice_def)

end
