(* ===== verification/Client_Error.thy ===== *)
theory Client_Error
  imports Goose_Prelude
begin

text \<open>
  The client's error type (\<^verbatim>\<open>src/src/error.rs\<close>): one constructor per variant of the
  source's \<open>Error\<close>, the conversion from a gRPC status, and the predicates the retry
  and routing code branches on.  A \<open>tonic::Status\<close> is its code and its message; the
  text \<open>tonic\<close> prints for a code is a parameter of the conversion.
\<close>

datatype grpc_code =
    OkCode | Cancelled | Unknown | InvalidArgument | DeadlineExceeded | NotFound | AlreadyExists
  | PermissionDenied | ResourceExhausted | FailedPrecondition | Aborted | OutOfRange
  | Unimplemented | Internal | Unavailable | DataLoss | Unauthenticated

record grpc_status =
  st_code :: grpc_code
  st_message :: string

datatype client_error =
    EGrpc string grpc_status
  | ETransport string
  | ENotFound string
  | EAlreadyExists string
  | EPermissionDenied string
  | EInvalidArgument string
  | EMissingField string
  | EBlockIo string
  | ENoWorkerAvailable string
  | EResourceExhausted string
  | EMasterUnavailable string
  | EConfig string
  | EInternal string
  | EFileIncomplete string
  | EDirectoryNotEmpty string
  | EOpenDirectory string
  | EInvalidPath string
  | EAuthenticationFailed string

type_synonym 'a result = "client_error + 'a"

text \<open>\<open>str::contains\<close>.\<close>

fun starts_with :: "'a list \<Rightarrow> 'a list \<Rightarrow> bool" where
  "starts_with [] ys = True"
| "starts_with (x # xs) [] = False"
| "starts_with (x # xs) (y # ys) = (x = y \<and> starts_with xs ys)"

fun str_contains :: "'a list \<Rightarrow> 'a list \<Rightarrow> bool" where
  "str_contains pat [] = (pat = [])"
| "str_contains pat (c # cs) = (starts_with pat (c # cs) \<or> str_contains pat cs)"

definition error_from_status :: "(grpc_code \<Rightarrow> string) \<Rightarrow> grpc_status \<Rightarrow> client_error" where
  "error_from_status code_text status =
     (let msg = st_message status;
          grpc = EGrpc (''['' @ code_text (st_code status) @ ''] '' @ msg) status
      in case st_code status of
           NotFound \<Rightarrow> ENotFound msg
         | AlreadyExists \<Rightarrow> EAlreadyExists msg
         | PermissionDenied \<Rightarrow> EPermissionDenied msg
         | InvalidArgument \<Rightarrow> EInvalidArgument msg
         | Unauthenticated \<Rightarrow> EAuthenticationFailed msg
         | FailedPrecondition \<Rightarrow>
             if str_contains ''is not empty'' msg then EDirectoryNotEmpty msg
             else if str_contains ''is incomplete'' msg then EFileIncomplete msg
             else if str_contains ''Is a directory'' msg then EOpenDirectory msg
             else grpc
         | _ \<Rightarrow> grpc)"

fun is_retriable :: "client_error \<Rightarrow> bool" where
  "is_retriable (EGrpc _ st) = (st_code st \<in> {Unavailable, DeadlineExceeded, Aborted})"
| "is_retriable (ETransport _) = True"
| "is_retriable (EAuthenticationFailed _) = True"
| "is_retriable _ = False"

fun is_not_found :: "client_error \<Rightarrow> bool" where
  "is_not_found (ENotFound _) = True"
| "is_not_found _ = False"

fun is_already_exists :: "client_error \<Rightarrow> bool" where
  "is_already_exists (EAlreadyExists _) = True"
| "is_already_exists _ = False"

fun is_file_incomplete :: "client_error \<Rightarrow> bool" where
  "is_file_incomplete (EFileIncomplete _) = True"
| "is_file_incomplete _ = False"

fun is_directory_not_empty :: "client_error \<Rightarrow> bool" where
  "is_directory_not_empty (EDirectoryNotEmpty _) = True"
| "is_directory_not_empty _ = False"

fun is_authentication_failed :: "client_error \<Rightarrow> bool" where
  "is_authentication_failed (EAuthenticationFailed _) = True"
| "is_authentication_failed _ = False"

fun is_unavailable :: "client_error \<Rightarrow> bool" where
  "is_unavailable (EGrpc _ st) = (st_code st = Unavailable)"
| "is_unavailable (ETransport _) = True"
| "is_unavailable _ = False"

definition is_authentication_error :: "client_error \<Rightarrow> bool" where
  "is_authentication_error e = is_authentication_failed e"

fun is_access_denied :: "client_error \<Rightarrow> bool" where
  "is_access_denied (EPermissionDenied _) = True"
| "is_access_denied (EAuthenticationFailed _) = True"
| "is_access_denied _ = False"

section \<open>Which server answers are retried\<close>

lemma starts_with_iff: "starts_with pat ys \<longleftrightarrow> (\<exists>zs. ys = pat @ zs)"
  by (induction pat ys rule: starts_with.induct) auto

lemma str_contains_iff: "str_contains pat s \<longleftrightarrow> (\<exists>us vs. s = us @ pat @ vs)"
proof (induction s)
  case Nil
  then show ?case by auto
next
  case (Cons c cs)
  show ?case (is "?L \<longleftrightarrow> ?R")
  proof
    assume ?L
    then consider (here) "starts_with pat (c # cs)" | (later) "str_contains pat cs" by auto
    then show ?R
    proof cases
      case here
      then obtain zs where "c # cs = [] @ pat @ zs" by (auto simp: starts_with_iff)
      then show ?thesis by blast
    next
      case later
      then obtain us vs where "c # cs = (c # us) @ pat @ vs" using Cons.IH by auto
      then show ?thesis by blast
    qed
  next
    assume ?R
    then obtain us vs where *: "c # cs = us @ pat @ vs" by blast
    show ?L
    proof (cases us)
      case Nil
      with * have "starts_with pat (c # cs)" by (auto simp: starts_with_iff)
      then show ?thesis by simp
    next
      case (Cons u us')
      with * have "cs = us' @ pat @ vs" by simp
      then show ?thesis using Cons.IH by auto
    qed
  qed
qed

text \<open>
  How a server's answer is classified: it is retried exactly for the four transient codes
  and for rejected credentials; only \<open>UNAVAILABLE\<close> makes the worker count as unreachable, so
  that rejected credentials never do; and a \<open>FAILED_PRECONDITION\<close> is told apart by the text
  its message contains, "is not empty" before "is incomplete".
\<close>

theorem status_classification:
  "let e = error_from_status code_text status in
    (is_retriable e \<longleftrightarrow>
            st_code status \<in> {Unavailable, DeadlineExceeded, Aborted, Unauthenticated})
    \<and> (is_unavailable e \<longleftrightarrow> st_code status = Unavailable)
    \<and> (is_authentication_error e \<longleftrightarrow> st_code status = Unauthenticated)
    \<and> (is_access_denied e \<longleftrightarrow> st_code status \<in> {PermissionDenied, Unauthenticated})
    \<and> (is_not_found e \<longleftrightarrow> st_code status = NotFound)
    \<and> (is_already_exists e \<longleftrightarrow> st_code status = AlreadyExists)
    \<and> (is_directory_not_empty e \<longleftrightarrow> st_code status = FailedPrecondition
           \<and> (\<exists>us vs. st_message status = us @ ''is not empty'' @ vs))
    \<and> (is_file_incomplete e \<longleftrightarrow> st_code status = FailedPrecondition
           \<and> (\<exists>us vs. st_message status = us @ ''is incomplete'' @ vs)
           \<and> (\<nexists>us vs. st_message status = us @ ''is not empty'' @ vs))"
  unfolding error_from_status_def Let_def is_authentication_error_def str_contains_iff [symmetric]
  by (cases "st_code status") simp_all

end
