(* ===== verification/Retry_Policy.thy ===== *)
theory Retry_Policy
  imports Goose_Prelude
begin

text \<open>
  The retry policies (\<^verbatim>\<open>src/src/retry.rs\<close>): exponential backoff bounded by total time and by a
  number of attempts.  A \<open>Duration\<close> and a reading of the clock are nanoseconds, a duration at
  most \<open>Duration::MAX\<close>; attempt counters are \<open>u32\<close> words.  The clock is an argument of the
  time-bounded policy, and the random jitter \<open>base.mul_f64(fraction)\<close> an argument of
  \<open>add_jitter\<close>.
\<close>

section \<open>Durations\<close>

type_synonym duration = nat
type_synonym instant = nat

definition duration_max :: duration where
  "duration_max = 2 ^ 64 * 1000000000 - 1"

definition saturating_mul :: "duration \<Rightarrow> nat \<Rightarrow> duration" where
  "saturating_mul d n = min (d * n) duration_max"

text \<open>\<open>base + jitter\<close> panics beyond \<open>Duration::MAX\<close>: no value.\<close>

definition add_jitter :: "duration \<Rightarrow> duration \<Rightarrow> duration option" where
  "add_jitter jitter base = (if base + jitter \<le> duration_max then Some (base + jitter) else None)"

section \<open>The two policies\<close>

record time_bounded_retry =
  tb_max_duration :: duration
  tb_max_sleep :: duration
  tb_start :: instant
  tb_attempts :: u32
  tb_current_sleep :: duration

definition time_bounded_new ::
  "instant \<Rightarrow> duration \<Rightarrow> duration \<Rightarrow> duration \<Rightarrow> time_bounded_retry" where
  "time_bounded_new now max_duration initial_sleep max_sleep =
     \<lparr>tb_max_duration = max_duration, tb_max_sleep = max_sleep, tb_start = now,
      tb_attempts = 0, tb_current_sleep = initial_sleep\<rparr>"

definition time_bounded_with_defaults :: "instant \<Rightarrow> time_bounded_retry" where
  "time_bounded_with_defaults now =
     time_bounded_new now (120 * 1000000000) (50 * 1000000) (3 * 1000000000)"

definition time_bounded_should_retry ::
  "instant \<Rightarrow> time_bounded_retry \<Rightarrow> bool \<times> time_bounded_retry" where
  "time_bounded_should_retry now p =
     (if tb_attempts p = 0 then (True, p\<lparr>tb_attempts := 1\<rparr>)
      else let elapsed = now - tb_start p
           in if tb_max_duration p \<le> elapsed then (False, p)
              else let p = p\<lparr>tb_attempts := tb_attempts p + 1\<rparr>
                   in (True,
                       if 2 \<le> tb_attempts p
                       then p\<lparr>tb_current_sleep :=
                               min (saturating_mul (tb_current_sleep p) 2) (tb_max_sleep p)\<rparr>
                       else p))"

definition time_bounded_next_sleep :: "duration \<Rightarrow> time_bounded_retry \<Rightarrow> duration option" where
  "time_bounded_next_sleep jitter p = add_jitter jitter (tb_current_sleep p)"

record backoff_retry =
  br_max_sleep :: duration
  br_max_retries :: u32
  br_attempts :: u32
  br_current_sleep :: duration

definition backoff_new :: "duration \<Rightarrow> duration \<Rightarrow> u32 \<Rightarrow> backoff_retry" where
  "backoff_new base_sleep max_sleep max_retries =
     \<lparr>br_max_sleep = max_sleep, br_max_retries = max_retries, br_attempts = 0,
      br_current_sleep = base_sleep\<rparr>"

definition backoff_should_retry :: "backoff_retry \<Rightarrow> bool \<times> backoff_retry" where
  "backoff_should_retry p =
     (if br_attempts p = 0 then (True, p\<lparr>br_attempts := 1\<rparr>)
      else if br_max_retries p < br_attempts p then (False, p)
      else let p = p\<lparr>br_attempts := br_attempts p + 1\<rparr>
           in (True,
               if 2 \<le> br_attempts p
               then p\<lparr>br_current_sleep :=
                       min (saturating_mul (br_current_sleep p) 2) (br_max_sleep p)\<rparr>
               else p))"

definition backoff_next_sleep :: "duration \<Rightarrow> backoff_retry \<Rightarrow> duration option" where
  "backoff_next_sleep jitter p = add_jitter jitter (br_current_sleep p)"

text \<open>Consulting a policy again and again, as the callers' \<open>while\<close> loops do.\<close>

fun consult :: "('i \<Rightarrow> 'p \<Rightarrow> bool \<times> 'p) \<Rightarrow> 'i list \<Rightarrow> 'p \<Rightarrow> 'p" where
  "consult should_retry [] p = p"
| "consult should_retry (i # is) p = consult should_retry is (snd (should_retry i p))"

definition backoff_consult :: "nat \<Rightarrow> backoff_retry \<Rightarrow> backoff_retry" where
  "backoff_consult k = consult (\<lambda>_ :: unit. backoff_should_retry) (replicate k ())"

definition time_bounded_consult :: "instant list \<Rightarrow> time_bounded_retry \<Rightarrow> time_bounded_retry" where
  "time_bounded_consult = consult time_bounded_should_retry"

section \<open>The schedule\<close>

text \<open>The sleep that belongs to attempt \<open>n\<close>: the first is not capped, the later ones double.\<close>

definition backoff_sleep :: "duration \<Rightarrow> duration \<Rightarrow> nat \<Rightarrow> duration" where
  "backoff_sleep base max_sleep n = (if n \<le> 1 then base else min (base * 2 ^ (n - 1)) max_sleep)"

lemma backoff_sleep_double:
  assumes "max_sleep \<le> duration_max" and "0 < n"
  shows "min (saturating_mul (backoff_sleep base max_sleep n) 2) max_sleep
         = backoff_sleep base max_sleep (Suc n)"
proof (cases "n = 1")
  case True
  then show ?thesis using assms by (simp add: backoff_sleep_def saturating_mul_def min.assoc)
next
  case False
  then obtain k where "n = Suc (Suc k)"
    using assms(2) by (cases n; cases "n - 1") auto
  then show ?thesis
    using assms(1) by (simp add: backoff_sleep_def saturating_mul_def min_def)
qed

text \<open>
  What the two policies share: a refused attempt changes nothing, an allowed one counts, and
  from the second attempt on the sleep doubles up to the cap.
\<close>

locale retry_contract =
  fixes should_retry :: "'i \<Rightarrow> 'p \<Rightarrow> bool \<times> 'p"
    and attempts :: "'p \<Rightarrow> u32" and sleep :: "'p \<Rightarrow> duration" and max_sleep :: "'p \<Rightarrow> duration"
  assumes refused: "should_retry i p = (False, q) \<Longrightarrow> q = p"
    and counted: "should_retry i p = (True, q) \<Longrightarrow> attempts q = attempts p + 1"
    and capped: "should_retry i p = (True, q) \<Longrightarrow> max_sleep q = max_sleep p"
    and first: "should_retry i p = (True, q) \<Longrightarrow> attempts p = 0 \<Longrightarrow> sleep q = sleep p"
    and doubled: "should_retry i p = (True, q) \<Longrightarrow> attempts p \<noteq> 0 \<Longrightarrow> attempts q \<noteq> 0
      \<Longrightarrow> sleep q = min (saturating_mul (sleep p) 2) (max_sleep p)"
begin

definition on_schedule :: "duration \<Rightarrow> duration \<Rightarrow> 'p \<Rightarrow> bool" where
  "on_schedule base cap p \<longleftrightarrow>
     max_sleep p = cap \<and> sleep p = backoff_sleep base cap (unat (attempts p))"

lemma on_schedule_step:
  assumes "on_schedule base cap p" and "cap \<le> duration_max"
    and "unat (attempts p) < 2 ^ 32 - 1" and "should_retry i p = (allowed, q)"
  shows "on_schedule base cap q \<and> unat (attempts q) = unat (attempts p) + of_bool allowed"
proof (cases allowed)
  case False
  then show ?thesis using assms refused by auto
next
  case True
  then have step: "should_retry i p = (True, q)" using assms(4) by simp
  have count: "unat (attempts q) = Suc (unat (attempts p))"
    using counted [OF step] assms(3) by (simp add: unat_word_ariths)
  moreover have "sleep q = backoff_sleep base cap (Suc (unat (attempts p)))"
  proof (cases "attempts p = 0")
    case True
    then show ?thesis
      using first [OF step] assms(1) by (simp add: on_schedule_def backoff_sleep_def)
  next
    case False
    moreover have "attempts q \<noteq> 0" using count by auto
    ultimately show ?thesis
      using doubled [OF step] assms(1,2) backoff_sleep_double [of cap "unat (attempts p)" base]
      by (simp add: on_schedule_def unat_gt_0)
  qed
  ultimately show ?thesis
    using capped [OF step] assms(1) \<open>allowed\<close> by (simp add: on_schedule_def)
qed

lemma on_schedule_consult:
  assumes "on_schedule base cap p" and "cap \<le> duration_max"
    and "unat (attempts p) + length is < 2 ^ 32"
  shows "on_schedule base cap (consult should_retry is p)
    \<and> unat (attempts (consult should_retry is p)) \<le> unat (attempts p) + length is"
  using assms
proof (induction "is" arbitrary: p)
  case Nil
  then show ?case by simp
next
  case (Cons i "is")
  obtain allowed q where step: "should_retry i p = (allowed, q)" by fastforce
  have "on_schedule base cap q \<and> unat (attempts q) = unat (attempts p) + of_bool allowed"
    by (rule on_schedule_step [OF Cons.prems(1,2) _ step]) (use Cons.prems(3) in simp)
  then show ?case
    using Cons.IH [of q] Cons.prems(2,3) by (cases allowed) (auto simp: step)
qed

end

lemma second_attempt:
  fixes a :: u32
  assumes "a \<noteq> 0" and "a + 1 \<noteq> 0"
  shows "2 \<le> a + 1"
proof -
  have "unat (a + 1) = Suc (unat a)" using assms(2) by (simp add: unatSuc add.commute)
  moreover have "unat a \<noteq> 0" using assms(1) by (simp add: unat_eq_zero)
  ultimately show ?thesis by (simp add: word_le_nat_alt)
qed

interpretation tb: retry_contract time_bounded_should_retry tb_attempts tb_current_sleep tb_max_sleep
  by unfold_locales
    (auto simp: time_bounded_should_retry_def Let_def second_attempt split: if_splits)

interpretation br: retry_contract "\<lambda>_ :: unit. backoff_should_retry" br_attempts br_current_sleep
    br_max_sleep
  by unfold_locales
    (auto simp: backoff_should_retry_def Let_def second_attempt split: if_splits)

section \<open>The count-bounded policy\<close>

lemma backoff_consult_Suc:
  "backoff_consult (Suc k) p = snd (backoff_should_retry (backoff_consult k p))"
proof -
  have "consult f (is @ [i]) p = snd (f i (consult f is p))" for f :: "unit \<Rightarrow> _" and "is" i p
    by (induction "is" arbitrary: p) auto
  from this [of _ "replicate k ()" "()"] show ?thesis
    by (simp add: backoff_consult_def replicate_append_same flip: replicate_Suc)
qed

lemma backoff_attempts:
  assumes "max_retries \<noteq> - 1"
  shows "br_max_retries (backoff_consult k (backoff_new base cap max_retries)) = max_retries
    \<and> unat (br_attempts (backoff_consult k (backoff_new base cap max_retries)))
        = min k (Suc (unat max_retries))"
proof (induction k)
  case 0
  then show ?case by (simp add: backoff_consult_def backoff_new_def)
next
  case (Suc k)
  let ?p = "backoff_consult k (backoff_new base cap max_retries)"
  have "unat (max_retries + 1) = Suc (unat max_retries)"
    using assms by (simp add: unatSuc add.commute eq_neg_iff_add_eq_0)
  then have small: "Suc (unat max_retries) < 2 ^ 32"
    using unsigned_less [of "max_retries + 1", where ?'a = nat] by simp
  have inc: "unat (br_attempts ?p + 1) = Suc (unat (br_attempts ?p))"
    if "br_attempts ?p \<le> max_retries"
    using that small by (simp add: unat_word_ariths word_le_nat_alt)
  show ?case
    using Suc inc
    by (auto simp: backoff_consult_Suc backoff_should_retry_def Let_def word_less_nat_alt
        word_le_nat_alt unat_eq_zero not_less min_def split: if_splits)
qed

text \<open>
  The count-bounded policy allows exactly \<open>max_retries + 1\<close> attempts however often it is
  consulted (\<open>max_retries\<close> below \<open>u32::MAX\<close>, so the counter does not wrap), and the sleep that
  belongs to attempt \<open>n\<close> is the base for the first and \<open>base * 2 ^ (n - 1)\<close>, capped, after it.
\<close>

theorem backoff_schedule:
  assumes "max_retries \<noteq> - 1" and "cap \<le> duration_max" and "k < 2 ^ 32"
  shows "(fst (backoff_should_retry (backoff_consult k (backoff_new base cap max_retries)))
            \<longleftrightarrow> k \<le> unat max_retries)
    \<and> unat (br_attempts (backoff_consult k (backoff_new base cap max_retries)))
        = min k (unat max_retries + 1)
    \<and> br_current_sleep (backoff_consult k (backoff_new base cap max_retries))
        = backoff_sleep base cap (min k (unat max_retries + 1))"
proof -
  let ?p = "backoff_consult k (backoff_new base cap max_retries)"
  have att: "unat (br_attempts ?p) = min k (Suc (unat max_retries))"
      "br_max_retries ?p = max_retries"
    using backoff_attempts [OF assms(1)] by blast+
  have "br.on_schedule base cap ?p"
    unfolding backoff_consult_def
    using assms(2,3)
    by (intro conjunct1 [OF br.on_schedule_consult])
      (simp_all add: br.on_schedule_def backoff_new_def backoff_sleep_def)
  moreover have "fst (backoff_should_retry ?p) \<longleftrightarrow> k \<le> unat max_retries"
    using att by (auto simp: backoff_should_retry_def Let_def word_less_nat_alt not_less min_def
        split: if_splits)
  ultimately show ?thesis
    by (simp add: att br.on_schedule_def)
qed

theorem backoff_schedule_witness:
  "fst (backoff_should_retry (backoff_consult 3 (backoff_new 50 120 3)))
   \<and> \<not> fst (backoff_should_retry (backoff_consult 4 (backoff_new 50 120 3)))
   \<and> br_current_sleep (backoff_consult 2 (backoff_new 50 120 3)) = 100
   \<and> br_current_sleep (backoff_consult 9 (backoff_new 50 120 3)) = 120"
  using backoff_schedule [of 3 120 3 50] backoff_schedule [of 3 120 4 50]
    backoff_schedule [of 3 120 2 50] backoff_schedule [of 3 120 9 50]
  by (simp add: duration_max_def backoff_sleep_def)

section \<open>The time-bounded policy\<close>

lemma time_bounded_consult_fields:
  "tb_start (time_bounded_consult clock p) = tb_start p
   \<and> tb_max_duration (time_bounded_consult clock p) = tb_max_duration p"
  unfolding time_bounded_consult_def
  by (induction clock arbitrary: p) (auto simp: time_bounded_should_retry_def Let_def)

lemma time_bounded_step_counted:
  assumes "unat (tb_attempts p) + 1 < 2 ^ 32"
  shows "tb_attempts (snd (time_bounded_should_retry now p)) \<noteq> 0"
    and "unat (tb_attempts (snd (time_bounded_should_retry now p))) \<le> unat (tb_attempts p) + 1"
proof -
  have "unat (tb_attempts p + 1) = Suc (unat (tb_attempts p))"
    using assms by (simp add: unat_word_ariths)
  then show "tb_attempts (snd (time_bounded_should_retry now p)) \<noteq> 0"
    and "unat (tb_attempts (snd (time_bounded_should_retry now p))) \<le> unat (tb_attempts p) + 1"
    by (auto simp: time_bounded_should_retry_def Let_def unat_eq_zero simp flip: unat_eq_zero)
qed

lemma time_bounded_counted:
  assumes "unat (tb_attempts p) + length clock < 2 ^ 32" and "clock \<noteq> [] \<or> tb_attempts p \<noteq> 0"
  shows "tb_attempts (time_bounded_consult clock p) \<noteq> 0"
  using assms unfolding time_bounded_consult_def
proof (induction clock arbitrary: p)
  case Nil
  then show ?case by simp
next
  case (Cons now clock)
  have "unat (tb_attempts p) + 1 < 2 ^ 32" using Cons.prems(1) by simp
  note step = time_bounded_step_counted [OF this, of now]
  show ?case
    using Cons.IH [of "snd (time_bounded_should_retry now p)"] Cons.prems(1) step by simp
qed

text \<open>
  The time-bounded policy always allows the first attempt, and after it an attempt exactly
  while less than \<open>max_duration\<close> has elapsed since it was made, whatever the clock readings in
  between; the counter never exceeds the consultations, and the sleep that belongs to
  attempt \<open>n\<close> is the initial one for the first and \<open>initial * 2 ^ (n - 1)\<close>, capped, after it.
\<close>

theorem time_bounded_schedule:
  assumes "cap \<le> duration_max" and "length clock < 2 ^ 32"
  shows "(fst (time_bounded_should_retry now
              (time_bounded_consult clock (time_bounded_new start budget initial cap)))
            \<longleftrightarrow> clock = [] \<or> now - start < budget)
    \<and> unat (tb_attempts (time_bounded_consult clock (time_bounded_new start budget initial cap)))
        \<le> length clock
    \<and> tb_current_sleep (time_bounded_consult clock (time_bounded_new start budget initial cap))
        = backoff_sleep initial cap
            (unat (tb_attempts (time_bounded_consult clock
               (time_bounded_new start budget initial cap))))"
proof -
  let ?new = "time_bounded_new start budget initial cap"
  let ?p = "time_bounded_consult clock ?new"
  have "tb.on_schedule initial cap ?p \<and> unat (tb_attempts ?p) \<le> unat (tb_attempts ?new) + length clock"
    unfolding time_bounded_consult_def
    using assms by (intro tb.on_schedule_consult)
      (simp_all add: tb.on_schedule_def time_bounded_new_def backoff_sleep_def)
  moreover have "tb_attempts ?p \<noteq> 0" if "clock \<noteq> []"
    using that assms(2) by (intro time_bounded_counted) (simp_all add: time_bounded_new_def)
  then have "fst (time_bounded_should_retry now ?p) \<longleftrightarrow> clock = [] \<or> now - start < budget"
    using time_bounded_consult_fields [of clock ?new]
    by (cases "clock = []")
      (auto simp: time_bounded_should_retry_def time_bounded_consult_def time_bounded_new_def Let_def)
  ultimately show ?thesis
    by (simp add: tb.on_schedule_def time_bounded_new_def)
qed

theorem time_bounded_schedule_witness:
  "fst (time_bounded_should_retry 99 (time_bounded_consult [] (time_bounded_new 5 10 50 120)))
   \<and> fst (time_bounded_should_retry 14 (time_bounded_consult [6, 9] (time_bounded_new 5 10 50 120)))
   \<and> \<not> fst (time_bounded_should_retry 15 (time_bounded_consult [6, 9] (time_bounded_new 5 10 50 120)))"
  using time_bounded_schedule [of 120 "[]" 99 5 10 50] time_bounded_schedule [of 120 "[6, 9]" 14 5 10 50]
    time_bounded_schedule [of 120 "[6, 9]" 15 5 10 50]
  by (simp add: duration_max_def)

text \<open>
  With the default parameters the sleep has doubled by the second attempt, that is at the
  first retry.
\<close>

lemma first_retry_doubles:
  "tb_attempts (time_bounded_consult [0, 1] (time_bounded_with_defaults 0)) = 2
   \<and> tb_current_sleep (time_bounded_consult [0] (time_bounded_with_defaults 0)) = 50000000
   \<and> tb_current_sleep (time_bounded_consult [0, 1] (time_bounded_with_defaults 0)) = 100000000"
  by (simp add: time_bounded_consult_def time_bounded_with_defaults_def time_bounded_new_def
      time_bounded_should_retry_def saturating_mul_def duration_max_def)

end
