(* ===== verification/Master_Inquire.thy ===== *)
theory Master_Inquire
  imports Client_Error Retry_Policy
begin

text \<open>
  Discovery of the primary master (\<^verbatim>\<open>src/src/client/master_inquire.rs\<close>).  What the network
  answers to one \<open>getServiceVersion\<close> ping is a value of \<open>ping_reply\<close>, an argument of the
  model, as are the clock readings and the jitter of each polling round.  The singleflight
  gate that concurrent callers share is a transition system whose steps are the pieces of
  \<open>get_primary_rpc_address\<close> and of the leader's guard between two points at which another
  task can run.
\<close>

section \<open>One ping\<close>

datatype ping_reply =
    InvalidEndpoint string
  | ConnectFailed string
  | VersionReply "int option"
  | StatusReply grpc_status

datatype ping_error = Standby | PingUnavailable string | PingFatal string

definition status_line :: "(grpc_code \<Rightarrow> string) \<Rightarrow> string \<Rightarrow> grpc_status \<Rightarrow> string" where
  "status_line code_text addr status =
     addr @ '': ['' @ code_text (st_code status) @ ''] '' @ st_message status"

definition ping_meta_service ::
  "(grpc_code \<Rightarrow> string) \<Rightarrow> string \<Rightarrow> ping_reply \<Rightarrow> ping_error + unit" where
  "ping_meta_service code_text addr reply = (case reply of
       InvalidEndpoint e \<Rightarrow> Inl (PingFatal (''invalid endpoint for '' @ addr @ '': '' @ e))
     | ConnectFailed e \<Rightarrow> Inl (PingUnavailable (addr @ '': connection failed: '' @ e))
     | VersionReply _ \<Rightarrow> Inr ()
     | StatusReply status \<Rightarrow>
         (case st_code status of
            NotFound \<Rightarrow> Inl Standby
          | Unavailable \<Rightarrow> Inl (PingUnavailable (status_line code_text addr status))
          | DeadlineExceeded \<Rightarrow> Inl (PingUnavailable (status_line code_text addr status))
          | Cancelled \<Rightarrow> Inl (PingUnavailable (status_line code_text addr status))
          | _ \<Rightarrow> Inl (PingFatal (status_line code_text addr status))))"

section \<open>The polling loop\<close>

text \<open>One round over the addresses: the primary found, if any, and the errors collected.\<close>

fun poll_round ::
  "(grpc_code \<Rightarrow> string) \<Rightarrow> (string \<Rightarrow> ping_reply) \<Rightarrow> string list \<Rightarrow> string list
   \<Rightarrow> string option \<times> string list" where
  "poll_round code_text reply [] errors = (None, errors)"
| "poll_round code_text reply (addr # addrs) errors =
     (case ping_meta_service code_text addr (reply addr) of
        Inr _ \<Rightarrow> (Some addr, errors)
      | Inl Standby \<Rightarrow> poll_round code_text reply addrs (errors @ [addr @ '': standby''])
      | Inl (PingUnavailable msg) \<Rightarrow> poll_round code_text reply addrs (errors @ [msg])
      | Inl (PingFatal msg) \<Rightarrow> (None, errors @ [msg]))"

text \<open>What the environment supplies to a round: the clock, the replies and the jitter.\<close>

type_synonym poll_env = "instant \<times> (string \<Rightarrow> ping_reply) \<times> duration"

datatype poll_outcome = Found string | Exhausted string | SleepPanic

definition exhausted_message :: "u32 \<Rightarrow> string list \<Rightarrow> string list \<Rightarrow> string" where
  "exhausted_message attempts addrs errors =
     ''failed to find primary master after '' @ show_nat (unat attempts)
     @ '' attempts across '' @ show_nat (length addrs)
     @ '' addresses. Last round errors: ['' @ join ''; '' errors @ '']''"

text \<open>The \<open>while\<close> loop over the rounds supplied; no value while it is still polling.\<close>

fun poll_loop ::
  "(grpc_code \<Rightarrow> string) \<Rightarrow> string list \<Rightarrow> time_bounded_retry \<Rightarrow> string list \<Rightarrow> poll_env list
   \<Rightarrow> poll_outcome option" where
  "poll_loop code_text addrs retry last_errors [] = None"
| "poll_loop code_text addrs retry last_errors ((now, reply, jitter) # env) =
     (case time_bounded_should_retry now retry of
        (False, retry) \<Rightarrow>
          Some (Exhausted (exhausted_message (tb_attempts retry) addrs last_errors))
      | (True, retry) \<Rightarrow>
          (case poll_round code_text reply addrs [] of
             (Some addr, _) \<Rightarrow> Some (Found addr)
           | (None, errors) \<Rightarrow>
               (case time_bounded_next_sleep jitter retry of
                  None \<Rightarrow> Some SleepPanic
                | Some _ \<Rightarrow> poll_loop code_text addrs retry errors env)))"

record polling_client =
  pc_addresses :: "string list"
  pc_cached_primary :: "string option"
  pc_max_duration :: duration
  pc_initial_sleep :: duration
  pc_max_sleep :: duration

definition polling_client_new ::
  "string list \<Rightarrow> duration \<Rightarrow> duration \<Rightarrow> duration \<Rightarrow> polling_client" where
  "polling_client_new addresses max_duration initial_sleep max_sleep =
     \<lparr>pc_addresses = addresses, pc_cached_primary = None, pc_max_duration = max_duration,
      pc_initial_sleep = initial_sleep, pc_max_sleep = max_sleep\<rparr>"

definition reset_primary :: "polling_client \<Rightarrow> polling_client" where
  "reset_primary c = c\<lparr>pc_cached_primary := None\<rparr>"

definition poll_for_primary ::
  "(grpc_code \<Rightarrow> string) \<Rightarrow> instant \<Rightarrow> poll_env list \<Rightarrow> polling_client
   \<Rightarrow> (poll_outcome \<times> polling_client) option" where
  "poll_for_primary code_text start env c =
     (case poll_loop code_text (pc_addresses c)
             (time_bounded_new start (pc_max_duration c) (pc_initial_sleep c) (pc_max_sleep c))
             [] env of
        None \<Rightarrow> None
      | Some (Found addr) \<Rightarrow> Some (Found addr, c\<lparr>pc_cached_primary := Some addr\<rparr>)
      | Some r \<Rightarrow> Some (r, c))"

section \<open>The two clients and their factory\<close>

datatype inquire_client = SingleMaster string | PollingMaster polling_client

fun get_master_rpc_addresses :: "inquire_client \<Rightarrow> string list" where
  "get_master_rpc_addresses (SingleMaster address) = [address]"
| "get_master_rpc_addresses (PollingMaster c) = pc_addresses c"

fun reset_cached_primary :: "inquire_client \<Rightarrow> inquire_client" where
  "reset_cached_primary (SingleMaster address) = SingleMaster address"
| "reset_cached_primary (PollingMaster c) = PollingMaster (reset_primary c)"

record inquire_config =
  ic_master_addr :: string
  ic_master_addrs :: "string list"
  ic_retry_max_duration :: duration
  ic_initial_sleep :: duration
  ic_max_sleep :: duration

definition master_addresses :: "inquire_config \<Rightarrow> string list" where
  "master_addresses config =
     (if ic_master_addrs config = [] then [ic_master_addr config] else ic_master_addrs config)"

definition create_master_inquire_client :: "inquire_config \<Rightarrow> inquire_client" where
  "create_master_inquire_client config =
     (let addrs = master_addresses config
      in if length addrs \<le> 1
         then SingleMaster (case addrs of [] \<Rightarrow> ic_master_addr config | addr # _ \<Rightarrow> addr)
         else PollingMaster (polling_client_new addrs (ic_retry_max_duration config)
                (ic_initial_sleep config) (ic_max_sleep config)))"

section \<open>What a poll finds\<close>

text \<open>The address answers as the primary, or as one the round passes over.\<close>

definition is_primary :: "(string \<Rightarrow> ping_reply) \<Rightarrow> string \<Rightarrow> bool" where
  "is_primary reply addr \<longleftrightarrow> (case reply addr of VersionReply _ \<Rightarrow> True | _ \<Rightarrow> False)"

definition passed_over :: "(string \<Rightarrow> ping_reply) \<Rightarrow> string \<Rightarrow> bool" where
  "passed_over reply addr \<longleftrightarrow> (case reply addr of
       ConnectFailed _ \<Rightarrow> True
     | StatusReply st \<Rightarrow> st_code st \<in> {NotFound, Unavailable, DeadlineExceeded, Cancelled}
     | _ \<Rightarrow> False)"

lemma ping_cases:
  "(ping_meta_service ct addr (reply addr) = Inr () \<longleftrightarrow> is_primary reply addr)
   \<and> (ping_meta_service ct addr (reply addr) = Inl Standby
        \<or> (\<exists>msg. ping_meta_service ct addr (reply addr) = Inl (PingUnavailable msg))
      \<longleftrightarrow> passed_over reply addr)"
proof (cases "reply addr")
  case (StatusReply st)
  then show ?thesis
    by (cases "st_code st") (simp_all add: ping_meta_service_def is_primary_def passed_over_def)
qed (simp_all add: ping_meta_service_def is_primary_def passed_over_def)

lemmas ping_Inr_iff = ping_cases [THEN conjunct1]
  and ping_passed_iff = ping_cases [THEN conjunct2]

text \<open>\<open>a\<close> stands in the list after elements that all satisfy \<open>Q\<close>.\<close>

definition first_after :: "('a \<Rightarrow> bool) \<Rightarrow> 'a \<Rightarrow> 'a list \<Rightarrow> bool" where
  "first_after Q a xs \<longleftrightarrow> (\<exists>before after. xs = before @ a # after \<and> (\<forall>b \<in> set before. Q b))"

lemma first_after_Nil [simp]: "\<not> first_after Q a []"
  by (simp add: first_after_def)

lemma first_after_Cons: "first_after Q a (b # xs) \<longleftrightarrow> b = a \<or> (Q b \<and> first_after Q a xs)"
proof
  assume "first_after Q a (b # xs)"
  then obtain bs cs where "b # xs = bs @ a # cs" "\<forall>c \<in> set bs. Q c"
    by (auto simp: first_after_def)
  then show "b = a \<or> (Q b \<and> first_after Q a xs)"
    by (cases bs) (auto simp: first_after_def)
next
  assume "b = a \<or> (Q b \<and> first_after Q a xs)"
  then show "first_after Q a (b # xs)"
  proof (elim disjE conjE)
    assume "b = a"
    then show ?thesis
      unfolding first_after_def by (intro exI [of _ "[]"] exI [of _ xs]) simp
  next
    assume "Q b" "first_after Q a xs"
    then obtain bs cs where "xs = bs @ a # cs" "\<forall>c \<in> set bs. Q c"
      by (auto simp: first_after_def)
    then show ?thesis
      unfolding first_after_def using \<open>Q b\<close>
      by (intro exI [of _ "b # bs"] exI [of _ cs]) simp
  qed
qed

lemma poll_round_found_iff:
  "fst (poll_round ct reply addrs errors) = Some a
   \<longleftrightarrow> is_primary reply a \<and> first_after (passed_over reply) a addrs"
proof (induction addrs arbitrary: errors)
  case Nil
  then show ?case by simp
next
  case (Cons b addrs)
  have disj: "\<not> (is_primary reply b \<and> passed_over reply b)"
    by (auto simp: is_primary_def passed_over_def split: ping_reply.splits)
  show ?case
  proof (cases "passed_over reply b")
    case True
    then have "ping_meta_service ct b (reply b) = Inl Standby
        \<or> (\<exists>msg. ping_meta_service ct b (reply b) = Inl (PingUnavailable msg))"
      by (simp only: ping_passed_iff)
    then have "\<exists>errors'. poll_round ct reply (b # addrs) errors = poll_round ct reply addrs errors'"
      by (elim disjE exE) auto
    then show ?thesis
      using Cons.IH True disj by (auto simp: first_after_Cons simp del: poll_round.simps)
  next
    case False
    have "fst (poll_round ct reply (b # addrs) errors) = (if is_primary reply b then Some b else None)"
    proof (cases "ping_meta_service ct b (reply b)")
      case (Inl e)
      then have "\<not> is_primary reply b" using ping_Inr_iff [of ct b reply] by simp
      moreover obtain msg where "e = PingFatal msg"
        using Inl False ping_passed_iff [of ct b reply] by (cases e) simp_all
      ultimately show ?thesis using Inl by simp
    next
      case (Inr u)
      then show ?thesis using ping_Inr_iff [of ct b reply] by simp
    qed
    then show ?thesis
      using False by (auto simp: first_after_Cons simp del: poll_round.simps)
  qed
qed

text \<open>In the round \<open>e\<close> address \<open>a\<close> answers as the primary and the round gets to it.\<close>

definition answers_primary :: "string list \<Rightarrow> string \<Rightarrow> poll_env \<Rightarrow> bool" where
  "answers_primary addrs a = (\<lambda>(now, reply, jitter).
     is_primary reply a \<and> first_after (passed_over reply) a addrs)"

lemma poll_round_answers:
  "fst (poll_round ct reply addrs errors) = Some a \<longleftrightarrow> answers_primary addrs a (now, reply, jitter)"
  by (simp add: poll_round_found_iff answers_primary_def)

text \<open>
  A policy that has the client's budget and whose sleeps, with jitter up to \<open>j\<close>, do not
  overflow a duration.
\<close>

definition polls_within :: "polling_client \<Rightarrow> instant \<Rightarrow> duration \<Rightarrow> time_bounded_retry \<Rightarrow> bool" where
  "polls_within c start j retry \<longleftrightarrow>
     tb_start retry = start \<and> tb_max_duration retry = pc_max_duration c
     \<and> tb_current_sleep retry + j \<le> duration_max \<and> tb_max_sleep retry + j \<le> duration_max"

lemma polls_within_step:
  "polls_within c start j retry
   \<Longrightarrow> polls_within c start j (snd (time_bounded_should_retry now retry))"
  by (auto simp: polls_within_def time_bounded_should_retry_def Let_def)

lemma polls_within_allowed:
  "polls_within c start j retry \<Longrightarrow> now - start < pc_max_duration c
   \<Longrightarrow> fst (time_bounded_should_retry now retry)"
  by (auto simp: polls_within_def time_bounded_should_retry_def Let_def)

lemma polls_within_sleep:
  "polls_within c start j retry \<Longrightarrow> jitter \<le> j \<Longrightarrow> time_bounded_next_sleep jitter retry \<noteq> None"
  by (auto simp: polls_within_def time_bounded_next_sleep_def add_jitter_def)

text \<open>Rounds inside the budget that find no primary are passed through.\<close>

definition fruitless :: "polling_client \<Rightarrow> instant \<Rightarrow> duration \<Rightarrow> poll_env \<Rightarrow> bool" where
  "fruitless c start j = (\<lambda>(now, reply, jitter).
     now - start < pc_max_duration c \<and> jitter \<le> j
     \<and> (\<nexists>a. answers_primary (pc_addresses c) a (now, reply, jitter)))"

lemma poll_loop_skip:
  assumes "polls_within c start j retry" and "\<forall>e \<in> set earlier. fruitless c start j e"
  shows "\<exists>retry' errors'. polls_within c start j retry' \<and>
    poll_loop ct (pc_addresses c) retry errors (earlier @ env)
    = poll_loop ct (pc_addresses c) retry' errors' env"
  using assms
proof (induction earlier arbitrary: retry errors)
  case Nil
  then show ?case by auto
next
  case (Cons e earlier)
  obtain now reply jitter where e: "e = (now, reply, jitter)" by (cases e)
  define q where "q = snd (time_bounded_should_retry now retry)"
  have q: "time_bounded_should_retry now retry = (True, q)"
    using polls_within_allowed [OF Cons.prems(1)] Cons.prems(2)
    by (simp add: q_def e fruitless_def prod_eq_iff)
  have within: "polls_within c start j q"
    unfolding q_def by (rule polls_within_step [OF Cons.prems(1)])
  then obtain d where d: "time_bounded_next_sleep jitter q = Some d"
    using polls_within_sleep [of c start j q jitter] Cons.prems(2) by (auto simp: e fruitless_def)
  have "fst (poll_round ct reply (pc_addresses c) []) = None"
    using Cons.prems(2) poll_round_answers [of ct reply "pc_addresses c" "[]" _ now jitter]
    by (cases "fst (poll_round ct reply (pc_addresses c) [])") (auto simp: e fruitless_def)
  then obtain errs where "poll_round ct reply (pc_addresses c) [] = (None, errs)"
    by (cases "poll_round ct reply (pc_addresses c) []") simp
  then show ?case
    using Cons.IH [OF within, of errs] Cons.prems(2) by (simp add: e q d)
qed

text \<open>
  (C39) A reachable primary is found: when within the budget a round comes in which an address
  answers as the primary and every address before it in the list is a standby or unreachable,
  and no earlier round had such an address, polling returns that address and caches it.
\<close>

theorem poll_finds_primary:
  assumes "env = earlier @ (now, reply, jitter) # rest"
    and "\<forall>e \<in> set earlier. fruitless c start j e"
    and "now - start < pc_max_duration c"
    and "answers_primary (pc_addresses c) a (now, reply, jitter)"
    and "pc_initial_sleep c + j \<le> duration_max" and "pc_max_sleep c + j \<le> duration_max"
  shows "poll_for_primary ct start env c = Some (Found a, c\<lparr>pc_cached_primary := Some a\<rparr>)"
proof -
  let ?retry = "time_bounded_new start (pc_max_duration c) (pc_initial_sleep c) (pc_max_sleep c)"
  have "polls_within c start j ?retry"
    using assms(5,6) by (simp add: polls_within_def time_bounded_new_def)
  from poll_loop_skip [OF this assms(2), of ct "[]" "(now, reply, jitter) # rest"]
  obtain retry errors where retry: "polls_within c start j retry"
    and loop: "poll_loop ct (pc_addresses c) ?retry [] env
      = poll_loop ct (pc_addresses c) retry errors ((now, reply, jitter) # rest)"
    using assms(1) by blast
  obtain q where q: "time_bounded_should_retry now retry = (True, q)"
    using polls_within_allowed [OF retry assms(3)]
    by (cases "time_bounded_should_retry now retry") simp
  obtain errs where "poll_round ct reply (pc_addresses c) [] = (Some a, errs)"
    using assms(4) poll_round_answers [of ct reply "pc_addresses c" "[]" a now jitter]
    by (cases "poll_round ct reply (pc_addresses c) []") simp
  then show ?thesis
    by (simp add: poll_for_primary_def loop q)
qed

theorem poll_finds_primary_witness:
  "poll_for_primary (\<lambda>_. []) 0
     [(1, \<lambda>_. ConnectFailed [], 0),
      (5, (\<lambda>_. ConnectFailed [])(''b'' := VersionReply (Some 1)), 0)]
     (polling_client_new [''a'', ''b''] 100 10 40)
   = Some (Found ''b'', (polling_client_new [''a'', ''b''] 100 10 40)\<lparr>pc_cached_primary := Some ''b''\<rparr>)"
proof (rule poll_finds_primary [where earlier = "[(1, \<lambda>_. ConnectFailed [], 0)]" and now = 5
      and reply = "(\<lambda>_. ConnectFailed [])(''b'' := VersionReply (Some 1))" and jitter = 0
      and rest = "[]" and j = 0])
qed (simp_all add: fruitless_def answers_primary_def is_primary_def first_after_Cons passed_over_def
    polling_client_new_def duration_max_def)

lemma poll_loop_sound:
  "poll_loop ct addrs retry errors env = Some (Found a)
   \<Longrightarrow> \<exists>e \<in> set env. answers_primary addrs a e"
proof (induction env arbitrary: retry errors)
  case Nil
  then show ?case by simp
next
  case (Cons e env)
  obtain now reply jitter where e: "e = (now, reply, jitter)" by (cases e)
  show ?case
    using Cons poll_round_answers [of ct reply addrs "[]" a now jitter]
    by (auto simp: e split: prod.splits bool.splits option.splits)
qed

lemma poll_loop_ends:
  assumes "tb_max_duration retry \<le> now - tb_start retry"
    and "unat (tb_attempts retry) + length earlier < 2 ^ 32"
    and "earlier \<noteq> [] \<or> tb_attempts retry \<noteq> 0"
  shows "poll_loop ct addrs retry errors (earlier @ [(now, reply, jitter)]) \<noteq> None"
  using assms
proof (induction earlier arbitrary: retry errors)
  case Nil
  then show ?case by (simp add: time_bounded_should_retry_def)
next
  case (Cons e earlier)
  obtain now' reply' jitter' where e: "e = (now', reply', jitter')" by (cases e)
  define q where "q = snd (time_bounded_should_retry now' retry)"
  have "unat (tb_attempts retry) + 1 < 2 ^ 32" using Cons.prems(2) by simp
  note count = time_bounded_step_counted [OF this, of now', folded q_def]
  have q: "tb_start q = tb_start retry" "tb_max_duration q = tb_max_duration retry"
    by (simp_all add: q_def time_bounded_should_retry_def Let_def)
  have rest: "poll_loop ct addrs q errs (earlier @ [(now, reply, jitter)]) \<noteq> None" for errs
    by (rule Cons.IH) (use Cons.prems(1,2) count in \<open>simp_all add: q\<close>)
  then show ?case
    by (auto simp: e q_def split: prod.splits bool.splits option.splits)
qed

text \<open>
  (C40) Polling ends: once a round after the first starts with the budget used up, the poll has
  returned, with a listed address that answered as the primary in one of the rounds (and is
  then cached), with the exhaustion error, or by the overflow panic of the sleep time.
\<close>

theorem poll_returns:
  assumes "env = earlier @ [(now, reply, jitter)]" and "earlier \<noteq> []"
    and "pc_max_duration c \<le> now - start" and "length env < 2 ^ 32"
  shows "\<exists>outcome c'. poll_for_primary ct start env c = Some (outcome, c')
    \<and> (\<forall>a. outcome = Found a \<longrightarrow>
          c' = c\<lparr>pc_cached_primary := Some a\<rparr>
          \<and> (\<exists>e \<in> set env. answers_primary (pc_addresses c) a e))
    \<and> ((\<nexists>a. outcome = Found a) \<longrightarrow> c' = c)"
proof -
  let ?retry = "time_bounded_new start (pc_max_duration c) (pc_initial_sleep c) (pc_max_sleep c)"
  obtain r where r: "poll_loop ct (pc_addresses c) ?retry [] env = Some r"
    using poll_loop_ends [of ?retry now earlier ct "pc_addresses c" "[]" reply jitter] assms
    by (auto simp: time_bounded_new_def)
  then show ?thesis
    using poll_loop_sound [of ct "pc_addresses c" ?retry "[]" env]
    by (cases r) (simp_all add: poll_for_primary_def)
qed

theorem poll_returns_witness:
  "\<exists>outcome c'. poll_for_primary (\<lambda>_. []) 0
     [(0, \<lambda>_. ConnectFailed [], 0), (200, \<lambda>_. ConnectFailed [], 0)]
     (polling_client_new [''a'', ''b''] 100 10 40) = Some (outcome, c')"
  using poll_returns [of "[(0, \<lambda>_. ConnectFailed [], 0), (200, \<lambda>_. ConnectFailed [], 0)]"
      "[(0, \<lambda>_. ConnectFailed [], 0)]" 200 "\<lambda>_. ConnectFailed []" 0
      "polling_client_new [''a'', ''b''] 100 10 40" 0 "\<lambda>_. []"]
  by (simp add: polling_client_new_def) blast

end
