(* ===== verification/Singleflight.thy ===== *)
theory Singleflight
  imports Master_Inquire
begin

text \<open>
  The singleflight gate of \<open>PollingMasterInquireClient::get_primary_rpc_address\<close>
  (\<^verbatim>\<open>src/src/client/master_inquire.rs\<close>): callers that find no valid cached primary share one
  poll through a \<open>watch\<close> channel, and \<open>LeaderGuard\<close> releases it on completion, cancellation
  and panic.  A task is a number and has a phase; a step is what one task does between two
  points at which another can run (an \<open>await\<close>, or the release of the gate's mutex).  Channels
  are numbered in the order they are created.
\<close>

section \<open>Tasks, channels and steps\<close>

datatype poll_result = PollOk string | PollErr string

datatype phase =
    Idle
  | AtGate                         \<comment> \<open>the cached primary is absent or stale\<close>
  | Leading nat                    \<comment> \<open>polling, with the sender of the channel\<close>
  | Completing nat poll_result     \<comment> \<open>\<open>complete\<close>: before the broadcast\<close>
  | Clearing nat poll_result       \<comment> \<open>\<open>complete\<close>: broadcast sent, sender dropped\<close>
  | Dropping nat poll_result       \<comment> \<open>\<open>complete\<close> has cleared the gate, \<open>Drop\<close> runs\<close>
  | Cancelling nat                 \<comment> \<open>\<open>Drop\<close> of a cancelled leader, broadcast sent\<close>
  | Following nat
  | Returned "string result"
  | Gone

record channel =
  ch_value :: "poll_result option"
  ch_open :: bool

record flight =
  fl_cached :: "string option"
  fl_gate :: "nat option"
  fl_next :: nat
  fl_channels :: "nat \<Rightarrow> channel"
  fl_phase :: "nat \<Rightarrow> phase"

definition flight_init :: flight where
  "flight_init = \<lparr>fl_cached = None, fl_gate = None, fl_next = 0,
     fl_channels = (\<lambda>_. \<lparr>ch_value = None, ch_open = False\<rparr>), fl_phase = (\<lambda>_. Idle)\<rparr>"

definition set_phase :: "nat \<Rightarrow> phase \<Rightarrow> flight \<Rightarrow> flight" where
  "set_phase t ph s = s\<lparr>fl_phase := (fl_phase s)(t := ph)\<rparr>"

fun surface :: "poll_result \<Rightarrow> string result" where
  "surface (PollOk addr) = Inr addr"
| "surface (PollErr msg) = Inl (EInternal msg)"

definition cancelled_message :: string where
  "cancelled_message = ''primary master poll cancelled before completion''"

text \<open>The fast path: \<open>alive\<close> is the outcome of pinging the cached address.\<close>

definition fast_path :: "nat \<Rightarrow> bool \<Rightarrow> flight \<Rightarrow> flight" where
  "fast_path t alive s = (case fl_cached s of
       Some addr \<Rightarrow> if alive then set_phase t (Returned (Inr addr)) s else set_phase t AtGate s
     | None \<Rightarrow> set_phase t AtGate s)"

text \<open>Under the gate's lock: join the poll in flight, or open a channel and lead.\<close>

definition enter_gate :: "nat \<Rightarrow> flight \<Rightarrow> flight" where
  "enter_gate t s = (case fl_gate s of
       Some c \<Rightarrow> set_phase t (Following c) s
     | None \<Rightarrow> set_phase t (Leading (fl_next s))
         (s\<lparr>fl_gate := Some (fl_next s), fl_next := Suc (fl_next s),
            fl_channels := (fl_channels s)(fl_next s := \<lparr>ch_value = None, ch_open = True\<rparr>)\<rparr>))"

text \<open>\<open>poll_for_primary\<close> returns; it has stored a primary it found in the cache.\<close>

definition finish_poll :: "nat \<Rightarrow> nat \<Rightarrow> poll_result \<Rightarrow> flight \<Rightarrow> flight" where
  "finish_poll t c r s = set_phase t (Completing c r)
     (case r of PollOk addr \<Rightarrow> s\<lparr>fl_cached := Some addr\<rparr> | PollErr _ \<Rightarrow> s)"

text \<open>Sending on the channel and dropping its sender.\<close>

definition broadcast :: "nat \<Rightarrow> poll_result \<Rightarrow> flight \<Rightarrow> flight" where
  "broadcast c r s =
     s\<lparr>fl_channels := (fl_channels s)(c := \<lparr>ch_value = Some r, ch_open = False\<rparr>)\<rparr>"

definition clear_gate :: "flight \<Rightarrow> flight" where
  "clear_gate s = s\<lparr>fl_gate := None\<rparr>"

text \<open>
  The transitions.  Dropping the guard clears the gate whether or not \<open>complete\<close> has run; a
  task at an \<open>await\<close> may be cancelled.
\<close>

inductive flight_step :: "flight \<Rightarrow> flight \<Rightarrow> bool" where
  call: "fl_phase s t = Idle \<Longrightarrow> flight_step s (fast_path t alive s)"
| gate: "fl_phase s t = AtGate \<Longrightarrow> flight_step s (enter_gate t s)"
| polled: "fl_phase s t = Leading c \<Longrightarrow> flight_step s (finish_poll t c r s)"
| complete_send: "fl_phase s t = Completing c r
    \<Longrightarrow> flight_step s (set_phase t (Clearing c r) (broadcast c r s))"
| complete_clear: "fl_phase s t = Clearing c r
    \<Longrightarrow> flight_step s (set_phase t (Dropping c r) (clear_gate s))"
| guard_drop: "fl_phase s t = Dropping c r
    \<Longrightarrow> flight_step s (set_phase t (Returned (surface r)) (clear_gate s))"
| cancel: "fl_phase s t = Leading c
    \<Longrightarrow> flight_step s (set_phase t (Cancelling c) (broadcast c (PollErr cancelled_message) s))"
| cancel_clear: "fl_phase s t = Cancelling c
    \<Longrightarrow> flight_step s (set_phase t Gone (clear_gate s))"
| follow: "fl_phase s t = Following c \<Longrightarrow> ch_value (fl_channels s c) = Some r
    \<Longrightarrow> flight_step s (set_phase t (Returned (surface r)) s)"
| follow_retry: "fl_phase s t = Following c \<Longrightarrow> ch_value (fl_channels s c) = None
    \<Longrightarrow> \<not> ch_open (fl_channels s c) \<Longrightarrow> flight_step s (set_phase t Idle s)"
| follow_cancel: "fl_phase s t = Following c \<Longrightarrow> flight_step s (set_phase t Gone s)"
| reset: "flight_step s (s\<lparr>fl_cached := None\<rparr>)"

inductive flight_reachable :: "flight \<Rightarrow> bool" where
  start: "flight_reachable flight_init"
| step: "flight_reachable s \<Longrightarrow> flight_step s s' \<Longrightarrow> flight_reachable s'"

inductive_cases flight_stepE: "flight_step s s'"

section \<open>Who answers for a channel\<close>

fun owned :: "phase \<Rightarrow> nat option" where
  "owned (Leading c) = Some c"
| "owned (Completing c r) = Some c"
| "owned (Clearing c r) = Some c"
| "owned (Dropping c r) = Some c"
| "owned (Cancelling c) = Some c"
| "owned _ = None"

fun sending :: "phase \<Rightarrow> nat option" where
  "sending (Leading c) = Some c"
| "sending (Completing c r) = Some c"
| "sending _ = None"

lemma sending_owned: "sending ph = Some c \<Longrightarrow> owned ph = Some c"
  by (cases ph) auto

lemma owned_None_sending: "owned ph = None \<Longrightarrow> sending ph = None"
  by (cases ph) auto

text \<open>
  Every channel created so far has been answered or has a task that holds its sender; the
  gate only shows channels that exist; and no two tasks own the same channel.
\<close>

definition flight_inv :: "flight \<Rightarrow> bool" where
  "flight_inv s \<longleftrightarrow>
     (\<forall>t c. owned (fl_phase s t) = Some c \<longrightarrow> c < fl_next s)
   \<and> (\<forall>t u c. owned (fl_phase s t) = Some c \<longrightarrow> owned (fl_phase s u) = Some c \<longrightarrow> t = u)
   \<and> (\<forall>t c. sending (fl_phase s t) = Some c
        \<longrightarrow> ch_value (fl_channels s c) = None \<and> ch_open (fl_channels s c))
   \<and> (\<forall>c < fl_next s. ch_value (fl_channels s c) \<noteq> None \<or> (\<exists>t. sending (fl_phase s t) = Some c))
   \<and> (\<forall>c. fl_gate s = Some c \<longrightarrow> (\<exists>t. owned (fl_phase s t) = Some c))
   \<and> (\<forall>t c. fl_phase s t = Following c \<longrightarrow> c < fl_next s)
   \<and> (\<forall>c. ch_value (fl_channels s c) \<noteq> None \<longrightarrow> c < fl_next s)"

lemma flight_init_inv: "flight_inv flight_init"
  by (simp add: flight_inv_def flight_init_def)

lemma set_phase_sel [simp]:
  "fl_phase (set_phase t ph s) u = (if u = t then ph else fl_phase s u)"
  "fl_gate (set_phase t ph s) = fl_gate s" "fl_next (set_phase t ph s) = fl_next s"
  "fl_channels (set_phase t ph s) = fl_channels s"
  by (simp_all add: set_phase_def)

text \<open>How the invariant is kept, by what a step does to the channel the task owns.\<close>

lemma inv_retain:
  assumes inv: "flight_inv s" and "owned ph = owned (fl_phase s t)"
    and "sending ph = sending (fl_phase s t)" and "\<And>c. ph = Following c \<Longrightarrow> c < fl_next s"
  shows "flight_inv (set_phase t ph s)"
proof -
  have "owned (fl_phase (set_phase t ph s) u) = owned (fl_phase s u)"
    and "sending (fl_phase (set_phase t ph s) u) = sending (fl_phase s u)" for u
    using assms(2,3) by simp_all
  then show ?thesis
    using inv assms(4) unfolding flight_inv_def by (simp del: set_phase_sel(1)) auto
qed

lemma inv_clear: "flight_inv s \<Longrightarrow> flight_inv (clear_gate s)"
  by (simp add: flight_inv_def clear_gate_def)

lemma inv_cached: "flight_inv (s\<lparr>fl_cached := a\<rparr>) = flight_inv s"
  by (simp add: flight_inv_def)

lemma inv_release:
  assumes inv: "flight_inv s" and "fl_gate s = None" and "sending (fl_phase s t) = None"
    and "owned ph = None" and "\<And>c. ph \<noteq> Following c"
  shows "flight_inv (set_phase t ph s)"
proof -
  let ?s = "set_phase t ph s"
  have "sending ph = None" using assms(4) by (rule owned_None_sending)
  then have send: "sending (fl_phase ?s u) = sending (fl_phase s u)" for u
    using assms(3) by simp
  have own: "owned (fl_phase ?s u) = (if u = t then None else owned (fl_phase s u))" for u
    using assms(4) by simp
  have foll: "fl_phase ?s u = Following c \<longleftrightarrow> u \<noteq> t \<and> fl_phase s u = Following c" for u c
    using assms(5) by simp
  have sel: "fl_gate ?s = None" "fl_next ?s = fl_next s" "fl_channels ?s = fl_channels s"
    using assms(2) by simp_all
  show ?thesis
    using inv unfolding flight_inv_def own send foll sel
    by (intro conjI) (blast | simp split: if_splits; blast)+
qed

lemma inv_broadcast:
  assumes inv: "flight_inv s" and "sending (fl_phase s t) = Some c"
    and "owned ph = Some c" and "sending ph = None" and "\<And>d. ph \<noteq> Following d"
  shows "flight_inv (set_phase t ph (broadcast c r s))"
proof -
  have own: "owned (fl_phase s t) = Some c" using sending_owned assms(2) by blast
  have same: "owned (fl_phase (set_phase t ph (broadcast c r s)) u) = owned (fl_phase s u)" for u
    using own assms(3) by (simp add: broadcast_def)
  have other: "sending (fl_phase s u) \<noteq> Some c" if "u \<noteq> t" for u
    using that inv own sending_owned unfolding flight_inv_def by blast
  have send: "sending (fl_phase (set_phase t ph (broadcast c r s)) u) = Some d
      \<longleftrightarrow> sending (fl_phase s u) = Some d \<and> d \<noteq> c" for u d
  proof (cases "u = t")
    case True
    then show ?thesis using assms(2,4) by (auto simp: broadcast_def)
  next
    case False
    then show ?thesis using other [OF False] by (auto simp: broadcast_def)
  qed
  have "c < fl_next s" using own inv unfolding flight_inv_def by blast
  then show ?thesis
    using inv assms(5) unfolding flight_inv_def same send
    by (auto simp: broadcast_def)
qed

lemma inv_open:
  assumes inv: "flight_inv s" and "owned (fl_phase s t) = None" and "fl_gate s = None"
  shows "flight_inv (enter_gate t s)"
proof -
  let ?s = "enter_gate t s"
  have fresh: "owned (fl_phase s u) \<noteq> Some (fl_next s)" for u
    using inv unfolding flight_inv_def by blast
  have sel: "fl_next ?s = Suc (fl_next s)" "fl_gate ?s = Some (fl_next s)"
    "fl_channels ?s = (fl_channels s)(fl_next s := \<lparr>ch_value = None, ch_open = True\<rparr>)"
    by (simp_all add: enter_gate_def assms(3))
  have own: "owned (fl_phase ?s u) = (if u = t then Some (fl_next s) else owned (fl_phase s u))"
    and send: "sending (fl_phase ?s u) = (if u = t then Some (fl_next s) else sending (fl_phase s u))"
    and foll: "fl_phase ?s u = Following c \<longleftrightarrow> u \<noteq> t \<and> fl_phase s u = Following c" for u c
    by (simp_all add: enter_gate_def assms(3))
  have none: "sending (fl_phase s t) = None"
    using assms(2) by (rule owned_None_sending)
  show ?thesis
    unfolding flight_inv_def sel own send foll
  proof (intro conjI allI impI)
    fix c assume "c < Suc (fl_next s)"
    then consider "c = fl_next s" | "c < fl_next s" by linarith
    then show "ch_value (((fl_channels s)(fl_next s := \<lparr>ch_value = None, ch_open = True\<rparr>)) c) \<noteq> None
        \<or> (\<exists>u. (if u = t then Some (fl_next s) else sending (fl_phase s u)) = Some c)"
    proof cases
      case 2
      then consider "ch_value (fl_channels s c) \<noteq> None" | u where "sending (fl_phase s u) = Some c"
        using inv unfolding flight_inv_def by blast
      then show ?thesis
      proof cases
        case 2
        then have "u \<noteq> t" using none by auto
        then show ?thesis using 2 by auto
      qed (use \<open>c < fl_next s\<close> in auto)
    qed auto
  qed (use inv fresh none sending_owned in \<open>auto simp: flight_inv_def less_Suc_eq split: if_splits\<close>)
qed

lemma flight_step_inv:
  assumes "flight_step s s'" and "flight_inv s"
  shows "flight_inv s'"
  using assms
proof (cases rule: flight_step.cases)
  case (call t alive)
  then show ?thesis
    using assms(2) by (auto simp: fast_path_def intro!: inv_retain split: option.splits)
next
  case (gate t)
  show ?thesis
  proof (cases "fl_gate s")
    case None
    then show ?thesis using inv_open [of s t] assms(2) gate by simp
  next
    case (Some c)
    then have "c < fl_next s" using assms(2) unfolding flight_inv_def by blast
    then show ?thesis
      using Some assms(2) gate by (auto simp: enter_gate_def intro!: inv_retain)
  qed
next
  case (polled t c r)
  then show ?thesis
    using assms(2) by (auto simp: finish_poll_def inv_cached intro!: inv_retain split: poll_result.splits)
next
  case (complete_send t c r)
  then show ?thesis using assms(2) by (auto intro!: inv_broadcast)
next
  case (complete_clear t c r)
  then show ?thesis
    using inv_clear [OF assms(2)] by (auto simp: clear_gate_def intro!: inv_retain)
next
  case (guard_drop t c r)
  then show ?thesis
    using inv_clear [OF assms(2)] by (auto simp: clear_gate_def intro!: inv_release)
next
  case (cancel t c)
  then show ?thesis using assms(2) by (auto intro!: inv_broadcast)
next
  case (cancel_clear t c)
  then show ?thesis
    using inv_clear [OF assms(2)] by (auto simp: clear_gate_def intro!: inv_release)
qed (auto simp: inv_cached intro!: inv_retain)

lemma flight_reachable_inv: "flight_reachable s \<Longrightarrow> flight_inv s"
  by (induction rule: flight_reachable.induct) (auto intro: flight_init_inv flight_step_inv)

section \<open>No caller is left waiting\<close>

text \<open>
  (C7) Whatever the interleaving of callers, completions and cancellations: a caller that waits
  on a channel finds the result there or some task still holds the channel's sender (so the
  branch that polls afresh after a dropped channel is never taken), and while the gate shows
  a poll in flight a task still answers for it, so the gate cannot stay closed.
\<close>

theorem no_follower_stalls:
  assumes "flight_reachable s"
  shows "(\<forall>t c. fl_phase s t = Following c \<longrightarrow>
            (\<exists>r. ch_value (fl_channels s c) = Some r)
            \<or> (ch_open (fl_channels s c) \<and> (\<exists>u. sending (fl_phase s u) = Some c)))
    \<and> (\<forall>c. fl_gate s = Some c \<longrightarrow> (\<exists>u. owned (fl_phase s u) = Some c))"
  using flight_reachable_inv [OF assms] unfolding flight_inv_def by blast

text \<open>A leader and a follower: two callers with no cached primary.\<close>

definition flight_pair :: flight where
  "flight_pair =
     enter_gate 1 (fast_path 1 False (enter_gate 0 (fast_path 0 False flight_init)))"

lemmas flight_eval = flight_init_def fast_path_def enter_gate_def set_phase_def finish_poll_def
  broadcast_def clear_gate_def

lemma flight_pair_reachable: "flight_reachable flight_pair"
proof -
  have "flight_reachable (fast_path 0 False flight_init)"
    by (rule step [OF start call]) (simp add: flight_eval)
  from step [OF this gate [of _ 0]] have "flight_reachable (enter_gate 0 (fast_path 0 False flight_init))"
    by (simp add: flight_eval)
  from step [OF this call [of _ 1 False]]
  have "flight_reachable (fast_path 1 False (enter_gate 0 (fast_path 0 False flight_init)))"
    by (simp add: flight_eval)
  from step [OF this gate [of _ 1]] show ?thesis
    by (simp add: flight_pair_def flight_eval)
qed

theorem no_follower_stalls_witness:
  "fl_phase flight_pair 1 = Following 0 \<and> (\<exists>u. sending (fl_phase flight_pair u) = Some 0)"
  using no_follower_stalls [OF flight_pair_reachable] by (simp add: flight_pair_def flight_eval)

section \<open>Followers get the leader's result\<close>

text \<open>
  A task holds result \<open>r\<close> for channel \<open>c\<close>, and the channel shows nothing else.
\<close>

definition answered_with :: "nat \<Rightarrow> poll_result \<Rightarrow> flight \<Rightarrow> bool" where
  "answered_with c r s \<longleftrightarrow>
     (\<exists>t. fl_phase s t = Completing c r \<and> ch_value (fl_channels s c) = None)
     \<or> ch_value (fl_channels s c) = Some r"

text \<open>Only the task that holds the sender writes a channel, and only once.\<close>

lemma channel_step:
  assumes "flight_step s s'" and "fl_channels s' c \<noteq> fl_channels s c"
  shows "c = fl_next s \<or> (\<exists>t. sending (fl_phase s t) = Some c
    \<and> (\<forall>r. fl_phase s t = Completing c r \<longrightarrow> ch_value (fl_channels s' c) = Some r))"
  using assms(1)
proof (cases rule: flight_step.cases)
  case (complete_send t d r)
  then have "d = c" using assms(2) by (auto simp: flight_eval split: if_splits)
  then show ?thesis
    using complete_send by (intro disjI2 exI [of _ t]) (simp add: flight_eval)
next
  case (cancel t d)
  then have "d = c" using assms(2) by (auto simp: flight_eval split: if_splits)
  then show ?thesis
    using cancel by (intro disjI2 exI [of _ t]) (simp add: flight_eval)
qed (use assms(2) in \<open>auto simp: flight_eval split: option.splits poll_result.splits if_splits\<close>)

lemma completing_step:
  assumes "flight_step s s'" and "fl_phase s t = Completing c r"
  shows "fl_phase s' t = Completing c r \<or> ch_value (fl_channels s' c) = Some r"
  using assms
  by (cases rule: flight_step.cases)
    (auto simp: flight_eval split: option.splits poll_result.splits)

lemma answered_with_step:
  assumes step: "flight_step s s'" and inv: "flight_inv s" and "answered_with c r s"
  shows "answered_with c r s'"
proof (cases "fl_channels s' c = fl_channels s c")
  case True
  then show ?thesis
    using assms(3) completing_step [OF step, of _ c r] unfolding answered_with_def by metis
next
  case False
  consider (holding) t where "fl_phase s t = Completing c r" | (sent) "ch_value (fl_channels s c) = Some r"
    using assms(3) by (auto simp: answered_with_def)
  then show ?thesis
  proof cases
    case holding
    then have own: "owned (fl_phase s t) = Some c" by simp
    then have "c \<noteq> fl_next s" using inv unfolding flight_inv_def by blast
    then obtain u where u: "sending (fl_phase s u) = Some c"
      "\<forall>r. fl_phase s u = Completing c r \<longrightarrow> ch_value (fl_channels s' c) = Some r"
      using channel_step [OF step False] by blast
    have "u = t" using own sending_owned [OF u(1)] inv unfolding flight_inv_def by blast
    then show ?thesis using u(2) holding by (simp add: answered_with_def)
  next
    case sent
    then have "c < fl_next s" using inv unfolding flight_inv_def by (metis option.distinct(1))
    then obtain u where "sending (fl_phase s u) = Some c"
      using channel_step [OF step False] by blast
    then have "ch_value (fl_channels s c) = None" using inv unfolding flight_inv_def by blast
    then show ?thesis using sent by simp
  qed
qed

inductive flight_steps :: "flight \<Rightarrow> flight \<Rightarrow> bool" where
  refl: "flight_steps s s"
| more: "flight_steps s s' \<Longrightarrow> flight_step s' s'' \<Longrightarrow> flight_steps s s''"

lemma answered_with_steps:
  "flight_steps s s' \<Longrightarrow> flight_reachable s \<Longrightarrow> answered_with c r s
   \<Longrightarrow> flight_reachable s' \<and> answered_with c r s'"
  by (induction rule: flight_steps.induct)
    (auto intro: answered_with_step flight_reachable_inv flight_reachable.step)

text \<open>
  (C8) Followers share the leader's outcome: once the leader of a channel has a poll result,
  in every later state the channel holds that result or nothing yet, so a caller that returns
  from the channel returns the primary the leader found, or the leader's error.
\<close>

theorem followers_share_result:
  assumes "flight_reachable s" and "fl_phase s t = Completing c r" and "flight_steps s s'"
  shows "ch_value (fl_channels s' c) = Some r
    \<or> (ch_value (fl_channels s' c) = None \<and> (\<exists>u. fl_phase s' u = Completing c r))"
proof -
  have "ch_value (fl_channels s c) = None"
    using flight_reachable_inv [OF assms(1)] assms(2) unfolding flight_inv_def
    by (metis sending.simps(2))
  then have "answered_with c r s" using assms(2) by (auto simp: answered_with_def)
  then have "answered_with c r s'" using answered_with_steps [OF assms(3,1)] by blast
  then show ?thesis by (auto simp: answered_with_def)
qed

lemma flight_pair_polled:
  "flight_reachable (finish_poll 0 0 (PollOk ''m2'') flight_pair)"
  by (rule step [OF flight_pair_reachable polled]) (simp add: flight_pair_def flight_eval)

theorem followers_share_result_witness:
  "ch_value (fl_channels (set_phase 0 (Clearing 0 (PollOk ''m2''))
      (broadcast 0 (PollOk ''m2'') (finish_poll 0 0 (PollOk ''m2'') flight_pair))) 0) = Some (PollOk ''m2'')"
proof -
  let ?s = "finish_poll 0 0 (PollOk ''m2'') flight_pair"
  have ph: "fl_phase ?s 0 = Completing 0 (PollOk ''m2'')" by (simp add: flight_pair_def flight_eval)
  show ?thesis
    using followers_share_result [OF flight_pair_polled ph more [OF refl complete_send [OF ph]]]
    by (simp add: broadcast_def)
qed

section \<open>Two polls in flight\<close>

text \<open>One task completes a poll while two others arrive between its two clearings.\<close>

definition flight_overlap :: flight where
  "flight_overlap =
     (let r = PollErr ''none'';
          s1 = enter_gate 0 (fast_path 0 False flight_init);
          s2 = set_phase 0 (Clearing 0 r) (broadcast 0 r (finish_poll 0 0 r s1));
          s3 = set_phase 0 (Dropping 0 r) (clear_gate s2);
          s4 = enter_gate 1 (fast_path 1 False s3);
          s5 = set_phase 0 (Returned (surface r)) (clear_gate s4)
      in enter_gate 2 (fast_path 2 False s5))"

text \<open>
  (C13) \<open>complete\<close> clears the gate, and the \<open>Drop\<close> that runs when it returns clears it again.  A
  caller that became the leader in between loses its gate, and the next caller starts a
  second poll beside it: a reachable state has two polls in flight.
\<close>

theorem two_polls_in_flight:
  "flight_reachable flight_overlap
   \<and> fl_phase flight_overlap 1 = Leading 1 \<and> fl_phase flight_overlap 2 = Leading 2"
proof
  let ?r = "PollErr ''none''"
  have "flight_reachable (fast_path 0 False flight_init)"
    by (rule step [OF start call]) (simp add: flight_eval)
  note s = step [OF this gate [of _ 0]]
  note s = step [OF s polled [of _ 0 0 ?r]]
  note s = step [OF s complete_send [of _ 0 0 ?r]]
  note s = step [OF s complete_clear [of _ 0 0 ?r]]
  note s = step [OF s call [of _ 1 False]]
  note s = step [OF s gate [of _ 1]]
  note s = step [OF s guard_drop [of _ 0 0 ?r]]
  note s = step [OF s call [of _ 2 False]]
  note s = step [OF s gate [of _ 2]]
  show "flight_reachable flight_overlap"
    unfolding flight_overlap_def Let_def by (rule s) (simp_all add: flight_eval)
  show "fl_phase flight_overlap 1 = Leading 1 \<and> fl_phase flight_overlap 2 = Leading 2"
    by (simp add: flight_overlap_def flight_eval)
qed

end
