(* ===== verification/Ieee_Float.thy ===== *)
theory Ieee_Float
  imports Complex_Main "HOL-Library.Log_Nat"
begin

text \<open>
  The binary floating point the sources use: \<open>f32\<close> and \<open>f64\<close> values as rationals (or infinite,
  or not a number) and round-to-nearest-even to the 24 or 53 bits of the format.  The
  exponent range is left unbounded: the sources' operands are byte counts below \<open>2 ^ 63\<close> and
  ratios in the unit interval, whose results are normal numbers of both formats.
\<close>

section \<open>Values and rounding\<close>

datatype ieee = NaN | Infinite bool | Finite rat

definition pow2 :: "int \<Rightarrow> rat" where
  "pow2 e = (if 0 \<le> e then 2 ^ nat e else 1 / 2 ^ nat (- e))"

definition round_half_even :: "rat \<Rightarrow> int" where
  "round_half_even x =
     (let f = \<lfloor>x\<rfloor>; d = x - of_int f
      in if d < 1 / 2 then f else if 1 / 2 < d then f + 1 else if even f then f else f + 1)"

text \<open>The exponent of the leading bit of a positive rational.\<close>

definition binade :: "rat \<Rightarrow> int" where
  "binade x = (case quotient_of x of (n, d) \<Rightarrow>
     let e = bitlen n - bitlen d in if pow2 e \<le> x then e else e - 1)"

definition round_to :: "nat \<Rightarrow> rat \<Rightarrow> rat" where
  "round_to p x =
     (if x = 0 then 0
      else let e = binade \<bar>x\<bar> - (int p - 1) in of_int (round_half_even (x / pow2 e)) * pow2 e)"

abbreviation f32 :: "rat \<Rightarrow> rat" where "f32 \<equiv> round_to 24"
abbreviation f64 :: "rat \<Rightarrow> rat" where "f64 \<equiv> round_to 53"

text \<open>\<open>x as i64\<close> truncates towards zero and saturates.\<close>

definition sat_i64 :: "int \<Rightarrow> int" where
  "sat_i64 i = max (- (2 ^ 63)) (min i (2 ^ 63 - 1))"

section \<open>Rounding is monotone up to a representable bound\<close>

lemma pow2_pos [simp]: "0 < pow2 e"
  by (simp add: pow2_def)

lemma pow2_powi: "pow2 e = 2 powi e"
  by (simp add: pow2_def power_int_def power_one_over)

lemma pow2_add: "pow2 (a + b) = pow2 a * pow2 b"
  unfolding pow2_powi by (rule power_int_add) simp

lemma pow2_diff: "pow2 (a - b) = pow2 a / pow2 b"
  unfolding pow2_powi by (rule power_int_diff) simp

lemma pow2_mono: "a \<le> b \<Longrightarrow> pow2 a \<le> pow2 b"
  unfolding pow2_powi by (rule power_int_increasing) simp_all

lemma pow2_nat: "pow2 (int k) = of_int (2 ^ k)"
  by (simp add: pow2_def)

lemma round_half_even_mono_int:
  assumes "x \<le> of_int k"
  shows "round_half_even x \<le> k"
proof (cases "x = of_int k")
  case True
  then show ?thesis by (simp add: round_half_even_def)
next
  case False
  then have "\<lfloor>x\<rfloor> < k" using assms by (simp add: floor_less_iff)
  then show ?thesis by (auto simp: round_half_even_def Let_def)
qed

lemma round_half_even_ge_int:
  assumes "of_int k \<le> x"
  shows "k \<le> round_half_even x"
  using assms le_floor_iff [of k x] by (auto simp: round_half_even_def Let_def)

lemma bitlen_range:
  assumes "0 < n"
  shows "pow2 (bitlen n - 1) \<le> of_int n" and "of_int n < pow2 (bitlen n)"
proof -
  have "bitlen n \<noteq> 0" using assms by (simp add: bitlen_eq_zero_iff)
  then have len: "1 \<le> bitlen n" using bitlen_nonneg [of n] by linarith
  have "2 ^ nat (bitlen n - 1) \<le> n" "n < 2 ^ nat (bitlen n)"
    using bitlen_bounds [OF assms] by simp_all
  then have "of_int (2 ^ nat (bitlen n - 1)) \<le> (of_int n :: rat)" "(of_int n :: rat) < of_int (2 ^ nat (bitlen n))"
    by (simp_all only: of_int_le_iff of_int_less_iff)
  then show "pow2 (bitlen n - 1) \<le> of_int n" and "of_int n < pow2 (bitlen n)"
    using len by (simp_all add: pow2_def)
qed

lemma binade_bounds:
  assumes "0 < x"
  shows "pow2 (binade x) \<le> x" and "x < pow2 (binade x + 1)"
proof -
  obtain n d where q: "quotient_of x = (n, d)" by (cases "quotient_of x")
  have x: "x = of_int n / of_int d" using q by (rule quotient_of_div)
  have d: "0 < d" using q by (rule quotient_of_denom_pos)
  then have n: "0 < n" using assms x by (simp add: zero_less_divide_iff)
  let ?e = "bitlen n - bitlen d"
  have "x < pow2 (bitlen n) / pow2 (bitlen d - 1)"
    unfolding x using bitlen_range [OF n] bitlen_range [OF d] n d
    by (intro frac_less) simp_all
  then have up: "x < pow2 (?e + 1)"
    by (simp add: algebra_simps flip: pow2_diff)
  have "pow2 (bitlen n - 1) / pow2 (bitlen d) \<le> x"
    unfolding x using bitlen_range [OF n] bitlen_range [OF d] n d
    by (intro frac_le) simp_all
  then have low: "pow2 (?e - 1) \<le> x"
    by (simp add: algebra_simps flip: pow2_diff)
  have b: "binade x = (if pow2 ?e \<le> x then ?e else ?e - 1)"
    by (simp add: binade_def q Let_def)
  show "pow2 (binade x) \<le> x" using low by (simp add: b)
  show "x < pow2 (binade x + 1)" using up by (simp add: b)
qed

text \<open>A value with at most \<open>p\<close> significant bits lies on the grid of every smaller binade.\<close>

definition representable :: "nat \<Rightarrow> rat \<Rightarrow> bool" where
  "representable p y \<longleftrightarrow> (\<exists>m e. y = of_int m * pow2 e \<and> m \<le> 2 ^ p)"

lemma representable_grid:
  assumes "0 < x" and "x \<le> y" and "representable p y" and "0 < p"
  shows "\<exists>k. y = of_int k * pow2 (binade x - (int p - 1))"
proof -
  define g where "g = binade x - (int p - 1)"
  obtain m e where y: "y = of_int m * pow2 e" and m: "m \<le> 2 ^ p"
    using assms(3) by (auto simp: representable_def)
  show ?thesis
  proof (cases "g \<le> e")
    case True
    obtain n where n: "e = int n + g" using True zle_iff_zadd by (metis add.commute)
    have "y = of_int (m * 2 ^ n) * pow2 g"
      by (simp add: y n pow2_add pow2_nat)
    then show ?thesis unfolding g_def by (rule exI)
  next
    case False
    have "of_int m \<le> pow2 (int p)" using m by (simp only: pow2_nat of_int_le_iff)
    then have "y \<le> pow2 (int p) * pow2 e" by (simp add: y)
    also have "\<dots> = pow2 (int p + e)" by (simp add: pow2_add)
    also have "\<dots> \<le> pow2 (binade x)" using False by (intro pow2_mono) (simp add: g_def)
    finally have "y = pow2 (binade x)" using binade_bounds(1) [OF assms(1)] assms(2) by linarith
    also have "\<dots> = pow2 (int (p - 1)) * pow2 g"
      using assms(4) by (simp add: g_def of_nat_diff flip: pow2_add)
    finally have "y = of_int (2 ^ (p - 1)) * pow2 g" by (simp only: pow2_nat)
    then show ?thesis unfolding g_def by (rule exI)
  qed
qed

lemma round_to_le:
  assumes "0 < x" and "x \<le> y" and "representable p y" and "0 < p"
  shows "round_to p x \<le> y"
proof -
  define g where "g = binade x - (int p - 1)"
  obtain k where k: "y = of_int k * pow2 g"
    using representable_grid [OF assms] by (auto simp: g_def)
  have "x / pow2 g \<le> of_int k" using assms(2) by (simp add: k pos_divide_le_eq)
  then have "of_int (round_half_even (x / pow2 g)) * pow2 g \<le> of_int k * pow2 g"
    by (intro mult_right_mono) (simp_all add: round_half_even_mono_int less_imp_le)
  then show ?thesis using assms(1) by (simp add: round_to_def Let_def k flip: g_def)
qed

lemma round_to_exact:
  assumes "0 < y" and "representable p y" and "0 < p"
  shows "round_to p y = y"
proof -
  define g where "g = binade y - (int p - 1)"
  obtain k where k: "y = of_int k * pow2 g"
    using representable_grid [OF assms(1) order_refl assms(2,3)] by (auto simp: g_def)
  have "pow2 g \<noteq> 0" using pow2_pos [of g] by linarith
  then have "y / pow2 g = of_int k" by (simp add: k)
  moreover have "round_half_even (of_int k) = k" by (simp add: round_half_even_def)
  moreover have "round_to p y = of_int (round_half_even (y / pow2 g)) * pow2 g"
    using assms(1) by (simp add: round_to_def Let_def g_def)
  ultimately show ?thesis by (simp only: k)
qed

lemma round_to_pos:
  assumes "0 < x" and "0 < p"
  shows "0 < round_to p x"
proof -
  define g where "g = binade x - (int p - 1)"
  have "pow2 (int (p - 1)) * pow2 g \<le> x"
    using binade_bounds(1) [OF assms(1)] assms(2) by (simp add: g_def of_nat_diff flip: pow2_add)
  then have "of_int (2 ^ (p - 1)) \<le> x / pow2 g"
    by (simp only: pow2_nat pos_le_divide_eq [OF pow2_pos])
  then have "2 ^ (p - 1) \<le> round_half_even (x / pow2 g)" by (rule round_half_even_ge_int)
  then have "0 < round_half_even (x / pow2 g)"
    by (rule less_le_trans [rotated]) simp
  then show ?thesis using assms(1) by (simp add: round_to_def Let_def flip: g_def)
qed

lemma representable_int: "\<bar>n\<bar> \<le> 2 ^ p \<Longrightarrow> representable p (of_int n)"
  unfolding representable_def by (rule exI [of _ n], rule exI [of _ 0]) (simp add: pow2_def)

end
