(* ===== verification/Replica_Write.thy ===== *)
theory Replica_Write
  imports Proto_Types Client_Error Ieee_Float
begin

text \<open>
  Planning of multi-replica writes (\<^verbatim>\<open>src/src/io/replica_write.rs\<close>): how many replicas a block
  is opened with, which workers have room for it, and when a fan-out has failed.  An \<open>i32\<close>
  or \<open>i64\<close> is an integer of its range and a count (\<open>usize\<close>) a natural number; the watermark
  test computes in the floating point of \<open>Ieee_Float\<close>.
\<close>

section \<open>Replica counts\<close>

record replica_write_plan =
  rp_initial_replicas :: nat
  rp_min_needed_replicas :: nat
  rp_max_retry_node :: nat

definition replica_write_plan_of ::
  "bool \<Rightarrow> i32 \<Rightarrow> i32 \<Rightarrow> i32 \<Rightarrow> i32 \<Rightarrow> replica_write_plan result" where
  "replica_write_plan_of async_through number durable durable_min max_node_retry =
     (let replication_number = max number 1;
          replication_durable = max durable 1;
          replication_durable_min = max durable_min 1;
          write_max_node_retry = max max_node_retry 1;
          initial = (if async_through \<and> replication_number < replication_durable
                     then replication_durable else replication_number);
          min_needed = (if async_through then replication_durable_min else initial)
      in if async_through \<and> initial < min_needed
         then Inl (EInvalidArgument
                ''min durable replicas can not be satisfied in ASYNC_THROUGH scenario'')
         else Inr \<lparr>rp_initial_replicas = nat initial, rp_min_needed_replicas = nat min_needed,
                   rp_max_retry_node = nat (max initial write_max_node_retry)\<rparr>)"

definition degrade_replicas :: "bool \<Rightarrow> nat \<Rightarrow> nat \<Rightarrow> nat \<Rightarrow> nat \<times> nat" where
  "degrade_replicas async_through initial min_needed alive =
     (if alive < initial
      then (alive, if async_through then min_needed else alive)
      else (initial, min_needed))"

definition should_abort_remaining :: "nat \<Rightarrow> nat \<Rightarrow> nat \<Rightarrow> bool" where
  "should_abort_remaining failures writer_size min_needed \<longleftrightarrow> writer_size - min_needed < failures"

definition enough_replicas :: "nat \<Rightarrow> nat \<Rightarrow> bool" where
  "enough_replicas success min_needed \<longleftrightarrow> min_needed \<le> success"

section \<open>Workers with room\<close>

text \<open>\<open>1 / 10\<close> below is the \<open>f64\<close> nearest to it.\<close>

definition cache_min_ratio :: "ieee \<Rightarrow> rat" where
  "cache_min_ratio raw = (case raw of
       Finite r \<Rightarrow> if 0 \<le> r \<and> r < 1 then r else f64 (1 / 10)
     | _ \<Rightarrow> f64 (1 / 10))"

definition persist_capacity :: "i64 \<Rightarrow> rat \<Rightarrow> i64" where
  "persist_capacity capacity ratio =
     sat_i64 \<lceil>f64 (f64 (of_int capacity) * f64 (1 - ratio))\<rceil>"

fun at_least :: "rat \<Rightarrow> ieee \<Rightarrow> bool" where
  "at_least x (Finite y) \<longleftrightarrow> y \<le> x"
| "at_least x (Infinite negative) \<longleftrightarrow> negative"
| "at_least x NaN \<longleftrightarrow> False"

definition worker_has_persist_space :: "worker_info \<Rightarrow> i64 \<Rightarrow> ieee \<Rightarrow> rat \<Rightarrow> bool" where
  "worker_has_persist_space worker min_remain_bytes min_remain_ratio ratio =
     (if unwrap_or (w_forbid_write worker) False then False
      else let capacity = unwrap_or (w_capacity_bytes worker) 0
           in if capacity \<le> 0 then False
              else let total = persist_capacity capacity ratio
                   in if total \<le> 0 then False
                      else let used = unwrap_or (w_persist_used_bytes worker) 0;
                               remain = wrap_i64 (total - used)
                           in min_remain_bytes \<le> remain
                              \<and> at_least (f32 (f32 (of_int remain) / f32 (of_int total)))
                                  min_remain_ratio)"

definition filter_no_space_workers ::
  "worker_info list \<Rightarrow> bool \<Rightarrow> nat \<Rightarrow> i64 \<Rightarrow> ieee \<Rightarrow> rat \<Rightarrow> worker_info list" where
  "filter_no_space_workers workers allow_fallback min_needed min_bytes min_ratio ratio =
     (if workers = [] then []
      else let available = filter (\<lambda>w. \<not> unwrap_or (w_forbid_write w) False) workers;
               has_space =
                 filter (\<lambda>w. worker_has_persist_space w min_bytes min_ratio ratio) available
           in if allow_fallback \<and> length has_space < min_needed then available else has_space)"

section \<open>What a plan and its degradation promise\<close>

lemma replica_write_plan_of_cases:
  "replica_write_plan_of async number durable durable_min retry =
     (let initial = (if async then max (max number 1) (max durable 1) else max number 1);
          needed = (if async then max durable_min 1 else initial)
      in if initial < needed
         then Inl (EInvalidArgument
                ''min durable replicas can not be satisfied in ASYNC_THROUGH scenario'')
         else Inr \<lparr>rp_initial_replicas = nat initial, rp_min_needed_replicas = nat needed,
                   rp_max_retry_node = nat (max initial (max retry 1))\<rparr>)"
  by (auto simp: replica_write_plan_of_def Let_def max_def)

text \<open>
  A replica plan exists exactly unless an ASYNC_THROUGH write asks for more durable
  replicas at least than it may have at most, and it always satisfies
  \<open>1 \<le> min_needed \<le> initial \<le> max_retry_node\<close>; degraded to the workers alive it opens at most
  the alive workers, keeps the durable floor of an ASYNC_THROUGH write unchanged, and asks a
  write of another type for exactly the replicas it opens.
\<close>

theorem replica_plan_degrades:
  "case replica_write_plan_of async number durable durable_min retry of
     Inl e \<Rightarrow> async \<and> max (max number durable) 1 < durable_min
   | Inr plan \<Rightarrow>
       \<not> (async \<and> max (max number durable) 1 < durable_min)
       \<and> 1 \<le> rp_min_needed_replicas plan
       \<and> rp_min_needed_replicas plan \<le> rp_initial_replicas plan
       \<and> rp_initial_replicas plan \<le> rp_max_retry_node plan
       \<and> (case degrade_replicas async (rp_initial_replicas plan) (rp_min_needed_replicas plan) alive of
            (initial, needed) \<Rightarrow>
              initial = min (rp_initial_replicas plan) alive
              \<and> needed = (if async then nat (max durable_min 1) else initial))"
  unfolding replica_write_plan_of_cases
  by (cases async) (auto simp: Let_def degrade_replicas_def max_def)

text \<open>
  The fan-out is aborted at the right moment: with \<open>failures\<close> of \<open>writer_size\<close> writers
  failed, the remaining writes are aborted exactly when even their success could not give
  enough replicas any more.
\<close>

theorem abort_iff_hopeless:
  assumes "min_needed \<le> writer_size" and "failures \<le> writer_size"
  shows "should_abort_remaining failures writer_size min_needed
         \<longleftrightarrow> \<not> enough_replicas (writer_size - failures) min_needed"
  using assms by (auto simp: should_abort_remaining_def enough_replicas_def)

theorem abort_iff_hopeless_witness:
  "should_abort_remaining 2 3 2 \<and> \<not> enough_replicas (3 - 2) 2 \<and> \<not> should_abort_remaining 1 3 2"
  using abort_iff_hopeless [of 2 3 2] abort_iff_hopeless [of 2 3 1]
  by (simp add: enough_replicas_def)

section \<open>What the watermark guarantees\<close>

lemma persist_capacity_bounds:
  assumes "0 < capacity" and "capacity \<le> 2 ^ 53" and "0 \<le> ratio" and "ratio < 1"
  shows "1 \<le> persist_capacity capacity ratio" and "persist_capacity capacity ratio \<le> capacity"
proof -
  have rep: "representable 53 (of_int capacity)" "representable 53 1"
    using assms(1,2) representable_int [of capacity 53] representable_int [of 1 53] by simp_all
  have keep: "0 < f64 (1 - ratio)" "f64 (1 - ratio) \<le> 1"
    using assms(3,4) rep(2) by (simp_all add: round_to_pos round_to_le)
  have cap: "f64 (of_int capacity) = of_int capacity"
    using assms(1) rep(1) by (intro round_to_exact) simp_all
  let ?x = "f64 (of_int capacity * f64 (1 - ratio))"
  have prod: "0 < of_int capacity * f64 (1 - ratio)"
      "of_int capacity * f64 (1 - ratio) \<le> of_int capacity"
    using assms(1) keep by (simp_all add: mult_left_le)
  have "0 < ?x" using prod(1) by (intro round_to_pos) simp_all
  moreover have "?x \<le> of_int capacity" using prod rep(1) by (intro round_to_le) simp_all
  ultimately have "1 \<le> \<lceil>?x\<rceil>" "\<lceil>?x\<rceil> \<le> capacity"
    by (simp_all add: ceiling_le_iff int_one_le_iff_zero_less)
  then show "1 \<le> persist_capacity capacity ratio" and "persist_capacity capacity ratio \<le> capacity"
    using assms(2) by (simp_all add: persist_capacity_def cap sat_i64_def)
qed

lemma cache_min_ratio_range: "0 \<le> cache_min_ratio raw \<and> cache_min_ratio raw < 1"
proof -
  have "0 < f64 (1 / 10)" by (simp add: round_to_pos)
  moreover have "representable 53 (1 / 2)"
    unfolding representable_def
    by (rule exI [of _ 1], rule exI [of _ "- 1"]) (simp add: pow2_def)
  then have "f64 (1 / 10) \<le> 1 / 2" by (intro round_to_le) simp_all
  ultimately show ?thesis by (simp add: cache_min_ratio_def split: ieee.splits)
qed

text \<open>
  (C37) The watermark is a real guarantee: whatever the configured ratios, a worker of capacity
  up to \<open>2 ^ 53\<close> bytes that passes it accepts writes and has at least \<open>min_remain_bytes\<close> of
  its capacity not taken by persisted data, rounding of the floating-point product included.
\<close>

theorem persist_space_sound:
  assumes "worker_has_persist_space worker min_bytes min_ratio (cache_min_ratio raw)"
    and "w_capacity_bytes worker = Some capacity" and "capacity \<le> 2 ^ 53"
    and "unwrap_or (w_persist_used_bytes worker) 0 = used" and "0 \<le> used" and "used < 2 ^ 63"
  shows "w_forbid_write worker \<noteq> Some True \<and> used + min_bytes \<le> capacity"
proof -
  have pos: "0 < capacity" and writable: "w_forbid_write worker \<noteq> Some True"
    and remain: "min_bytes \<le> wrap_i64 (persist_capacity capacity (cache_min_ratio raw) - used)"
    using assms(1,2,4) by (auto simp: worker_has_persist_space_def Let_def split: if_splits)
  note bounds = persist_capacity_bounds [OF pos assms(3), of "cache_min_ratio raw"]
  have "wrap_i64 (persist_capacity capacity (cache_min_ratio raw) - used)
      = persist_capacity capacity (cache_min_ratio raw) - used"
    using bounds cache_min_ratio_range [of raw] assms(3,5,6) by (intro wrap_i64_id) simp_all
  then show ?thesis
    using remain writable bounds cache_min_ratio_range [of raw] by simp
qed

definition roomy_worker :: worker_info where
  "roomy_worker = \<lparr>w_id = Some 1, w_address = None, w_capacity_bytes = Some 1024,
     w_persist_used_bytes = Some 256, w_virtual_node_num = None, w_forbid_write = None\<rparr>"

lemma roomy_worker_space:
  "worker_has_persist_space roomy_worker 512 (Finite (1 / 4)) (cache_min_ratio (Finite 0))"
  by code_simp

theorem persist_space_sound_witness:
  "w_forbid_write roomy_worker \<noteq> Some True \<and> 256 + 512 \<le> (1024 :: int)"
  using persist_space_sound [OF roomy_worker_space, of 1024 256]
  by (simp add: roomy_worker_def)

text \<open>
  The worker filter never returns a worker that forbids writes, keeps the order of the
  cluster's list, and leaves out a writable worker without room only if the fall-back does
  not apply; with the fall-back every writable worker is returned when too few have room.
\<close>

theorem filter_no_space_correct:
  fixes workers :: "worker_info list"
  shows "(let room = filter (\<lambda>w. worker_has_persist_space w b q r) workers
     in filter_no_space_workers workers fallback needed b q r
        = (if fallback \<and> length room < needed
           then filter (\<lambda>w. w_forbid_write w \<noteq> Some True) workers else room))"
proof -
  have forbid: "\<not> unwrap_or (w_forbid_write w) False \<longleftrightarrow> w_forbid_write w \<noteq> Some True" for w :: worker_info
    by (cases "w_forbid_write w") auto
  have "worker_has_persist_space w b q r \<Longrightarrow> w_forbid_write w \<noteq> Some True" for w
    by (auto simp: worker_has_persist_space_def)
  then have "filter (\<lambda>w. w_forbid_write w \<noteq> Some True \<and> worker_has_persist_space w b q r) workers
      = filter (\<lambda>w. worker_has_persist_space w b q r) workers"
    by (intro filter_cong) auto
  then show ?thesis
    by (simp add: filter_no_space_workers_def Let_def forbid conj_commute)
qed

end
