(* ===== verification/Hash_Ring.thy ===== *)
theory Hash_Ring
  imports Proto_Types Client_Error Murmur3
begin

text \<open>
  The consistent-hash ring of the worker router and the selections made from it
  (\<^verbatim>\<open>src/src/block/router.rs\<close>, the free-standing functions).  The ring is the sorted vector
  of \<open>(hash, worker index)\<close> pairs that \<open>build_hash_ring\<close> reads off a \<open>BTreeMap\<close>; hashes are
  \<open>i64\<close> values in their signed order, worker indices natural numbers.
\<close>

type_synonym ring = "(i64 \<times> nat) list"

definition VIRTUAL_NODES_PER_WORKER :: i32 where
  "VIRTUAL_NODES_PER_WORKER = 5000"

definition DEFAULT_HASH_POLICY_MAX_ATTEMPTS :: nat where
  "DEFAULT_HASH_POLICY_MAX_ATTEMPTS = 100"

section \<open>Address texts\<close>

definition worker_addr_key :: "worker_net_address \<Rightarrow> string" where
  "worker_addr_key addr =
     unwrap_or (a_host addr) ''unknown'' @ '':'' @ show_int (unwrap_or (a_rpc_port addr) 0)"

definition rpc_endpoint :: "worker_net_address \<Rightarrow> string" where
  "rpc_endpoint addr =
     unwrap_or (a_host addr) ''127.0.0.1'' @ '':'' @ show_int (unwrap_or (a_rpc_port addr) 9203)"

section \<open>Building the ring\<close>

definition murmur3_guava_long_int :: "i64 \<Rightarrow> i32 \<Rightarrow> i64" where
  "murmur3_guava_long_int key index = murmur3_128_as_long_put_long_int key index"

text \<open>\<open>BTreeMap::insert\<close> on the sorted list of its entries.\<close>

fun ring_insert :: "i64 \<Rightarrow> nat \<Rightarrow> ring \<Rightarrow> ring" where
  "ring_insert h i [] = [(h, i)]"
| "ring_insert h i ((k, j) # ring) =
     (if h < k then (h, i) # (k, j) # ring
      else if h = k then (h, i) # ring
      else (k, j) # ring_insert h i ring)"

text \<open>\<open>as u32\<close> of the configured number, and \<open>as i32\<close> of a virtual node index.\<close>

definition virtual_nodes :: "worker_info \<Rightarrow> nat" where
  "virtual_nodes worker =
     unat (word_of_int (unwrap_or (w_virtual_node_num worker) VIRTUAL_NODES_PER_WORKER) :: u32)"

definition vn_hash :: "i64 \<Rightarrow> nat \<Rightarrow> i64" where
  "vn_hash worker_id vn = murmur3_guava_long_int worker_id (sint (of_nat vn :: u32))"

definition ring_worker_id :: "nat \<Rightarrow> worker_info \<Rightarrow> i64" where
  "ring_worker_id idx worker = unwrap_or (w_id worker) (int idx)"

definition add_worker :: "ring \<Rightarrow> nat \<times> worker_info \<Rightarrow> ring" where
  "add_worker ring = (\<lambda>(idx, worker).
     foldl (\<lambda>r vn. ring_insert (vn_hash (ring_worker_id idx worker) vn) idx r) ring
       [0..<virtual_nodes worker])"

definition build_hash_ring :: "worker_info list \<Rightarrow> ring" where
  "build_hash_ring workers = foldl add_worker [] (enumerate 0 workers)"

section \<open>Looking a hash up\<close>

text \<open>
  \<open>slice::binary_search_by_key\<close> on a range of the vector: the index of a match, or the index
  at which the target could be inserted.
\<close>

datatype search = Hit nat | Miss nat

function binary_search :: "ring \<Rightarrow> i64 \<Rightarrow> nat \<Rightarrow> nat \<Rightarrow> search" where
  "binary_search ring target lo hi =
     (if hi \<le> lo then Miss lo
      else let mid = (lo + hi) div 2; k = fst (ring ! mid)
           in if k = target then Hit mid
              else if k < target then binary_search ring target (Suc mid) hi
              else binary_search ring target lo mid)"
  by pat_completeness auto
termination
  by (relation "measure (\<lambda>(_, _, lo, hi). hi - lo)") auto

declare binary_search.simps [simp del]

definition ring_ceiling_worker_index :: "ring \<Rightarrow> i64 \<Rightarrow> nat option" where
  "ring_ceiling_worker_index ring target =
     (if ring = [] then None
      else case binary_search ring target 0 (length ring) of
             Hit i \<Rightarrow> Some (snd (ring ! i))
           | Miss i \<Rightarrow> if i < length ring then Some (snd (ring ! i)) else Some (snd (ring ! 0)))"

section \<open>Selecting workers\<close>

text \<open>
  The loops run while fewer than all workers were visited and attempts remain; the first
  argument counts the attempts left of \<open>DEFAULT_HASH_POLICY_MAX_ATTEMPTS\<close>.
\<close>

fun select_loop ::
  "nat \<Rightarrow> i64 \<Rightarrow> worker_info list \<Rightarrow> ring \<Rightarrow> bool \<Rightarrow> (string \<Rightarrow> bool) \<Rightarrow> nat set
   \<Rightarrow> worker_info option" where
  "select_loop 0 block_id workers ring skip_failed is_failed visited = None"
| "select_loop (Suc left) block_id workers ring skip_failed is_failed visited =
     (if card visited < length workers
      then let attempts = int (DEFAULT_HASH_POLICY_MAX_ATTEMPTS - Suc left);
               target = murmur3_guava_long_int block_id attempts
           in case ring_ceiling_worker_index ring target of
                None \<Rightarrow> None
              | Some worker_idx \<Rightarrow>
                  let visited = insert worker_idx visited;
                      next = select_loop left block_id workers ring skip_failed is_failed visited
                  in if worker_idx < length workers
                     then let w = workers ! worker_idx
                          in if \<not> skip_failed then Some w
                             else case w_address w of
                                    Some addr \<Rightarrow>
                                      if \<not> is_failed (worker_addr_key addr) then Some w else next
                                  | None \<Rightarrow> next
                     else next
      else None)"

definition consistent_hash_select_from_ring ::
  "i64 \<Rightarrow> worker_info list \<Rightarrow> ring \<Rightarrow> bool \<Rightarrow> (string \<Rightarrow> bool) \<Rightarrow> worker_info option" where
  "consistent_hash_select_from_ring block_id workers ring skip_failed is_failed =
     (if ring = [] \<or> workers = [] then None
      else select_loop DEFAULT_HASH_POLICY_MAX_ATTEMPTS block_id workers ring skip_failed
             is_failed {})"

record selection =
  sel_workers :: "worker_info list"
  sel_hosts :: "string set"
  sel_idxs :: "nat set"

definition take_worker :: "nat \<Rightarrow> worker_info \<Rightarrow> string \<Rightarrow> selection \<Rightarrow> selection" where
  "take_worker idx w host sel =
     \<lparr>sel_workers = sel_workers sel @ [w],
      sel_hosts = (if host \<noteq> [] then insert host (sel_hosts sel) else sel_hosts sel),
      sel_idxs = insert idx (sel_idxs sel)\<rparr>"

text \<open>One candidate: the \<open>continue\<close>s of the loop leave the selection as it is.\<close>

definition consider_worker ::
  "worker_info list \<Rightarrow> bool \<Rightarrow> (string \<Rightarrow> bool) \<Rightarrow> nat \<Rightarrow> selection \<Rightarrow> selection" where
  "consider_worker workers skip_failed is_failed worker_idx sel =
     (if worker_idx \<in> sel_idxs sel then sel
      else if worker_idx < length workers
      then let w = workers ! worker_idx
           in case w_address w of
                None \<Rightarrow> sel
              | Some addr \<Rightarrow>
                  if skip_failed \<and> is_failed (worker_addr_key addr) then sel
                  else let host = unwrap_or (a_host addr) []
                       in if host \<noteq> [] \<and> host \<in> sel_hosts sel then sel
                          else take_worker worker_idx w host sel
      else sel)"

fun select_n_loop ::
  "nat \<Rightarrow> i64 \<Rightarrow> worker_info list \<Rightarrow> ring \<Rightarrow> nat \<Rightarrow> bool \<Rightarrow> (string \<Rightarrow> bool) \<Rightarrow> nat set
   \<Rightarrow> selection \<Rightarrow> selection" where
  "select_n_loop 0 block_id workers ring count skip_failed is_failed visited sel = sel"
| "select_n_loop (Suc left) block_id workers ring count skip_failed is_failed visited sel =
     (if length (sel_workers sel) < count \<and> card visited < length workers
      then let attempts = int (DEFAULT_HASH_POLICY_MAX_ATTEMPTS - Suc left);
               target = murmur3_guava_long_int block_id attempts
           in case ring_ceiling_worker_index ring target of
                None \<Rightarrow> sel
              | Some worker_idx \<Rightarrow>
                  select_n_loop left block_id workers ring count skip_failed is_failed
                    (insert worker_idx visited)
                    (consider_worker workers skip_failed is_failed worker_idx sel)
      else sel)"

definition consistent_hash_select_n_from_ring ::
  "i64 \<Rightarrow> worker_info list \<Rightarrow> ring \<Rightarrow> nat \<Rightarrow> bool \<Rightarrow> (string \<Rightarrow> bool) \<Rightarrow> worker_info list" where
  "consistent_hash_select_n_from_ring block_id workers ring count skip_failed is_failed =
     (if count = 0 \<or> ring = [] \<or> workers = [] then []
      else sel_workers (select_n_loop DEFAULT_HASH_POLICY_MAX_ATTEMPTS block_id workers ring count
             skip_failed is_failed {} \<lparr>sel_workers = [], sel_hosts = {}, sel_idxs = {}\<rparr>))"

text \<open>The workers that hold a block according to the master, in the order of the locations.\<close>

fun locations_loop ::
  "worker_info list \<Rightarrow> nat \<Rightarrow> (string \<Rightarrow> bool) \<Rightarrow> block_location list \<Rightarrow> i64 set \<Rightarrow> worker_info list
   \<Rightarrow> worker_info list" where
  "locations_loop workers count is_failed [] seen selected = selected"
| "locations_loop workers count is_failed (loc # locs) seen selected =
     (case bl_worker_id loc of
        None \<Rightarrow> locations_loop workers count is_failed locs seen selected
      | Some wid \<Rightarrow>
          if wid \<in> seen then locations_loop workers count is_failed locs seen selected
          else (case find (\<lambda>w. w_id w = Some wid) workers of
                  None \<Rightarrow> locations_loop workers count is_failed locs (insert wid seen) selected
                | Some w \<Rightarrow>
                    (case w_address w of
                       None \<Rightarrow> locations_loop workers count is_failed locs (insert wid seen) selected
                     | Some addr \<Rightarrow>
                         if is_failed (worker_addr_key addr)
                         then locations_loop workers count is_failed locs (insert wid seen) selected
                         else if count \<le> length (selected @ [w]) then selected @ [w]
                         else locations_loop workers count is_failed locs (insert wid seen)
                                (selected @ [w]))))"

definition workers_from_block_locations ::
  "worker_info list \<Rightarrow> block_location list \<Rightarrow> nat \<Rightarrow> (string \<Rightarrow> bool) \<Rightarrow> worker_info list" where
  "workers_from_block_locations workers locations count is_failed =
     (if locations = [] \<or> count = 0 then []
      else locations_loop workers count is_failed locations {} [])"

definition read_worker_candidate_count :: "i32 \<Rightarrow> i32 \<Rightarrow> nat" where
  "read_worker_candidate_count replication max_retry_node =
     nat (max (max replication max_retry_node) 1)"

section \<open>The ring as a sorted map\<close>

definition strict_ring :: "ring \<Rightarrow> bool" where
  "strict_ring ring \<longleftrightarrow> sorted_wrt (<) (map fst ring)"

lemma ring_insert_keys: "fst ` set (ring_insert h i ring) = insert h (fst ` set ring)"
  by (induction h i ring rule: ring_insert.induct) auto

lemma ring_insert_strict: "strict_ring ring \<Longrightarrow> strict_ring (ring_insert h i ring)"
  unfolding strict_ring_def
proof (induction h i ring rule: ring_insert.induct)
  case (2 h i k j ring)
  have "fst ` set (ring_insert h i ring) = insert h (fst ` set ring)" by (rule ring_insert_keys)
  then have "\<forall>x \<in> set (map fst (ring_insert h i ring)). k < x" if "k < h"
    using 2 that by auto
  then show ?case using 2 by auto
qed simp

lemma map_of_ring_insert: "map_of (ring_insert h i ring) = (map_of ring)(h \<mapsto> i)"
  by (induction h i ring rule: ring_insert.induct) (auto simp: fun_upd_twist)

lemma ring_insert_indices: "snd ` set (ring_insert h i ring) \<subseteq> insert i (snd ` set ring)"
  by (induction h i ring rule: ring_insert.induct) auto

lemma ring_insert_ne [simp]: "ring_insert h i ring \<noteq> []"
  by (induction h i ring rule: ring_insert.induct) auto

text \<open>Worker \<open>w\<close> at position \<open>idx\<close> has a virtual node with hash \<open>h\<close>.\<close>

definition has_node :: "nat \<Rightarrow> worker_info \<Rightarrow> i64 \<Rightarrow> bool" where
  "has_node idx w h \<longleftrightarrow> (\<exists>vn < virtual_nodes w. vn_hash (ring_worker_id idx w) vn = h)"

lemma insert_fold:
  "strict_ring ring \<Longrightarrow> strict_ring (foldl (\<lambda>r vn. ring_insert (f vn) idx r) ring vns)"
  "map_of (foldl (\<lambda>r vn. ring_insert (f vn) idx r) ring vns) h
     = (if h \<in> f ` set vns then Some idx else map_of ring h)"
  "foldl (\<lambda>r vn. ring_insert (f vn) idx r) ring vns = [] \<longleftrightarrow> ring = [] \<and> vns = []"
  by (induction vns arbitrary: ring) (auto simp: ring_insert_strict map_of_ring_insert)

lemma add_worker_strict: "strict_ring ring \<Longrightarrow> strict_ring (add_worker ring (idx, w))"
  by (simp add: add_worker_def insert_fold)

lemma map_of_add_worker:
  "map_of (add_worker ring (idx, w)) h = (if has_node idx w h then Some idx else map_of ring h)"
  by (auto simp: add_worker_def insert_fold has_node_def)

lemma add_worker_empty: "add_worker ring (idx, w) = [] \<longleftrightarrow> ring = [] \<and> virtual_nodes w = 0"
  by (simp add: add_worker_def insert_fold)

lemma build_hash_ring_snoc:
  "build_hash_ring (ws @ [w]) = add_worker (build_hash_ring ws) (length ws, w)"
  by (simp add: build_hash_ring_def enumerate_append_eq)

lemma build_hash_ring_Nil [simp]: "build_hash_ring [] = []"
  by (simp add: build_hash_ring_def)

lemma build_hash_ring_strict: "strict_ring (build_hash_ring ws)"
  by (induction ws rule: rev_induct)
    (simp_all add: build_hash_ring_snoc add_worker_strict, simp add: strict_ring_def)

lemma build_hash_ring_empty_iff: "build_hash_ring ws = [] \<longleftrightarrow> (\<forall>w \<in> set ws. virtual_nodes w = 0)"
  by (induction ws rule: rev_induct) (auto simp: build_hash_ring_snoc add_worker_empty)

lemma map_of_build_hash_ring:
  "map_of (build_hash_ring ws) h = Some idx \<longleftrightarrow>
     idx < length ws \<and> has_node idx (ws ! idx) h
     \<and> (\<forall>j. idx < j \<longrightarrow> j < length ws \<longrightarrow> \<not> has_node j (ws ! j) h)"
proof (induction ws rule: rev_induct)
  case Nil
  then show ?case by simp
next
  case (snoc w ws)
  show ?case
  proof (cases "has_node (length ws) w h")
    case True
    then show ?thesis
      by (auto simp: build_hash_ring_snoc map_of_add_worker nth_append less_Suc_eq)
  next
    case False
    then show ?thesis
      using snoc by (auto simp: build_hash_ring_snoc map_of_add_worker nth_append less_Suc_eq)
  qed
qed

lemma build_hash_ring_index:
  assumes "(h, idx) \<in> set (build_hash_ring ws)"
  shows "idx < length ws"
proof -
  have "distinct (map fst (build_hash_ring ws))"
    using build_hash_ring_strict [of ws] strict_sorted_iff unfolding strict_ring_def by blast
  then have "map_of (build_hash_ring ws) h = Some idx" using assms by simp
  then show ?thesis by (simp add: map_of_build_hash_ring)
qed

section \<open>The ceiling of a hash\<close>

text \<open>
  The specification: the first entry at or above the target, and the first entry of the ring
  when there is none.
\<close>

definition ceiling_entry :: "ring \<Rightarrow> i64 \<Rightarrow> nat option" where
  "ceiling_entry ring target = map_option snd (find (\<lambda>(h, _). target \<le> h) ring)"

definition ring_ceiling :: "ring \<Rightarrow> i64 \<Rightarrow> nat" where
  "ring_ceiling ring target =
     (case ceiling_entry ring target of Some i \<Rightarrow> i | None \<Rightarrow> snd (hd ring))"

lemma find_at:
  assumes "i < length xs" and "P (xs ! i)" and "\<forall>j < i. \<not> P (xs ! j)"
  shows "find P xs = Some (xs ! i)"
  using assms by (auto simp: find_Some_iff)

lemma strict_ring_nth:
  "strict_ring ring \<Longrightarrow> i < j \<Longrightarrow> j < length ring \<Longrightarrow> fst (ring ! i) < fst (ring ! j)"
  by (auto simp: strict_ring_def sorted_wrt_iff_nth_less)

lemma binary_search_correct:
  assumes "strict_ring ring" and "hi \<le> length ring" and "lo \<le> hi"
    and "\<forall>j < lo. fst (ring ! j) < target"
    and "\<forall>j < length ring. hi \<le> j \<longrightarrow> target < fst (ring ! j)"
  shows "case binary_search ring target lo hi of
      Hit i \<Rightarrow> i < length ring \<and> fst (ring ! i) = target
    | Miss i \<Rightarrow> i \<le> length ring \<and> (\<forall>j < i. fst (ring ! j) < target)
               \<and> (\<forall>j < length ring. i \<le> j \<longrightarrow> target < fst (ring ! j))"
  using assms
proof (induction ring target lo hi rule: binary_search.induct)
  case (1 ring target lo hi)
  define mid where "mid = (lo + hi) div 2"
  show ?case
  proof (cases "hi \<le> lo")
    case True
    then show ?thesis using 1 by (subst binary_search.simps) auto
  next
    case False
    then have mid: "lo \<le> mid" "mid < hi" "mid < length ring" using 1 by (auto simp: mid_def)
    have below: "\<forall>j < Suc mid. fst (ring ! j) \<le> fst (ring ! mid)"
      using strict_ring_nth [OF 1(3), of _ mid] mid by (force simp: less_Suc_eq)
    have above: "\<forall>j < length ring. mid \<le> j \<longrightarrow> fst (ring ! mid) \<le> fst (ring ! j)"
      using strict_ring_nth [OF 1(3), of mid] by (force simp: le_less)
    have unfold: "binary_search ring target lo hi =
        (if fst (ring ! mid) = target then Hit mid
         else if fst (ring ! mid) < target then binary_search ring target (Suc mid) hi
         else binary_search ring target lo mid)"
      using False by (subst binary_search.simps) (simp add: Let_def mid_def)
    consider "fst (ring ! mid) = target" | "fst (ring ! mid) < target" | "target < fst (ring ! mid)"
      by linarith
    then show ?thesis
    proof cases
      case 1
      then show ?thesis using mid by (simp add: unfold)
    next
      case 2
      then have "\<forall>j < Suc mid. fst (ring ! j) < target" using below by force
      then show ?thesis
        using "1.IH"(1) [OF False mid_def refl] 2 mid 1(3,4) "1.prems"(5) by (simp add: unfold)
    next
      case 3
      then have "\<forall>j < length ring. mid \<le> j \<longrightarrow> target < fst (ring ! j)" using above by force
      moreover have "binary_search ring target lo hi = binary_search ring target lo mid"
        using 3 by (simp add: unfold)
      ultimately show ?thesis
        using "1.IH"(2) [OF False mid_def refl] 3 mid 1(3) "1.prems"(4) by simp
    qed
  qed
qed

lemma ring_ceiling_worker_index_correct:
  assumes "strict_ring ring" and "ring \<noteq> []"
  shows "ring_ceiling_worker_index ring target = Some (ring_ceiling ring target)"
proof (cases "binary_search ring target 0 (length ring)")
  case (Hit i)
  then have i: "i < length ring" "fst (ring ! i) = target"
    using binary_search_correct [OF assms(1), of "length ring" 0 target] by auto
  then have "find (\<lambda>(h, _). target \<le> h) ring = Some (ring ! i)"
    using strict_ring_nth [OF assms(1), of _ i] by (intro find_at) (auto simp: case_prod_beta not_le)
  then show ?thesis
    using Hit assms(2) by (simp add: ring_ceiling_worker_index_def ring_ceiling_def ceiling_entry_def)
next
  case (Miss i)
  then have i: "\<forall>j < i. fst (ring ! j) < target" "\<forall>j < length ring. i \<le> j \<longrightarrow> target < fst (ring ! j)"
      "i \<le> length ring"
    using binary_search_correct [OF assms(1), of "length ring" 0 target] by auto
  show ?thesis
  proof (cases "i < length ring")
    case True
    then have "find (\<lambda>(h, _). target \<le> h) ring = Some (ring ! i)"
      using i by (intro find_at) (auto simp: case_prod_beta not_le)
    then show ?thesis
      using Miss True assms(2)
      by (simp add: ring_ceiling_worker_index_def ring_ceiling_def ceiling_entry_def)
  next
    case False
    then have "find (\<lambda>(h, _). target \<le> h) ring = None"
      using i by (auto simp: find_None_iff in_set_conv_nth case_prod_beta not_le)
    then show ?thesis
      using Miss False assms(2)
      by (simp add: ring_ceiling_worker_index_def ring_ceiling_def ceiling_entry_def hd_conv_nth)
  qed
qed

lemma ring_ceiling_least:
  assumes "strict_ring ring" and "ring \<noteq> []"
  shows "\<exists>h. (h, ring_ceiling ring t) \<in> set ring
    \<and> ((t \<le> h \<and> (\<forall>k \<in> fst ` set ring. t \<le> k \<longrightarrow> h \<le> k))
       \<or> ((\<forall>k \<in> fst ` set ring. k < t) \<and> (\<forall>k \<in> fst ` set ring. h \<le> k)))"
proof (cases "find (\<lambda>(h, _). t \<le> h) ring")
  case None
  have "fst (hd ring) \<le> k" if "k \<in> fst ` set ring" for k
    using that assms by (cases ring) (auto simp: strict_ring_def less_imp_le)
  moreover have "\<forall>k \<in> fst ` set ring. k < t" using None by (auto simp: find_None_iff)
  moreover have "(fst (hd ring), ring_ceiling ring t) \<in> set ring"
    using None assms(2) by (simp add: ring_ceiling_def ceiling_entry_def)
  ultimately show ?thesis by blast
next
  case (Some e)
  then obtain i where i: "i < length ring" "t \<le> fst (ring ! i)" "e = ring ! i"
      "\<forall>j < i. fst (ring ! j) < t"
    by (auto simp: find_Some_iff case_prod_beta not_le)
  have "fst (ring ! i) \<le> k" if key: "k \<in> fst ` set ring" and tk: "t \<le> k" for k
  proof -
    obtain e' where "e' \<in> set ring" "k = fst e'" using key by blast
    then obtain j where j: "j < length ring" "k = fst (ring ! j)"
      by (auto simp: in_set_conv_nth)
    then have "\<not> j < i" using i(4) tk by auto
    then show ?thesis using strict_ring_nth [OF assms(1), of i j] j by (cases "i = j") auto
  qed
  moreover have "(fst (ring ! i), ring_ceiling ring t) \<in> set ring"
    using Some i by (simp add: ring_ceiling_def ceiling_entry_def)
  ultimately show ?thesis using i(2) by blast
qed

lemma ceiling_entry_insert:
  "ceiling_entry (ring_insert h i ring) t \<in> {ceiling_entry ring t, Some i}"
  by (induction h i ring rule: ring_insert.induct) (auto simp: ceiling_entry_def)

lemma ring_ceiling_insert:
  assumes "ring \<noteq> []"
  shows "ring_ceiling (ring_insert h i ring) t \<in> {ring_ceiling ring t, i}"
proof -
  have "snd (hd (ring_insert h i ring)) \<in> {snd (hd ring), i}"
    using assms by (cases ring) auto
  then show ?thesis
    using ceiling_entry_insert [of h i ring t] by (auto simp: ring_ceiling_def split: option.splits)
qed

lemma ring_ceiling_fold:
  "ring \<noteq> [] \<Longrightarrow>
   ring_ceiling (foldl (\<lambda>r vn. ring_insert (f vn) i r) ring vns) t \<in> {ring_ceiling ring t, i}"
proof (induction vns arbitrary: ring)
  case (Cons vn vns)
  have "ring_ceiling (foldl (\<lambda>r vn. ring_insert (f vn) i r) (ring_insert (f vn) i ring) vns) t
      \<in> {ring_ceiling (ring_insert (f vn) i ring) t, i}"
    by (rule Cons.IH) simp
  moreover have "ring_ceiling (ring_insert (f vn) i ring) t \<in> {ring_ceiling ring t, i}"
    using Cons.prems by (rule ring_ceiling_insert)
  ultimately show ?case by auto
qed simp

lemma add_worker_ceiling:
  "ring \<noteq> [] \<Longrightarrow> ring_ceiling (add_worker ring (idx, w)) t \<in> {ring_ceiling ring t, idx}"
  unfolding add_worker_def prod.case by (rule ring_ceiling_fold)

section \<open>Which worker a hash belongs to\<close>

lemma lookup_build:
  "build_hash_ring ws \<noteq> [] \<Longrightarrow>
   ring_ceiling_worker_index (build_hash_ring ws) t = Some (ring_ceiling (build_hash_ring ws) t)"
  by (rule ring_ceiling_worker_index_correct [OF build_hash_ring_strict])

text \<open>The hashes of all virtual nodes of a worker list.\<close>

definition node_hashes :: "worker_info list \<Rightarrow> i64 set" where
  "node_hashes ws = {h. \<exists>i < length ws. has_node i (ws ! i) h}"

lemma keys_build: "fst ` set (build_hash_ring ws) = node_hashes ws"
proof -
  have "h \<in> node_hashes ws \<longleftrightarrow> map_of (build_hash_ring ws) h \<noteq> None" for h
  proof (induction ws rule: rev_induct)
    case Nil
    then show ?case by (simp add: node_hashes_def)
  next
    case (snoc w ws)
    then show ?case
      by (auto simp: node_hashes_def build_hash_ring_snoc map_of_add_worker nth_append less_Suc_eq)
  qed
  then show ?thesis by (auto simp: map_of_eq_None_iff)
qed

text \<open>
  (C16) The ring lookup is consistent hashing: when some worker has a virtual node, the binary
  search on the prebuilt ring returns the worker that owns the next virtual node clockwise,
  the least hash at or above the target or else the least hash of all; of several workers
  with that hash it is the last in the list.
\<close>

theorem ring_lookup_correct:
  assumes "\<exists>w \<in> set ws. virtual_nodes w \<noteq> 0"
  shows "\<exists>h idx. ring_ceiling_worker_index (build_hash_ring ws) t = Some idx
    \<and> h \<in> node_hashes ws
    \<and> ((t \<le> h \<and> (\<forall>k \<in> node_hashes ws. t \<le> k \<longrightarrow> h \<le> k))
       \<or> ((\<forall>k \<in> node_hashes ws. k < t) \<and> (\<forall>k \<in> node_hashes ws. h \<le> k)))
    \<and> idx < length ws \<and> has_node idx (ws ! idx) h
    \<and> (\<forall>j. idx < j \<longrightarrow> j < length ws \<longrightarrow> \<not> has_node j (ws ! j) h)"
proof -
  let ?ring = "build_hash_ring ws"
  have ne: "?ring \<noteq> []" using assms by (auto simp: build_hash_ring_empty_iff)
  obtain h where h: "(h, ring_ceiling ?ring t) \<in> set ?ring"
    "(t \<le> h \<and> (\<forall>k \<in> node_hashes ws. t \<le> k \<longrightarrow> h \<le> k))
       \<or> ((\<forall>k \<in> node_hashes ws. k < t) \<and> (\<forall>k \<in> node_hashes ws. h \<le> k))"
    using ring_ceiling_least [OF build_hash_ring_strict ne, of t] unfolding keys_build by blast
  have "h \<in> node_hashes ws" using h(1) unfolding keys_build [symmetric] by force
  moreover have "map_of ?ring h = Some (ring_ceiling ?ring t)"
    using h(1) build_hash_ring_strict [of ws] strict_sorted_iff
    unfolding strict_ring_def by (intro map_of_is_SomeI) blast+
  then have "ring_ceiling ?ring t < length ws \<and> has_node (ring_ceiling ?ring t) (ws ! ring_ceiling ?ring t) h
      \<and> (\<forall>j. ring_ceiling ?ring t < j \<longrightarrow> j < length ws \<longrightarrow> \<not> has_node j (ws ! j) h)"
    unfolding map_of_build_hash_ring .
  ultimately show ?thesis using lookup_build [OF ne] h(2) by blast
qed

definition sample_worker :: "i64 \<Rightarrow> string \<Rightarrow> worker_info" where
  "sample_worker wid host =
     \<lparr>w_id = Some wid, w_address = Some \<lparr>a_host = Some host, a_rpc_port = Some 9203\<rparr>,
      w_capacity_bytes = Some 1024, w_persist_used_bytes = Some 0,
      w_virtual_node_num = Some 2, w_forbid_write = Some False\<rparr>"

lemma virtual_nodes_sample [simp]: "virtual_nodes (sample_worker wid host) = 2"
  by (simp add: virtual_nodes_def sample_worker_def)

theorem ring_lookup_correct_witness:
  "\<exists>idx. ring_ceiling_worker_index (build_hash_ring [sample_worker 1 ''a'', sample_worker 2 ''b'']) 5
         = Some idx \<and> idx < 2"
  using ring_lookup_correct [of "[sample_worker 1 ''a'', sample_worker 2 ''b'']" 5] by auto

text \<open>
  (C17) Adding a worker moves as little as it can: for every hash the ring over the longer list
  gives the worker it gave before, or the new one.
\<close>

theorem ring_growth_minimal:
  assumes "\<exists>w \<in> set ws. virtual_nodes w \<noteq> 0"
  shows "ring_ceiling_worker_index (build_hash_ring (ws @ [w])) t
    \<in> {ring_ceiling_worker_index (build_hash_ring ws) t, Some (length ws)}"
proof -
  have ne: "build_hash_ring ws \<noteq> []" using assms by (auto simp: build_hash_ring_empty_iff)
  then have "build_hash_ring (ws @ [w]) \<noteq> []" by (simp add: build_hash_ring_snoc add_worker_empty)
  from lookup_build [OF this, of t] lookup_build [OF ne, of t] show ?thesis
    using add_worker_ceiling [OF ne, of "length ws" w t] by (auto simp: build_hash_ring_snoc)
qed

theorem ring_growth_minimal_witness:
  "ring_ceiling_worker_index (build_hash_ring [sample_worker 1 ''a'', sample_worker 2 ''b'']) 5
     \<in> {ring_ceiling_worker_index (build_hash_ring [sample_worker 1 ''a'']) 5, Some 1}"
  using ring_growth_minimal [of "[sample_worker 1 ''a'']" "sample_worker 2 ''b''" 5] by simp

section \<open>What the selections return\<close>

text \<open>The worker has an address, and one that is not failed when failed workers are skipped.\<close>

definition eligible :: "bool \<Rightarrow> (string \<Rightarrow> bool) \<Rightarrow> worker_info \<Rightarrow> bool" where
  "eligible skip_failed is_failed w \<longleftrightarrow>
     (\<exists>addr. w_address w = Some addr \<and> \<not> (skip_failed \<and> is_failed (worker_addr_key addr)))"

definition host_of :: "worker_info \<Rightarrow> string" where
  "host_of w = (case w_address w of None \<Rightarrow> [] | Some addr \<Rightarrow> unwrap_or (a_host addr) [])"

lemma select_loop_sound:
  "select_loop left b ws ring True f visited = Some w \<Longrightarrow> w \<in> set ws \<and> eligible True f w"
  by (induction left arbitrary: visited)
    (auto simp: Let_def eligible_def split: if_splits option.splits)

lemma select_from_ring_sound:
  "consistent_hash_select_from_ring b ws ring True f = Some w \<Longrightarrow> w \<in> set ws \<and> eligible True f w"
  by (auto simp: consistent_hash_select_from_ring_def split: if_splits dest: select_loop_sound)

lemma ring_ceiling_in_range:
  assumes "build_hash_ring ws \<noteq> []"
  shows "ring_ceiling (build_hash_ring ws) t < length ws"
  using ring_ceiling_least [OF build_hash_ring_strict assms, of t] build_hash_ring_index by blast

lemma select_from_ring_fallback:
  assumes "build_hash_ring ws \<noteq> []"
  shows "consistent_hash_select_from_ring b ws (build_hash_ring ws) False f
         = Some (ws ! ring_ceiling (build_hash_ring ws) (murmur3_guava_long_int b 0))"
proof -
  have ws: "ws \<noteq> []" using assms by auto
  have max: "DEFAULT_HASH_POLICY_MAX_ATTEMPTS = Suc 99"
    by (simp add: DEFAULT_HASH_POLICY_MAX_ATTEMPTS_def)
  have "select_loop (Suc 99) b ws (build_hash_ring ws) False f {}
      = Some (ws ! ring_ceiling (build_hash_ring ws) (murmur3_guava_long_int b 0))"
    using ws ring_ceiling_in_range [OF assms]
    by (subst select_loop.simps)
      (simp add: lookup_build [OF assms] Let_def DEFAULT_HASH_POLICY_MAX_ATTEMPTS_def)
  then show ?thesis
    using ws assms unfolding consistent_hash_select_from_ring_def max by simp
qed

text \<open>What the selection of several workers keeps.\<close>

definition selection_ok ::
  "worker_info list \<Rightarrow> bool \<Rightarrow> (string \<Rightarrow> bool) \<Rightarrow> selection \<Rightarrow> bool" where
  "selection_ok ws skip f sel \<longleftrightarrow>
     (\<exists>is. distinct is \<and> set is = sel_idxs sel \<and> sel_workers sel = map ((!) ws) is
        \<and> (\<forall>i \<in> set is. i < length ws))
     \<and> (\<forall>w \<in> set (sel_workers sel). eligible skip f w)
     \<and> sel_hosts sel = {h \<in> host_of ` set (sel_workers sel). h \<noteq> []}
     \<and> distinct (filter (\<lambda>h. h \<noteq> []) (map host_of (sel_workers sel)))"

lemma take_worker_ok:
  assumes "selection_ok ws skip f sel" and "idx \<notin> sel_idxs sel" and "idx < length ws"
    and "eligible skip f (ws ! idx)" and "host = host_of (ws ! idx)"
    and "host \<noteq> [] \<Longrightarrow> host \<notin> sel_hosts sel"
  shows "selection_ok ws skip f (take_worker idx (ws ! idx) host sel)"
proof -
  obtain ids where ids: "distinct ids" "set ids = sel_idxs sel" "sel_workers sel = map ((!) ws) ids"
      "\<forall>i \<in> set ids. i < length ws"
    using assms(1) by (auto simp: selection_ok_def)
  have "\<exists>is. distinct is \<and> set is = insert idx (sel_idxs sel)
      \<and> sel_workers sel @ [ws ! idx] = map ((!) ws) is \<and> (\<forall>i \<in> set is. i < length ws)"
    using ids assms(2,3) by (intro exI [of _ "ids @ [idx]"]) auto
  then show ?thesis
    using assms by (auto simp: selection_ok_def take_worker_def)
qed

lemma consider_worker_ok:
  assumes "selection_ok ws skip f sel"
  shows "selection_ok ws skip f (consider_worker ws skip f idx sel)"
  using assms
  by (auto simp: consider_worker_def Let_def eligible_def host_of_def
      intro!: take_worker_ok split: option.splits)

lemma consider_worker_length:
  "length (sel_workers (consider_worker ws skip f idx sel)) \<le> Suc (length (sel_workers sel))"
  by (auto simp: consider_worker_def take_worker_def Let_def split: option.splits)

lemma select_n_loop_ok:
  assumes "selection_ok ws skip f sel" and "length (sel_workers sel) \<le> count"
  shows "selection_ok ws skip f (select_n_loop left b ws ring count skip f visited sel)
    \<and> length (sel_workers (select_n_loop left b ws ring count skip f visited sel)) \<le> count"
  using assms
proof (induction left arbitrary: visited sel)
  case (Suc left)
  have "length (sel_workers (consider_worker ws skip f idx sel)) \<le> count"
    if "length (sel_workers sel) < count" for idx
    using consider_worker_length [of ws skip f idx sel] that by linarith
  then show ?case
    using Suc consider_worker_ok [OF Suc.prems(1)] by (auto simp: Let_def split: option.splits)
qed simp

text \<open>
  (C18) The workers selected for a block are at most \<open>count\<close> different entries of the worker list,
  all with an address and none of them failed when failed workers are skipped, and no two of
  them are on the same named host.
\<close>

theorem select_n_sound:
  fixes b :: i64 and ring :: ring
  shows "let sel = consistent_hash_select_n_from_ring b ws ring count skip f
    in length sel \<le> count \<and> (\<exists>is. distinct is \<and> sel = map ((!) ws) is \<and> (\<forall>i \<in> set is. i < length ws))
       \<and> (\<forall>w \<in> set sel. eligible skip f w)
       \<and> distinct (filter (\<lambda>h. h \<noteq> []) (map host_of sel))"
proof -
  let ?init = "\<lparr>sel_workers = [], sel_hosts = {}, sel_idxs = {}\<rparr>"
  have "selection_ok ws skip f ?init" by (auto simp: selection_ok_def)
  from select_n_loop_ok [OF this, of count DEFAULT_HASH_POLICY_MAX_ATTEMPTS b ring "{}"]
  show ?thesis
    by (auto simp: consistent_hash_select_n_from_ring_def Let_def selection_ok_def)
qed

theorem select_n_sound_witness:
  "length (consistent_hash_select_n_from_ring 7 [sample_worker 1 ''a'', sample_worker 2 ''b'']
      (build_hash_ring [sample_worker 1 ''a'', sample_worker 2 ''b'']) 1 True (\<lambda>_. False)) \<le> 1"
  using select_n_sound [of 7 "[sample_worker 1 ''a'', sample_worker 2 ''b'']"
      "build_hash_ring [sample_worker 1 ''a'', sample_worker 2 ''b'']" 1 True "\<lambda>_. False"]
  by (simp add: Let_def)

section \<open>Workers that hold a block\<close>

text \<open>The first occurrences of the elements of a list that are not in \<open>seen\<close>.\<close>

fun fresh :: "'a set \<Rightarrow> 'a list \<Rightarrow> 'a list" where
  "fresh seen [] = []"
| "fresh seen (x # xs) = (if x \<in> seen then fresh seen xs else x # fresh (insert x seen) xs)"

definition known_holders :: "worker_info list \<Rightarrow> i64 list \<Rightarrow> worker_info list" where
  "known_holders ws ids = List.map_filter (\<lambda>wid. find (\<lambda>w. w_id w = Some wid) ws) ids"

lemma locations_loop_spec:
  assumes "length selected < count"
  shows "locations_loop ws count f locs seen selected
    = selected @ take (count - length selected)
        (filter (eligible True f) (known_holders ws (fresh seen (List.map_filter bl_worker_id locs))))"
  using assms
proof (induction locs arbitrary: seen selected)
  case Nil
  then show ?case by (simp add: known_holders_def map_filter_simps)
next
  case (Cons loc locs)
  show ?case
  proof (cases "bl_worker_id loc")
    case None
    then show ?thesis using Cons by (simp add: map_filter_simps)
  next
    case (Some wid)
    then show ?thesis
      using Cons
      by (auto simp: known_holders_def map_filter_simps eligible_def take_Cons' split: option.splits)
  qed
qed

text \<open>
  Reading from the workers the master names: the selection is the first \<open>count\<close> of the
  eligible workers whose ids the locations give, in the order of the locations, each id
  once and looked up in the known worker list.
\<close>

theorem block_locations_correct:
  "workers_from_block_locations ws locations count f
   = take count (filter (eligible True f)
       (known_holders ws (fresh {} (List.map_filter bl_worker_id locations))))"
proof (cases "locations = [] \<or> count = 0")
  case True
  then show ?thesis
    by (auto simp: workers_from_block_locations_def known_holders_def map_filter_simps)
next
  case False
  then show ?thesis
    using locations_loop_spec [of "[]" count ws f locations "{}"]
    by (simp add: workers_from_block_locations_def)
qed

end
