(* ===== verification/Failed_Workers.thy ===== *)
theory Failed_Workers
  imports Retry_Policy "HOL-Library.AList"
begin

text \<open>
  The failed-worker set that the router and each of its views keep
  (\<^verbatim>\<open>src/src/block/router.rs\<close>): a lazily created map from address keys to the instant of the
  failure, and a counter beside it that lets the clean-up return without looking at the map.
  The map is an association list without duplicate keys; the clock is an argument.
\<close>

section \<open>The set and its operations\<close>

record failed_set =
  fs_map :: "(string \<times> instant) list option"
  fs_count :: nat

definition failed_new :: failed_set where
  "failed_new = \<lparr>fs_map = None, fs_count = 0\<rparr>"

definition failed_mark :: "instant \<Rightarrow> string \<Rightarrow> failed_set \<Rightarrow> failed_set" where
  "failed_mark now key fs =
     (let m = (case fs_map fs of None \<Rightarrow> [] | Some m \<Rightarrow> m)
      in \<lparr>fs_map = Some (AList.update key now m),
          fs_count = (if map_of m key = None then fs_count fs + 1 else fs_count fs)\<rparr>)"

definition failed_clear :: "failed_set \<Rightarrow> failed_set" where
  "failed_clear fs = \<lparr>fs_map = map_option (\<lambda>_. []) (fs_map fs), fs_count = 0\<rparr>"

definition failed_check :: "duration \<Rightarrow> instant \<Rightarrow> failed_set \<Rightarrow> string \<Rightarrow> bool" where
  "failed_check ttl now fs key = (case fs_map fs of
       None \<Rightarrow> False
     | Some m \<Rightarrow> (case map_of m key of Some t \<Rightarrow> now - t < ttl | None \<Rightarrow> False))"

definition failed_cleanup :: "duration \<Rightarrow> instant \<Rightarrow> failed_set \<Rightarrow> failed_set" where
  "failed_cleanup ttl now fs =
     (if fs_count fs = 0 then fs
      else case fs_map fs of
             None \<Rightarrow> fs
           | Some m \<Rightarrow>
               let kept = filter (\<lambda>(_, t). now - t < ttl) m;
                   removed = length m - length kept
               in \<lparr>fs_map = Some kept,
                   fs_count = (if 0 < removed then fs_count fs - removed else fs_count fs)\<rparr>)"

section \<open>The counter is exact and the clean-up cannot be observed\<close>

definition failed_ok :: "failed_set \<Rightarrow> bool" where
  "failed_ok fs \<longleftrightarrow> (case fs_map fs of
       None \<Rightarrow> fs_count fs = 0
     | Some m \<Rightarrow> distinct (map fst m) \<and> fs_count fs = length m)"

lemma length_update:
  "length (AList.update k v al) = (if map_of al k = None then Suc (length al) else length al)"
  by (induction al) auto

lemma map_of_filter_value:
  "distinct (map fst m) \<Longrightarrow>
   map_of (filter (\<lambda>(_, t). P t) m) k
   = (case map_of m k of Some t \<Rightarrow> if P t then Some t else None | None \<Rightarrow> None)"
proof (induction m)
  case (Cons e m)
  then show ?case
    by (cases e) (auto simp: map_of_eq_None_iff split: option.splits dest: map_of_SomeD)
qed simp

lemma failed_new_ok: "failed_ok failed_new"
  by (simp add: failed_ok_def failed_new_def)

lemma failed_mark_ok: "failed_ok fs \<Longrightarrow> failed_ok (failed_mark now key fs)"
  by (auto simp: failed_ok_def failed_mark_def Let_def length_update distinct_update
      split: option.splits)

lemma failed_clear_ok: "failed_ok (failed_clear fs)"
  by (auto simp: failed_ok_def failed_clear_def split: option.splits)

lemma distinct_map_filter: "distinct (map f xs) \<Longrightarrow> distinct (map f (filter P xs))"
  by (induction xs) auto

lemma failed_cleanup_ok: "failed_ok fs \<Longrightarrow> failed_ok (failed_cleanup ttl now fs)"
  by (auto simp: failed_ok_def failed_cleanup_def Let_def distinct_map_filter not_less
      intro: le_antisym split: option.splits)

lemma failed_cleanup_invisible:
  assumes "failed_ok fs"
  shows "failed_check ttl now (failed_cleanup ttl now fs) key = failed_check ttl now fs key"
  using assms
  by (auto simp: failed_ok_def failed_check_def failed_cleanup_def Let_def map_of_filter_value
      split: option.splits if_splits)

lemma failed_check_mark:
  "failed_check ttl now (failed_mark t key fs) k
   = (if k = key then now - t < ttl else failed_check ttl now fs k)"
  by (auto simp: failed_check_def failed_mark_def Let_def update_conv' split: option.splits)

lemma failed_check_clear: "\<not> failed_check ttl now (failed_clear fs) key"
  by (simp add: failed_check_def failed_clear_def split: option.splits)

lemma failed_check_new: "\<not> failed_check ttl now failed_new key"
  by (simp add: failed_check_def failed_new_def)

section \<open>The contract of a holder of such a set\<close>

text \<open>
  What the router and its views promise about failures: a marked worker is failed for the
  time to live and no longer, marking one says nothing about another, and clearing forgets
  all of them.  Both are instances.
\<close>

locale failure_tracker =
  fixes inv :: "'s \<Rightarrow> bool" and ttl :: "'s \<Rightarrow> duration"
    and mark :: "instant \<Rightarrow> string \<Rightarrow> 's \<Rightarrow> 's" and clear :: "'s \<Rightarrow> 's"
    and sweep :: "instant \<Rightarrow> 's \<Rightarrow> 's" and failed :: "instant \<Rightarrow> 's \<Rightarrow> string \<Rightarrow> bool"
  assumes inv_mark: "inv s \<Longrightarrow> inv (mark t k s)" and inv_clear: "inv s \<Longrightarrow> inv (clear s)"
    and inv_sweep: "inv s \<Longrightarrow> inv (sweep t s)"
    and ttl_mark: "ttl (mark t k s) = ttl s" and ttl_sweep: "ttl (sweep t s) = ttl s"
    and failed_mark_iff: "failed now (mark t k s) k' =
      (if k' = k then now - t < ttl s else failed now s k')"
    and failed_clear: "\<not> failed now (clear s) k"
    and failed_sweep: "inv s \<Longrightarrow> failed now (sweep now s) k = failed now s k"
begin

lemma sweep_then_mark:
  assumes "inv s"
  shows "failed now (mark now k (sweep now s)) k' = failed now (mark now k s) k'"
  using assms by (simp add: failed_mark_iff failed_sweep ttl_sweep)

lemma mark_expires: "ttl s \<le> now - t \<Longrightarrow> \<not> failed now (mark t k s) k"
  by (simp add: failed_mark_iff)

lemma mark_again: "failed now (mark t' k (mark t k s)) k' = failed now (mark t' k s) k'"
  by (simp add: failed_mark_iff ttl_mark)

lemma mark_commute:
  "k \<noteq> l \<Longrightarrow> failed now (mark t k (mark u l s)) k' = failed now (mark u l (mark t k s)) k'"
  by (simp add: failed_mark_iff ttl_mark)

end

interpretation fset: failure_tracker "\<lambda>(_, fs). failed_ok fs" fst
    "\<lambda>t k (ttl, fs). (ttl, failed_mark t k fs)" "\<lambda>(ttl, fs). (ttl, failed_clear fs)"
    "\<lambda>t (ttl, fs). (ttl, failed_cleanup ttl t fs)"
    "\<lambda>now (ttl, fs). failed_check ttl now fs"
  by unfold_locales
    (auto simp: failed_mark_ok failed_clear_ok failed_cleanup_ok failed_check_mark
      failed_check_clear failed_cleanup_invisible)

end
