(* ===== verification/Worker_Router.thy ===== *)
theory Worker_Router
  imports Hash_Ring Failed_Workers Replica_Write
    "HOL-Library.Char_ord" "HOL-Library.List_Lexorder" "HOL-Library.Product_Lexorder"
begin

text \<open>
  The worker router and its per-reader views (\<^verbatim>\<open>src/src/block/router.rs\<close>).  A router is the
  record of its published fields; an operation takes the clock reading and returns the new
  state beside its result.  What the code asks of the machine is a record of arguments: the
  host name, whether an address can be bound locally, and the 64-bit hash of the fingerprint
  (the \<open>xxh3\<close> crate); the random index of \<open>pick_any_worker\<close> is an argument too.
\<close>

record host_env =
  he_hostname :: "string option"
  he_can_bind :: "string \<Rightarrow> bool"
  he_xxh3 :: "bytes \<Rightarrow> u64"

definition DEFAULT_FAILURE_TTL :: duration where
  "DEFAULT_FAILURE_TTL = 60 * 1000000000"

definition DEFAULT_WORKER_REFRESH_TTL :: duration where
  "DEFAULT_WORKER_REFRESH_TTL = 30 * 1000000000"

section \<open>The shared router\<close>

record worker_router =
  wr_workers :: "worker_info list"
  wr_failed :: failed_set
  wr_failure_ttl :: duration
  wr_last_refresh :: instant
  wr_worker_refresh_ttl :: duration
  wr_local_worker_id :: "i64 option option"
  wr_hash_ring :: ring

definition router_with_ttls :: "instant \<Rightarrow> duration \<Rightarrow> duration \<Rightarrow> worker_router" where
  "router_with_ttls now failure_ttl worker_refresh_ttl =
     \<lparr>wr_workers = [], wr_failed = failed_new, wr_failure_ttl = failure_ttl,
      wr_last_refresh = now, wr_worker_refresh_ttl = worker_refresh_ttl,
      wr_local_worker_id = None, wr_hash_ring = []\<rparr>"

definition router_with_failure_ttl :: "instant \<Rightarrow> duration \<Rightarrow> worker_router" where
  "router_with_failure_ttl now failure_ttl =
     \<lparr>wr_workers = [], wr_failed = failed_new, wr_failure_ttl = failure_ttl,
      wr_last_refresh = now, wr_worker_refresh_ttl = DEFAULT_WORKER_REFRESH_TTL,
      wr_local_worker_id = None, wr_hash_ring = []\<rparr>"

definition router_new :: "instant \<Rightarrow> worker_router" where
  "router_new now =
     \<lparr>wr_workers = [], wr_failed = failed_new, wr_failure_ttl = DEFAULT_FAILURE_TTL,
      wr_last_refresh = now, wr_worker_refresh_ttl = DEFAULT_WORKER_REFRESH_TTL,
      wr_local_worker_id = None, wr_hash_ring = []\<rparr>"

definition router_snapshot_from :: "instant \<Rightarrow> worker_router \<Rightarrow> worker_router" where
  "router_snapshot_from now shared =
     \<lparr>wr_workers = wr_workers shared, wr_failed = failed_new,
      wr_failure_ttl = wr_failure_ttl shared, wr_last_refresh = now,
      wr_worker_refresh_ttl = wr_worker_refresh_ttl shared,
      wr_local_worker_id = wr_local_worker_id shared, wr_hash_ring = wr_hash_ring shared\<rparr>"

text \<open>The tuple of a worker that the fingerprint covers, and its bytes.\<close>

type_synonym worker_tuple = "i64 \<times> string \<times> i32 \<times> i32"

definition fingerprint_tuple :: "worker_info \<Rightarrow> worker_tuple" where
  "fingerprint_tuple w =
     (unwrap_or (w_id w) 0,
      unwrap_or (Option.bind (w_address w) a_host) [],
      unwrap_or (Option.bind (w_address w) a_rpc_port) 0,
      unwrap_or (w_virtual_node_num w) VIRTUAL_NODES_PER_WORKER)"

definition tuple_bytes :: "worker_tuple \<Rightarrow> bytes" where
  "tuple_bytes = (\<lambda>(wid, host, port, vn).
     to_le 8 (word_of_int wid :: u64) @ to_le 4 (word_of_int port :: u32)
     @ to_le 4 (word_of_int vn :: u32) @ to_le 4 (of_nat (length host) :: u32)
     @ map of_char host @ [0])"

definition fingerprint_bytes :: "worker_info list \<Rightarrow> bytes" where
  "fingerprint_bytes workers = concat (map tuple_bytes (sort (map fingerprint_tuple workers)))"

definition workers_fingerprint :: "host_env \<Rightarrow> worker_info list \<Rightarrow> u64" where
  "workers_fingerprint env workers =
     (if workers = [] then 0 else he_xxh3 env (fingerprint_bytes workers))"

text \<open>Detection of the worker on this machine.\<close>

definition local_hostnames :: "host_env \<Rightarrow> string list" where
  "local_hostnames env =
     [''localhost'', ''127.0.0.1'', ''::1'']
     @ (case he_hostname env of
          None \<Rightarrow> []
        | Some s \<Rightarrow> [s, takeWhile (\<lambda>c. c \<noteq> CHR ''.'') s])"

fun detect_local_worker :: "host_env \<Rightarrow> worker_info list \<Rightarrow> i64" where
  "detect_local_worker env [] = 0"
| "detect_local_worker env (w # workers) =
     (case w_address w of
        None \<Rightarrow> detect_local_worker env workers
      | Some addr \<Rightarrow>
          let host = unwrap_or (a_host addr) []
          in if host = [] then detect_local_worker env workers
             else if host \<in> set (local_hostnames env) \<or> he_can_bind env host
             then unwrap_or (w_id w) 0
             else detect_local_worker env workers)"

definition probe_local :: "host_env \<Rightarrow> worker_info list \<Rightarrow> i64 option" where
  "probe_local env workers =
     (let detected = detect_local_worker env workers in if 0 < detected then Some detected else None)"

text \<open>
  The update as a whole; its four stores, and what other tasks see between them, are the subject
  of \<open>Router_Publish\<close>.
\<close>

definition update_workers ::
  "host_env \<Rightarrow> instant \<Rightarrow> worker_info list \<Rightarrow> worker_router \<Rightarrow> worker_router" where
  "update_workers env now workers r =
     (if workers_fingerprint env workers = workers_fingerprint env (wr_workers r)
         \<and> wr_workers r \<noteq> []
      then r\<lparr>wr_last_refresh := now\<rparr>
      else r\<lparr>wr_workers := workers, wr_hash_ring := build_hash_ring workers,
             wr_last_refresh := now,
             wr_local_worker_id := Some (probe_local env workers)\<rparr>)"

definition needs_refresh :: "instant \<Rightarrow> worker_router \<Rightarrow> bool" where
  "needs_refresh now r \<longleftrightarrow> wr_worker_refresh_ttl r \<le> now - wr_last_refresh r"

text \<open>\<open>reply\<close> is what \<open>get_worker_info_list\<close> returned; a failed refresh keeps the list.\<close>

definition refresh_workers ::
  "host_env \<Rightarrow> instant \<Rightarrow> worker_info list result \<Rightarrow> worker_router \<Rightarrow> worker_router" where
  "refresh_workers env now reply r = (case reply of
       Inr workers \<Rightarrow> update_workers env now workers r
     | Inl _ \<Rightarrow> r\<lparr>wr_last_refresh := now\<rparr>)"

definition router_mark_failed :: "instant \<Rightarrow> worker_net_address \<Rightarrow> worker_router \<Rightarrow> worker_router" where
  "router_mark_failed now addr r =
     r\<lparr>wr_failed := failed_mark now (worker_addr_key addr) (wr_failed r)\<rparr>"

definition router_clear_failed :: "worker_router \<Rightarrow> worker_router" where
  "router_clear_failed r = r\<lparr>wr_failed := failed_clear (wr_failed r)\<rparr>"

definition router_cleanup :: "instant \<Rightarrow> worker_router \<Rightarrow> worker_router" where
  "router_cleanup now r = r\<lparr>wr_failed := failed_cleanup (wr_failure_ttl r) now (wr_failed r)\<rparr>"

definition router_is_failed :: "instant \<Rightarrow> worker_router \<Rightarrow> string \<Rightarrow> bool" where
  "router_is_failed now r = failed_check (wr_failure_ttl r) now (wr_failed r)"

definition no_workers :: client_error where
  "no_workers = ENoWorkerAvailable ''no workers registered''"

definition no_suitable :: "i64 \<Rightarrow> client_error" where
  "no_suitable block_id =
     ENoWorkerAvailable (''no suitable worker for block_id='' @ show_int block_id)"

definition bad_count :: client_error where
  "bad_count = EInvalidArgument ''count must be greater than 0''"

text \<open>The cached local worker, when it is known, addressable and not failed.\<close>

definition usable_local ::
  "i64 option \<Rightarrow> worker_info list \<Rightarrow> (string \<Rightarrow> bool) \<Rightarrow> worker_info option" where
  "usable_local local_id workers is_failed = (case local_id of
       None \<Rightarrow> None
     | Some wid \<Rightarrow>
         (case find (\<lambda>w. w_id w = Some wid) workers of
            None \<Rightarrow> None
          | Some w \<Rightarrow>
              (case w_address w of
                 None \<Rightarrow> None
               | Some addr \<Rightarrow> if \<not> is_failed (worker_addr_key addr) then Some w else None)))"

definition router_select_worker ::
  "host_env \<Rightarrow> instant \<Rightarrow> i64 \<Rightarrow> worker_router \<Rightarrow> worker_info result \<times> worker_router" where
  "router_select_worker env now block_id r =
     (if wr_workers r = [] then (Inl no_workers, r)
      else let r = router_cleanup now r;
               (local_id, r) = (case wr_local_worker_id r of
                   Some cached \<Rightarrow> (cached, r)
                 | None \<Rightarrow> let cached = probe_local env (wr_workers r)
                          in (cached, r\<lparr>wr_local_worker_id := Some cached\<rparr>));
               is_failed = router_is_failed now r
           in (case usable_local local_id (wr_workers r) is_failed of
                 Some w \<Rightarrow> Inr w
               | None \<Rightarrow>
                   (case consistent_hash_select_from_ring block_id (wr_workers r)
                           (wr_hash_ring r) True is_failed of
                      Some w \<Rightarrow> Inr w
                    | None \<Rightarrow>
                        (case consistent_hash_select_from_ring block_id (wr_workers r)
                                (wr_hash_ring r) False is_failed of
                           Some w \<Rightarrow> Inr w
                         | None \<Rightarrow> Inl (no_suitable block_id))), r))"

definition router_select_workers ::
  "instant \<Rightarrow> i64 \<Rightarrow> nat \<Rightarrow> worker_router \<Rightarrow> worker_info list result \<times> worker_router" where
  "router_select_workers now block_id count r =
     (if count = 0 then (Inl bad_count, r)
      else if wr_workers r = [] then (Inl no_workers, r)
      else let r = router_cleanup now r;
               selected = consistent_hash_select_n_from_ring block_id (wr_workers r)
                            (wr_hash_ring r) count True (router_is_failed now r)
           in if selected \<noteq> [] then (Inr selected, r)
              else let fallback = consistent_hash_select_n_from_ring block_id (wr_workers r)
                            (wr_hash_ring r) count False (router_is_failed now r)
                   in (if fallback = [] then Inl (no_suitable block_id) else Inr fallback, r))"

definition first_worker :: "i64 \<Rightarrow> worker_info list result \<Rightarrow> worker_info result" where
  "first_worker block_id res = (case res of
       Inl e \<Rightarrow> Inl e
     | Inr [] \<Rightarrow> Inl (no_suitable block_id)
     | Inr (w # _) \<Rightarrow> Inr w)"

definition router_select_worker_with_replication ::
  "instant \<Rightarrow> i64 \<Rightarrow> i32 \<Rightarrow> worker_router \<Rightarrow> worker_info result \<times> worker_router" where
  "router_select_worker_with_replication now block_id replication r =
     (let (res, r) = router_select_workers now block_id (nat (max replication 1)) r
      in (first_worker block_id res, r))"

definition router_select_workers_for_read ::
  "instant \<Rightarrow> i64 \<Rightarrow> block_location list \<Rightarrow> nat \<Rightarrow> worker_router
   \<Rightarrow> worker_info list result \<times> worker_router" where
  "router_select_workers_for_read now block_id locations count r =
     (if count = 0 then (Inl bad_count, r)
      else if wr_workers r = [] then (Inl no_workers, r)
      else let r = router_cleanup now r;
               from_locations = workers_from_block_locations (wr_workers r) locations count
                                  (router_is_failed now r)
           in if from_locations \<noteq> [] then (Inr from_locations, r)
              else router_select_workers now block_id count r)"

definition router_select_worker_for_read ::
  "instant \<Rightarrow> i64 \<Rightarrow> block_location list \<Rightarrow> i32 \<Rightarrow> i32 \<Rightarrow> worker_router
   \<Rightarrow> worker_info result \<times> worker_router" where
  "router_select_worker_for_read now block_id locations replication max_retry_node r =
     (let count = read_worker_candidate_count replication max_retry_node;
          (res, r) = router_select_workers_for_read now block_id locations count r
      in (first_worker block_id res, r))"

text \<open>\<open>random\<close> gives the index \<open>rand\<close> draws from \<open>0..len\<close>.\<close>

definition not_failed :: "(string \<Rightarrow> bool) \<Rightarrow> worker_info \<Rightarrow> bool" where
  "not_failed is_failed w = (case w_address w of
       Some addr \<Rightarrow> \<not> is_failed (worker_addr_key addr) | None \<Rightarrow> False)"

definition router_pick_any_worker ::
  "(nat \<Rightarrow> nat) \<Rightarrow> instant \<Rightarrow> worker_router \<Rightarrow> worker_info result \<times> worker_router" where
  "router_pick_any_worker random now r =
     (if wr_workers r = [] then (Inl no_workers, r)
      else let r = router_cleanup now r;
               eligible = filter (not_failed (router_is_failed now r)) (wr_workers r);
               pool = (if eligible = [] then wr_workers r else eligible)
           in if pool = [] then (Inl (ENoWorkerAvailable ''no eligible workers''), r)
              else (Inr (pool ! random (length pool)), r))"

section \<open>The router's invariant\<close>

text \<open>
  The published ring belongs to the published worker list, the failure counter is exact, and
  a router that has workers has been probed for a local one.
\<close>

definition router_inv :: "worker_router \<Rightarrow> bool" where
  "router_inv r \<longleftrightarrow>
     wr_hash_ring r = build_hash_ring (wr_workers r) \<and> failed_ok (wr_failed r)
     \<and> (wr_workers r \<noteq> [] \<longrightarrow> wr_local_worker_id r \<noteq> None)"

text \<open>The routers that operations make, one after the other.\<close>

inductive router_reachable :: "host_env \<Rightarrow> worker_router \<Rightarrow> bool" for env where
  new: "router_reachable env (router_new now)"
| with_failure_ttl: "router_reachable env (router_with_failure_ttl now ttl)"
| with_ttls: "router_reachable env (router_with_ttls now ttl refresh)"
| snapshot: "router_reachable env r \<Longrightarrow> router_reachable env (router_snapshot_from now r)"
| update: "router_reachable env r \<Longrightarrow> router_reachable env (update_workers env now workers r)"
| refresh: "router_reachable env r \<Longrightarrow> router_reachable env (refresh_workers env now reply r)"
| mark: "router_reachable env r \<Longrightarrow> router_reachable env (router_mark_failed now addr r)"
| clear: "router_reachable env r \<Longrightarrow> router_reachable env (router_clear_failed r)"
| select: "router_reachable env r \<Longrightarrow> router_reachable env (snd (router_select_worker env now b r))"
| select_n: "router_reachable env r \<Longrightarrow> router_reachable env (snd (router_select_workers now b n r))"
| select_repl: "router_reachable env r
    \<Longrightarrow> router_reachable env (snd (router_select_worker_with_replication now b k r))"
| read_n: "router_reachable env r
    \<Longrightarrow> router_reachable env (snd (router_select_workers_for_read now b locs n r))"
| read: "router_reachable env r
    \<Longrightarrow> router_reachable env (snd (router_select_worker_for_read now b locs k m r))"
| pick: "router_reachable env r
    \<Longrightarrow> router_reachable env (snd (router_pick_any_worker random now r))"

lemma router_cleanup_sel [simp]:
  "wr_workers (router_cleanup now r) = wr_workers r"
  "wr_hash_ring (router_cleanup now r) = wr_hash_ring r"
  "wr_local_worker_id (router_cleanup now r) = wr_local_worker_id r"
  "wr_failure_ttl (router_cleanup now r) = wr_failure_ttl r"
  by (simp_all add: router_cleanup_def)

lemma router_cleanup_inv: "router_inv r \<Longrightarrow> router_inv (router_cleanup now r)"
  by (simp add: router_inv_def router_cleanup_def failed_cleanup_ok)

lemma router_cleanup_invisible:
  "failed_ok (wr_failed r) \<Longrightarrow> router_is_failed now (router_cleanup now r) = router_is_failed now r"
  by (rule ext) (simp add: router_is_failed_def router_cleanup_def failed_cleanup_invisible)

lemma update_workers_inv: "router_inv r \<Longrightarrow> router_inv (update_workers env now workers r)"
  by (simp add: router_inv_def update_workers_def)

lemma router_select_workers_inv: "router_inv r \<Longrightarrow> router_inv (snd (router_select_workers now b n r))"
  by (simp add: router_select_workers_def Let_def router_cleanup_inv)

lemma router_select_workers_for_read_inv:
  "router_inv r \<Longrightarrow> router_inv (snd (router_select_workers_for_read now b locs n r))"
  by (simp add: router_select_workers_for_read_def Let_def router_cleanup_inv
      router_select_workers_inv)

lemma router_select_worker_inv: "router_inv r \<Longrightarrow> router_inv (snd (router_select_worker env now b r))"
  using router_cleanup_inv [of r now]
  by (auto simp: router_select_worker_def Let_def router_inv_def split: option.splits)

lemma router_reachable_inv: "router_reachable env r \<Longrightarrow> router_inv r"
proof (induction rule: router_reachable.induct)
  case (refresh r now reply)
  then show ?case
    by (cases reply) (simp_all add: refresh_workers_def update_workers_inv, simp add: router_inv_def)
next
  case (select_repl r now b k)
  then show ?case
    by (simp add: router_select_worker_with_replication_def case_prod_beta router_select_workers_inv)
next
  case (read r now b locs k m)
  then show ?case
    by (simp add: router_select_worker_for_read_def case_prod_beta Let_def
        router_select_workers_for_read_inv)
next
  case (pick r random now)
  then show ?case by (simp add: router_pick_any_worker_def Let_def router_cleanup_inv)
qed (simp_all add: update_workers_inv router_select_workers_inv router_select_worker_inv
    router_select_workers_for_read_inv,
    simp_all add: router_inv_def router_new_def router_with_failure_ttl_def router_with_ttls_def
      router_snapshot_from_def router_mark_failed_def router_clear_failed_def
      failed_new_ok failed_mark_ok failed_clear_ok)

interpretation rt: failure_tracker "\<lambda>r. failed_ok (wr_failed r)" wr_failure_ttl
    "\<lambda>t k r. r\<lparr>wr_failed := failed_mark t k (wr_failed r)\<rparr>" router_clear_failed router_cleanup
    router_is_failed
  by unfold_locales
    (auto simp: router_clear_failed_def router_cleanup_def router_is_failed_def failed_mark_ok
      failed_clear_ok failed_cleanup_ok failed_check_mark failed_check_clear failed_cleanup_invisible)

definition sample_env :: host_env where
  "sample_env = \<lparr>he_hostname = Some ''node7.rack1'', he_can_bind = (\<lambda>host. host = ''a''),
     he_xxh3 = (\<lambda>bs. 1)\<rparr>"

definition sample_router :: worker_router where
  "sample_router =
     update_workers sample_env 5 [sample_worker 1 ''a'', sample_worker 2 ''b''] (router_new 0)"

lemma sample_router_reachable: "router_reachable sample_env sample_router"
  unfolding sample_router_def by (intro router_reachable.intros)

lemma sample_router_sel:
  "wr_workers sample_router = [sample_worker 1 ''a'', sample_worker 2 ''b'']"
  by (simp add: sample_router_def update_workers_def router_new_def)

section \<open>Where a block is routed\<close>

lemma usable_local_sound:
  "usable_local l ws f = Some w \<Longrightarrow> w \<in> set ws \<and> not_failed f w"
  by (auto simp: usable_local_def not_failed_def find_Some_iff split: option.splits if_splits)

lemma eligible_not_failed: "eligible True f w \<longleftrightarrow> not_failed f w"
  by (auto simp: eligible_def not_failed_def split: option.splits)



end
