(* ===== verification/Router_View.thy ===== *)
theory Router_View
  imports Worker_Router
begin

text \<open>
  The immutable routing view of one reader or writer (\<open>WorkerRouterView\<close> in
  \<^verbatim>\<open>src/src/block/router.rs\<close>): the worker list, ring and local worker captured when it was
  made, and a failed-worker set of its own.  Its selections are a second copy of the shared
  router's; the simulation at the end shows that the two copies agree.
\<close>

section \<open>The view and its operations\<close>

record router_view =
  wv_workers :: "worker_info list"
  wv_hash_ring :: ring
  wv_local_worker_id :: "i64 option"
  wv_failed :: failed_set
  wv_failure_ttl :: duration

definition view_from_shared :: "worker_router \<Rightarrow> router_view" where
  "view_from_shared shared =
     \<lparr>wv_workers = wr_workers shared, wv_hash_ring = wr_hash_ring shared,
      wv_local_worker_id = Option.bind (wr_local_worker_id shared) id,
      wv_failed = failed_new, wv_failure_ttl = wr_failure_ttl shared\<rparr>"

definition view_from_workers :: "worker_info list \<Rightarrow> duration \<Rightarrow> router_view" where
  "view_from_workers workers failure_ttl =
     \<lparr>wv_workers = workers, wv_hash_ring = build_hash_ring workers, wv_local_worker_id = None,
      wv_failed = failed_new, wv_failure_ttl = failure_ttl\<rparr>"

definition view_empty :: router_view where
  "view_empty =
     \<lparr>wv_workers = [], wv_hash_ring = [], wv_local_worker_id = None, wv_failed = failed_new,
      wv_failure_ttl = DEFAULT_FAILURE_TTL\<rparr>"

definition view_mark_failed :: "instant \<Rightarrow> worker_net_address \<Rightarrow> router_view \<Rightarrow> router_view" where
  "view_mark_failed now addr v =
     v\<lparr>wv_failed := failed_mark now (worker_addr_key addr) (wv_failed v)\<rparr>"

definition view_clear_failed :: "router_view \<Rightarrow> router_view" where
  "view_clear_failed v = v\<lparr>wv_failed := failed_clear (wv_failed v)\<rparr>"

definition view_cleanup :: "instant \<Rightarrow> router_view \<Rightarrow> router_view" where
  "view_cleanup now v = v\<lparr>wv_failed := failed_cleanup (wv_failure_ttl v) now (wv_failed v)\<rparr>"

definition view_is_failed :: "instant \<Rightarrow> router_view \<Rightarrow> string \<Rightarrow> bool" where
  "view_is_failed now v = failed_check (wv_failure_ttl v) now (wv_failed v)"

definition view_filter_not_failed ::
  "instant \<Rightarrow> worker_info list \<Rightarrow> router_view \<Rightarrow> worker_info list \<times> router_view" where
  "view_filter_not_failed now workers v =
     (let v = view_cleanup now v in (filter (not_failed (view_is_failed now v)) workers, v))"

definition view_select_worker ::
  "instant \<Rightarrow> i64 \<Rightarrow> router_view \<Rightarrow> worker_info result \<times> router_view" where
  "view_select_worker now block_id v =
     (if wv_workers v = [] then (Inl no_workers, v)
      else let v = view_cleanup now v;
               is_failed = view_is_failed now v
           in (case usable_local (wv_local_worker_id v) (wv_workers v) is_failed of
                 Some w \<Rightarrow> Inr w
               | None \<Rightarrow>
                   (case consistent_hash_select_from_ring block_id (wv_workers v)
                           (wv_hash_ring v) True is_failed of
                      Some w \<Rightarrow> Inr w
                    | None \<Rightarrow>
                        (case consistent_hash_select_from_ring block_id (wv_workers v)
                                (wv_hash_ring v) False is_failed of
                           Some w \<Rightarrow> Inr w
                         | None \<Rightarrow> Inl (no_suitable block_id))), v))"

definition view_select_workers ::
  "instant \<Rightarrow> i64 \<Rightarrow> nat \<Rightarrow> router_view \<Rightarrow> worker_info list result \<times> router_view" where
  "view_select_workers now block_id count v =
     (if count = 0 then (Inl bad_count, v)
      else if wv_workers v = [] then (Inl no_workers, v)
      else let v = view_cleanup now v;
               selected = consistent_hash_select_n_from_ring block_id (wv_workers v)
                            (wv_hash_ring v) count True (view_is_failed now v)
           in if selected \<noteq> [] then (Inr selected, v)
              else let fallback = consistent_hash_select_n_from_ring block_id (wv_workers v)
                            (wv_hash_ring v) count False (view_is_failed now v)
                   in (if fallback = [] then Inl (no_suitable block_id) else Inr fallback, v))"

definition view_select_worker_with_replication ::
  "instant \<Rightarrow> i64 \<Rightarrow> i32 \<Rightarrow> router_view \<Rightarrow> worker_info result \<times> router_view" where
  "view_select_worker_with_replication now block_id replication v =
     (let (res, v) = view_select_workers now block_id (nat (max replication 1)) v
      in (first_worker block_id res, v))"

definition view_select_workers_for_read ::
  "instant \<Rightarrow> i64 \<Rightarrow> block_location list \<Rightarrow> nat \<Rightarrow> router_view
   \<Rightarrow> worker_info list result \<times> router_view" where
  "view_select_workers_for_read now block_id locations count v =
     (if count = 0 then (Inl bad_count, v)
      else if wv_workers v = [] then (Inl no_workers, v)
      else let v = view_cleanup now v;
               from_locations = workers_from_block_locations (wv_workers v) locations count
                                  (view_is_failed now v)
           in if from_locations \<noteq> [] then (Inr from_locations, v)
              else view_select_workers now block_id count v)"

definition view_select_worker_for_read ::
  "instant \<Rightarrow> i64 \<Rightarrow> block_location list \<Rightarrow> i32 \<Rightarrow> i32 \<Rightarrow> router_view
   \<Rightarrow> worker_info result \<times> router_view" where
  "view_select_worker_for_read now block_id locations replication max_retry_node v =
     (let count = read_worker_candidate_count replication max_retry_node;
          (res, v) = view_select_workers_for_read now block_id locations count v
      in (first_worker block_id res, v))"

definition view_pick_any_worker ::
  "(nat \<Rightarrow> nat) \<Rightarrow> instant \<Rightarrow> router_view \<Rightarrow> worker_info result \<times> router_view" where
  "view_pick_any_worker random now v =
     (if wv_workers v = [] then (Inl no_workers, v)
      else let v = view_cleanup now v;
               eligible = filter (not_failed (view_is_failed now v)) (wv_workers v);
               pool = (if eligible = [] then wv_workers v else eligible)
           in if pool = [] then (Inl (ENoWorkerAvailable ''no eligible workers''), v)
              else (Inr (pool ! random (length pool)), v))"

interpretation vw: failure_tracker "\<lambda>v. failed_ok (wv_failed v)" wv_failure_ttl
    "\<lambda>t k v. v\<lparr>wv_failed := failed_mark t k (wv_failed v)\<rparr>" view_clear_failed view_cleanup
    view_is_failed
  by unfold_locales
    (auto simp: view_clear_failed_def view_cleanup_def view_is_failed_def failed_mark_ok
      failed_clear_ok failed_cleanup_ok failed_check_mark failed_check_clear failed_cleanup_invisible)

section \<open>The view simulates the shared router\<close>

text \<open>A probed router and a view that route over the same state.\<close>

definition view_of :: "worker_router \<Rightarrow> router_view" where
  "view_of r =
     \<lparr>wv_workers = wr_workers r, wv_hash_ring = wr_hash_ring r,
      wv_local_worker_id = Option.bind (wr_local_worker_id r) id,
      wv_failed = wr_failed r, wv_failure_ttl = wr_failure_ttl r\<rparr>"

lemma view_of_sel [simp]:
  "wv_workers (view_of r) = wr_workers r" "wv_hash_ring (view_of r) = wr_hash_ring r"
  "wv_failed (view_of r) = wr_failed r" "wv_failure_ttl (view_of r) = wr_failure_ttl r"
  by (simp_all add: view_of_def)

lemma view_cleanup_of: "view_cleanup now (view_of r) = view_of (router_cleanup now r)"
  by (simp add: view_cleanup_def router_cleanup_def view_of_def)

lemma view_is_failed_of: "view_is_failed now (view_of r) = router_is_failed now r"
  by (simp add: view_is_failed_def router_is_failed_def)

lemmas view_simulation = view_cleanup_of view_is_failed_of

lemma view_select_worker_of:
  assumes "wr_local_worker_id r = Some l"
  shows "view_select_worker now b (view_of r) = map_prod id view_of (router_select_worker env now b r)"
proof -
  have "wv_local_worker_id (view_of (router_cleanup now r)) = l"
    using assms by (simp add: view_of_def)
  then show ?thesis
    using assms
    by (simp add: view_select_worker_def router_select_worker_def view_simulation Let_def
        cong: option.case_cong)
qed

lemma view_select_workers_of:
  "view_select_workers now b n (view_of r) = map_prod id view_of (router_select_workers now b n r)"
  by (simp add: view_select_workers_def router_select_workers_def view_simulation Let_def)

lemma view_select_workers_for_read_of:
  "view_select_workers_for_read now b locs n (view_of r)
   = map_prod id view_of (router_select_workers_for_read now b locs n r)"
  by (simp add: view_select_workers_for_read_def router_select_workers_for_read_def view_simulation
      Let_def view_select_workers_of)

text \<open>
  (C35) The two copies of the routing code agree: on a probed router and the view of its state
  every operation gives the same answer and leads again to a router and the view of its
  state, so a view behaves as the shared router would for the same sequence of calls.
\<close>

theorem view_simulates_router:
  assumes "wr_local_worker_id r = Some l"
  shows "view_select_worker now b (view_of r) = map_prod id view_of (router_select_worker env now b r)
    \<and> view_select_workers now b n (view_of r) = map_prod id view_of (router_select_workers now b n r)
    \<and> view_select_worker_with_replication now b k (view_of r)
        = map_prod id view_of (router_select_worker_with_replication now b k r)
    \<and> view_select_workers_for_read now b locs n (view_of r)
        = map_prod id view_of (router_select_workers_for_read now b locs n r)
    \<and> view_select_worker_for_read now b locs k m (view_of r)
        = map_prod id view_of (router_select_worker_for_read now b locs k m r)
    \<and> view_pick_any_worker random now (view_of r)
        = map_prod id view_of (router_pick_any_worker random now r)
    \<and> view_mark_failed now addr (view_of r) = view_of (router_mark_failed now addr r)
    \<and> view_clear_failed (view_of r) = view_of (router_clear_failed r)"
proof (intro conjI)
  show "view_select_worker now b (view_of r) = map_prod id view_of (router_select_worker env now b r)"
    by (rule view_select_worker_of [OF assms])
  show "view_pick_any_worker random now (view_of r)
      = map_prod id view_of (router_pick_any_worker random now r)"
    by (simp add: view_pick_any_worker_def router_pick_any_worker_def view_simulation Let_def)
  show "view_mark_failed now addr (view_of r) = view_of (router_mark_failed now addr r)"
    by (simp add: view_mark_failed_def router_mark_failed_def view_of_def)
  show "view_clear_failed (view_of r) = view_of (router_clear_failed r)"
    by (simp add: view_clear_failed_def router_clear_failed_def view_of_def)
qed (simp_all add: view_select_workers_of view_select_workers_for_read_of
    view_select_worker_with_replication_def router_select_worker_with_replication_def
    view_select_worker_for_read_def router_select_worker_for_read_def Let_def case_prod_beta)

theorem view_simulates_router_witness:
  "view_select_worker 9 77 (view_of sample_router)
   = map_prod id view_of (router_select_worker sample_env 9 77 sample_router)"
proof -
  have "wr_local_worker_id sample_router = Some (probe_local sample_env (wr_workers sample_router))"
    by (simp add: sample_router_def update_workers_def router_new_def)
  from view_simulates_router [OF this] show ?thesis by blast
qed

text \<open>
  A fresh view starts as the view of the fresh snapshot of the same router, so replacing
  snapshots by views changes no routing decision.
\<close>

theorem fresh_view_is_snapshot:
  "view_from_shared shared = view_of (router_snapshot_from now shared)"
  by (simp add: view_from_shared_def view_of_def router_snapshot_from_def)

end
