(* ===== verification/Router_Refresh.thy ===== *)
theory Router_Refresh
  imports Worker_Router "HOL-Library.Multiset"
begin

text \<open>
  What a refresh of the worker list does (\<open>update_workers\<close> in
  \<^verbatim>\<open>src/src/block/router.rs\<close>): the encoding hashed by the fingerprint is injective on the
  tuples it covers, so that barring a hash collision the fast path is taken exactly for an
  unchanged membership; and what the fast path leaves stale.
\<close>

section \<open>What the fingerprint tells apart\<close>

text \<open>A tuple whose numbers are in the range of their types.\<close>

definition tuple_ok :: "worker_tuple \<Rightarrow> bool" where
  "tuple_ok = (\<lambda>(wid, host, port, vn).
     - (2 ^ 63) \<le> wid \<and> wid < 2 ^ 63 \<and> - (2 ^ 31) \<le> port \<and> port < 2 ^ 31
     \<and> - (2 ^ 31) \<le> vn \<and> vn < 2 ^ 31 \<and> length host < 2 ^ 32)"

lemma to_le_inj:
  fixes x y :: "'a::len word"
  assumes "to_le n x = to_le n y" and "LENGTH('a) \<le> 8 * n"
  shows "x = y"
proof (rule bit_word_eqI)
  fix k assume k: "k < LENGTH('a)"
  define i where "i = k div 8"
  have "i < n" using k assms(2) unfolding i_def by linarith
  then have "(ucast (drop_bit (8 * i) x) :: u8) = ucast (drop_bit (8 * i) y)"
    using assms(1) to_le_nth by metis
  then have "bit (ucast (drop_bit (8 * i) x) :: u8) (k mod 8)
      = bit (ucast (drop_bit (8 * i) y) :: u8) (k mod 8)" by simp
  moreover have "8 * i + k mod 8 = k" by (simp add: i_def)
  ultimately show "bit x k = bit y k"
    by (simp add: bit_ucast_iff bit_drop_bit_eq)
qed

lemma word_of_int_signed_inj:
  assumes "(word_of_int i :: 'a::len word) = word_of_int j"
    and "- (2 ^ (LENGTH('a) - 1)) \<le> i" and "i < 2 ^ (LENGTH('a) - 1)"
    and "- (2 ^ (LENGTH('a) - 1)) \<le> j" and "j < 2 ^ (LENGTH('a) - 1)"
  shows "i = j"
proof -
  have "i = sint (word_of_int i :: 'a word)"
    unfolding sint_sbintrunc' using assms(2,3)
    by (intro sym [OF iffD2 [OF signed_take_bit_int_eq_self_iff]] conjI)
  also have "\<dots> = sint (word_of_int j :: 'a word)"
    by (rule arg_cong [OF assms(1)])
  also have "\<dots> = j"
    unfolding sint_sbintrunc' using assms(4,5)
    by (intro iffD2 [OF signed_take_bit_int_eq_self_iff] conjI)
  finally show ?thesis .
qed

lemma unat_of_char: "unat (of_char c :: u8) = of_char c"
proof -
  have "(of_char c :: u8) = of_nat (of_char c)" by (rule of_nat_of_char [symmetric])
  then show ?thesis by (simp only: unat_of_nat) (simp add: take_bit_eq_mod)
qed

lemma map_of_char_inj: "map (of_char :: char \<Rightarrow> u8) xs = map of_char ys \<Longrightarrow> xs = ys"
proof (rule map_injective)
  show "inj (of_char :: char \<Rightarrow> u8)"
    by (rule injI) (metis unat_of_char of_char_eqI)
qed

lemma tuple_bytes_prefix:
  assumes eq: "tuple_bytes t @ us = tuple_bytes t' @ us'" and "tuple_ok t" and "tuple_ok t'"
  shows "t = t' \<and> us = us'"
proof -
  obtain i h p v where t: "t = (i, h, p, v)" by (cases t)
  obtain i' h' p' v' where t': "t' = (i', h', p', v')" by (cases t')
  have fields: "to_le 8 (word_of_int i :: u64) = to_le 8 (word_of_int i' :: u64)"
      "to_le 4 (word_of_int p :: u32) = to_le 4 (word_of_int p' :: u32)"
      "to_le 4 (word_of_int v :: u32) = to_le 4 (word_of_int v' :: u32)"
      "to_le 4 (of_nat (length h) :: u32) = to_le 4 (of_nat (length h') :: u32)"
      "map of_char h @ 0 # us = (map of_char h' @ 0 # us' :: bytes)"
    using eq by (simp_all add: t t' tuple_bytes_def)
  have i: "i = i'" and p: "p = p'" and v: "v = v'"
    using assms(2,3) word_of_int_signed_inj [OF to_le_inj [OF fields(1)]]
      word_of_int_signed_inj [OF to_le_inj [OF fields(2)]]
      word_of_int_signed_inj [OF to_le_inj [OF fields(3)]]
    by (simp_all add: t t' tuple_ok_def)
  have "(of_nat (length h) :: u32) = of_nat (length h')"
    using to_le_inj [OF fields(4)] by simp
  then have "unat (of_nat (length h) :: u32) = unat (of_nat (length h') :: u32)" by simp
  then have "length h = length h'"
    using assms(2,3) by (simp add: t t' tuple_ok_def unat_of_nat take_bit_nat_eq_self)
  then have "map of_char h = (map of_char h' :: bytes)" "us = us'"
    using fields(5) by simp_all
  then show ?thesis using i p v map_of_char_inj by (simp add: t t')
qed

lemma concat_tuples_inj:
  "concat (map tuple_bytes ts) = concat (map tuple_bytes ts')
   \<Longrightarrow> \<forall>t \<in> set ts \<union> set ts'. tuple_ok t \<Longrightarrow> ts = ts'"
proof (induction ts arbitrary: ts')
  case Nil
  then show ?case by (cases ts') (auto simp: tuple_bytes_def split: prod.splits)
next
  case (Cons t ts)
  show ?case
  proof (cases ts')
    case Nil
    then show ?thesis using Cons.prems by (auto simp: tuple_bytes_def split: prod.splits)
  next
    case (Cons t' ts'')
    then have "t = t' \<and> concat (map tuple_bytes ts) = concat (map tuple_bytes ts'')"
      using Cons.prems by (intro tuple_bytes_prefix) auto
    then show ?thesis using Cons Cons.IH [of ts''] Cons.prems(2) by auto
  qed
qed

text \<open>Workers that cannot be told apart by id, address and number of virtual nodes.\<close>

definition same_members :: "worker_info list \<Rightarrow> worker_info list \<Rightarrow> bool" where
  "same_members ws ws' \<longleftrightarrow> mset (map fingerprint_tuple ws) = mset (map fingerprint_tuple ws')"

lemma fingerprint_bytes_inj:
  assumes "\<forall>w \<in> set ws \<union> set ws'. tuple_ok (fingerprint_tuple w)"
  shows "fingerprint_bytes ws = fingerprint_bytes ws' \<longleftrightarrow> same_members ws ws'"
proof
  assume "fingerprint_bytes ws = fingerprint_bytes ws'"
  then have "sort (map fingerprint_tuple ws) = sort (map fingerprint_tuple ws')"
    unfolding fingerprint_bytes_def using assms by (intro concat_tuples_inj) auto
  then have "mset (sort (map fingerprint_tuple ws)) = mset (sort (map fingerprint_tuple ws'))"
    by (rule arg_cong)
  then show "same_members ws ws'" by (simp add: same_members_def)
next
  assume "same_members ws ws'"
  then have "sort (map fingerprint_tuple ws) = sort (map fingerprint_tuple ws')"
    unfolding same_members_def by (intro properties_for_sort) simp_all
  then show "fingerprint_bytes ws = fingerprint_bytes ws'"
    by (simp add: fingerprint_bytes_def)
qed

section \<open>Refreshing the worker list\<close>

text \<open>
  A refresh installs the membership it was given: if the hash of the fingerprint does not
  collide on the two encoded lists (and is not zero on the current one), the workers the
  router has afterwards are those of the new list, up to order, by id, host, port and number
  of virtual nodes, whichever path was taken.
\<close>

theorem update_workers_members:
  assumes "\<forall>w \<in> set ws \<union> set (wr_workers r). tuple_ok (fingerprint_tuple w)"
    and "he_xxh3 env (fingerprint_bytes ws) = he_xxh3 env (fingerprint_bytes (wr_workers r))
      \<Longrightarrow> fingerprint_bytes ws = fingerprint_bytes (wr_workers r)"
    and "he_xxh3 env (fingerprint_bytes (wr_workers r)) \<noteq> 0"
  shows "same_members (wr_workers (update_workers env now ws r)) ws"
proof (cases "workers_fingerprint env ws = workers_fingerprint env (wr_workers r) \<and> wr_workers r \<noteq> []")
  case True
  then have "ws \<noteq> []" using assms(3) by (auto simp: workers_fingerprint_def)
  then have "fingerprint_bytes ws = fingerprint_bytes (wr_workers r)"
    using True assms(2) by (simp add: workers_fingerprint_def)
  then have "same_members ws (wr_workers r)" using assms(1) by (simp add: fingerprint_bytes_inj)
  then show ?thesis using True by (simp add: update_workers_def same_members_def)
next
  case False
  then show ?thesis by (auto simp: update_workers_def same_members_def)
qed

theorem update_workers_members_witness:
  "same_members
     (wr_workers (update_workers sample_env 9 [sample_worker 2 ''b'', sample_worker 1 ''a''] sample_router))
     [sample_worker 2 ''b'', sample_worker 1 ''a'']"
proof (rule update_workers_members)
  show "fingerprint_bytes [sample_worker 2 ''b'', sample_worker 1 ''a'']
      = fingerprint_bytes (wr_workers sample_router)"
    by (simp add: fingerprint_bytes_def sample_router_sel fingerprint_tuple_def sample_worker_def)
qed (simp_all add: sample_router_sel sample_env_def tuple_ok_def fingerprint_tuple_def
    sample_worker_def VIRTUAL_NODES_PER_WORKER_def)

text \<open>
  (C36) A refresh that finds the same membership drops the new list: the router keeps its old
  entries, so capacity, persisted bytes and the flag that forbids writes stay as they were
  when the membership last changed, and the write path filters on these old values.
\<close>

theorem update_workers_keeps_stale:
  assumes "wr_workers r \<noteq> []" and "same_members ws (wr_workers r)"
  shows "update_workers env now ws r = r\<lparr>wr_last_refresh := now\<rparr>"
proof -
  have sort: "sort (map fingerprint_tuple ws) = sort (map fingerprint_tuple (wr_workers r))"
    using assms(2) unfolding same_members_def by (intro properties_for_sort) simp_all
  have "mset (map fingerprint_tuple (wr_workers r)) \<noteq> {#}" using assms(1) by simp
  then have "ws \<noteq> []" using assms(2) by (auto simp: same_members_def)
  then have "workers_fingerprint env ws = workers_fingerprint env (wr_workers r)"
    using assms(1) sort by (simp add: workers_fingerprint_def fingerprint_bytes_def)
  then show ?thesis using assms(1) by (simp add: update_workers_def)
qed

definition forbid_writes :: "worker_info \<Rightarrow> worker_info" where
  "forbid_writes w = w\<lparr>w_forbid_write := Some True\<rparr>"

lemma sample_worker_space:
  "worker_has_persist_space (sample_worker wid host) 512 (Finite (1 / 4)) 0"
proof -
  have "persist_capacity 1024 0 = 1024" by code_simp
  moreover have "f32 (f32 (of_int (wrap_i64 1024)) / f32 (of_int 1024)) = 1" by code_simp
  ultimately show ?thesis
    by (simp add: worker_has_persist_space_def sample_worker_def wrap_i64_id)
qed

theorem update_workers_keeps_stale_witness:
  "(let new = [forbid_writes (sample_worker 1 ''a''), forbid_writes (sample_worker 2 ''b'')];
        r = update_workers sample_env 9 new sample_router
    in filter_no_space_workers new False 1 512 (Finite (1 / 4)) 0 = []
       \<and> filter_no_space_workers (wr_workers r) False 1 512 (Finite (1 / 4)) 0
           = [sample_worker 1 ''a'', sample_worker 2 ''b''])"
proof -
  let ?new = "[forbid_writes (sample_worker 1 ''a''), forbid_writes (sample_worker 2 ''b'')]"
  have "same_members ?new (wr_workers sample_router)"
    by (simp add: same_members_def sample_router_sel forbid_writes_def fingerprint_tuple_def)
  moreover have "wr_workers sample_router \<noteq> []" by (simp add: sample_router_sel)
  ultimately have "update_workers sample_env 9 ?new sample_router = sample_router\<lparr>wr_last_refresh := 9\<rparr>"
    by (intro update_workers_keeps_stale)
  then show ?thesis
    by (simp add: filter_no_space_workers_def sample_router_sel sample_worker_space)
      (simp add: forbid_writes_def sample_worker_def)
qed

end
