(* ===== verification/Router_Publish.thy ===== *)
theory Router_Publish
  imports Worker_Router
begin

text \<open>
  How a new worker list becomes visible (\<open>update_workers\<close> in \<^verbatim>\<open>src/src/block/router.rs\<close>).  The list, the
  ring, the refresh clock and the local worker are four stores, with an await before the last;
  other tasks run between them.  An update is a task with a program counter, a step is one store,
  and what readers change (the failure set, a local worker probed lazily) may happen at any
  moment.
\<close>

section \<open>The stores of an update\<close>

text \<open>
  The next store of a task: none, the clock of the fast path, the list, the ring, the clock, the
  local worker.  \<open>RingDue\<close> also remembers the list that was replaced.
\<close>

datatype update_pc =
    Resting
  | Touching
  | Storing "worker_info list"
  | RingDue "worker_info list" "worker_info list"
  | ClockDue "worker_info list"
  | Probing "worker_info list"

definition plan_update :: "host_env \<Rightarrow> worker_info list \<Rightarrow> worker_router \<Rightarrow> update_pc" where
  "plan_update env workers r =
     (if workers_fingerprint env workers = workers_fingerprint env (wr_workers r) \<and> wr_workers r \<noteq> []
      then Touching else Storing workers)"

text \<open>
  With \<open>serial\<close> a task calls \<open>update_workers\<close> only when no other is inside, as the one refresh task
  of a context does.
\<close>

type_synonym publication = "worker_router \<times> (nat \<Rightarrow> update_pc)"

inductive publish_step :: "bool \<Rightarrow> host_env \<Rightarrow> publication \<Rightarrow> publication \<Rightarrow> bool" for serial env where
  call: "p u = Resting \<Longrightarrow> serial \<longrightarrow> (\<forall>v. p v = Resting)
    \<Longrightarrow> publish_step serial env (r, p) (r, p(u := plan_update env workers r))"
| touch: "p u = Touching \<Longrightarrow> publish_step serial env (r, p) (r\<lparr>wr_last_refresh := now\<rparr>, p(u := Resting))"
| store_list: "p u = Storing workers
    \<Longrightarrow> publish_step serial env (r, p) (r\<lparr>wr_workers := workers\<rparr>, p(u := RingDue (wr_workers r) workers))"
| store_ring: "p u = RingDue old workers
    \<Longrightarrow> publish_step serial env (r, p) (r\<lparr>wr_hash_ring := build_hash_ring workers\<rparr>, p(u := ClockDue workers))"
| store_clock: "p u = ClockDue workers
    \<Longrightarrow> publish_step serial env (r, p) (r\<lparr>wr_last_refresh := now\<rparr>, p(u := Probing workers))"
| store_local: "p u = Probing workers
    \<Longrightarrow> publish_step serial env (r, p)
      (r\<lparr>wr_local_worker_id := Some (probe_local env workers)\<rparr>, p(u := Resting))"
| refused: "publish_step serial env (r, p) (r\<lparr>wr_last_refresh := now\<rparr>, p)"
| failures: "publish_step serial env (r, p) (r\<lparr>wr_failed := failed\<rparr>, p)"
| lazy_probe: "publish_step serial env (r, p) (r\<lparr>wr_local_worker_id := Some cached\<rparr>, p)"

inductive publish_reach :: "bool \<Rightarrow> host_env \<Rightarrow> publication \<Rightarrow> bool" for serial env where
  new: "publish_reach serial env (router_new now, \<lambda>_. Resting)"
| with_failure_ttl: "publish_reach serial env (router_with_failure_ttl now ttl, \<lambda>_. Resting)"
| with_ttls: "publish_reach serial env (router_with_ttls now ttl refresh, \<lambda>_. Resting)"
| step: "publish_reach serial env s \<Longrightarrow> publish_step serial env s s' \<Longrightarrow> publish_reach serial env s'"

section \<open>The operations as steps\<close>

abbreviation publish_steps :: "bool \<Rightarrow> host_env \<Rightarrow> publication \<Rightarrow> publication \<Rightarrow> bool" where
  "publish_steps serial env \<equiv> (publish_step serial env)\<^sup>*\<^sup>*"

lemma publish_steps_reach:
  "publish_steps serial env s s' \<Longrightarrow> publish_reach serial env s \<Longrightarrow> publish_reach serial env s'"
  by (induction rule: rtranclp_induct) (auto intro: publish_reach.step)

text \<open>An update that nothing interrupts is the operation of the sequential model.\<close>

lemma update_workers_steps:
  "publish_steps serial env (r, \<lambda>_. Resting) (update_workers env now workers r, \<lambda>_. Resting)"
proof -
  let ?rest = "\<lambda>_ :: nat. Resting"
  have call: "publish_steps serial env (r, ?rest) (r, ?rest(0 := plan_update env workers r))"
    by (intro r_into_rtranclp publish_step.call) simp_all
  show ?thesis
  proof (cases "plan_update env workers r = Touching")
    case True
    have "publish_step serial env (r, ?rest(0 := Touching)) (r\<lparr>wr_last_refresh := now\<rparr>, (?rest(0 := Touching))(0 := Resting))"
      by (rule publish_step.touch) simp
    moreover have "update_workers env now workers r = r\<lparr>wr_last_refresh := now\<rparr>"
      using True by (auto simp: plan_update_def update_workers_def split: if_splits)
    ultimately show ?thesis
      using rtranclp.rtrancl_into_rtrancl [OF call [unfolded True]] by (simp add: fun_upd_idem)
  next
    case False
    then have plan: "plan_update env workers r = Storing workers" by (simp add: plan_update_def split: if_splits)
    let ?r1 = "r\<lparr>wr_workers := workers\<rparr>"
    let ?r2 = "?r1\<lparr>wr_hash_ring := build_hash_ring workers\<rparr>"
    let ?r3 = "?r2\<lparr>wr_last_refresh := now\<rparr>"
    have "publish_step serial env (r, ?rest(0 := Storing workers)) (?r1, ?rest(0 := RingDue (wr_workers r) workers))"
      using publish_step.store_list [of "?rest(0 := Storing workers)" 0] by simp
    moreover have "publish_step serial env (?r1, ?rest(0 := RingDue (wr_workers r) workers)) (?r2, ?rest(0 := ClockDue workers))"
      using publish_step.store_ring [of "?rest(0 := RingDue (wr_workers r) workers)" 0] by simp
    moreover have "publish_step serial env (?r2, ?rest(0 := ClockDue workers)) (?r3, ?rest(0 := Probing workers))"
      using publish_step.store_clock [of "?rest(0 := ClockDue workers)" 0] by simp
    moreover have "publish_step serial env (?r3, ?rest(0 := Probing workers))
        (?r3\<lparr>wr_local_worker_id := Some (probe_local env workers)\<rparr>, ?rest)"
      using publish_step.store_local [of "?rest(0 := Probing workers)" 0] by (simp add: fun_upd_idem)
    moreover have "update_workers env now workers r = ?r3\<lparr>wr_local_worker_id := Some (probe_local env workers)\<rparr>"
      using plan by (auto simp: plan_update_def update_workers_def split: if_splits)
    ultimately show ?thesis
      using call [unfolded plan] by (simp only:)
  qed
qed

text \<open>What the reading operations change is the failure set and a local worker not yet probed.\<close>

lemma router_cleanup_step: "publish_step serial env (r, p) (router_cleanup now r, p)"
  unfolding router_cleanup_def by (rule publish_step.failures)

lemma router_select_worker_steps: "publish_steps serial env (r, p) (snd (router_select_worker env now b r), p)"
proof (cases "wr_workers r = [] \<or> wr_local_worker_id r \<noteq> None")
  case True
  then show ?thesis
    using router_cleanup_step [of serial env r p now]
    by (auto simp: router_select_worker_def Let_def split: option.splits)
next
  case False
  then have "snd (router_select_worker env now b r)
      = (router_cleanup now r)\<lparr>wr_local_worker_id := Some (probe_local env (wr_workers r))\<rparr>"
    by (auto simp: router_select_worker_def Let_def)
  moreover have "publish_step serial env (router_cleanup now r, p)
      ((router_cleanup now r)\<lparr>wr_local_worker_id := Some (probe_local env (wr_workers r))\<rparr>, p)"
    by (rule publish_step.lazy_probe)
  ultimately show ?thesis
    using router_cleanup_step [of serial env r p now] by simp
qed

lemma router_mark_failed_step: "publish_step serial env (r, p) (router_mark_failed now addr r, p)"
  unfolding router_mark_failed_def by (rule publish_step.failures)

lemma router_clear_failed_step: "publish_step serial env (r, p) (router_clear_failed r, p)"
  unfolding router_clear_failed_def by (rule publish_step.failures)

section \<open>What a reader can see\<close>

definition settled :: "worker_router \<Rightarrow> bool" where
  "settled r \<longleftrightarrow> wr_hash_ring r = build_hash_ring (wr_workers r)
     \<and> (wr_workers r \<noteq> [] \<longrightarrow> wr_local_worker_id r \<noteq> None)"

fun phase_ok :: "worker_router \<Rightarrow> update_pc \<Rightarrow> bool" where
  "phase_ok r (RingDue old workers) \<longleftrightarrow> wr_workers r = workers \<and> wr_hash_ring r = build_hash_ring old"
| "phase_ok r (ClockDue workers) \<longleftrightarrow> wr_workers r = workers \<and> wr_hash_ring r = build_hash_ring workers"
| "phase_ok r (Probing workers) \<longleftrightarrow> wr_workers r = workers \<and> wr_hash_ring r = build_hash_ring workers"
| "phase_ok r _ \<longleftrightarrow> settled r"

lemma phase_ok_frame:
  "phase_ok (r\<lparr>wr_last_refresh := now\<rparr>) ph \<longleftrightarrow> phase_ok r ph"
  "phase_ok (r\<lparr>wr_failed := failed\<rparr>) ph \<longleftrightarrow> phase_ok r ph"
  "phase_ok r ph \<Longrightarrow> phase_ok (r\<lparr>wr_local_worker_id := Some l\<rparr>) ph"
  by (cases ph; auto simp: settled_def)+

text \<open>At most one task is inside, and the router is as its program counter says.\<close>

definition one_update :: "publication \<Rightarrow> bool" where
  "one_update = (\<lambda>(r, p). \<exists>u. (\<forall>v. v \<noteq> u \<longrightarrow> p v = Resting) \<and> phase_ok r (p u))"

lemma one_updateE:
  assumes "one_update (r, p)" "p u \<noteq> Resting"
  shows "(\<forall>v. v \<noteq> u \<longrightarrow> p v = Resting) \<and> phase_ok r (p u)"
proof -
  obtain u' where u': "\<forall>v. v \<noteq> u' \<longrightarrow> p v = Resting" "phase_ok r (p u')"
    using assms(1) by (auto simp: one_update_def)
  have "u' = u"
  proof (rule ccontr)
    assume "u' \<noteq> u"
    then show False using u'(1) assms(2) by simp
  qed
  with u' show ?thesis by simp
qed

lemma one_updateI: "(\<forall>v. v \<noteq> u \<longrightarrow> p v = Resting) \<Longrightarrow> phase_ok r ph \<Longrightarrow> one_update (r, p(u := ph))"
  unfolding one_update_def by auto

lemma publish_step_one_update:
  assumes "publish_step True env (r, p) s" "one_update (r, p)"
  shows "one_update s"
  using assms(1)
proof (cases rule: publish_step.cases)
  case (call u workers)
  then have "settled r" using assms(2) by (auto simp: one_update_def)
  then show ?thesis using call by (auto intro!: one_updateI simp: plan_update_def)
next
  case (touch u now)
  with one_updateE [OF assms(2), of u] show ?thesis by (auto intro!: one_updateI simp: settled_def)
next
  case (store_list u workers)
  with one_updateE [OF assms(2), of u] show ?thesis by (auto intro!: one_updateI simp: settled_def)
next
  case (store_ring u old workers)
  with one_updateE [OF assms(2), of u] show ?thesis by (auto intro!: one_updateI)
next
  case (store_clock u workers now)
  with one_updateE [OF assms(2), of u] show ?thesis by (auto intro!: one_updateI)
next
  case (store_local u workers)
  with one_updateE [OF assms(2), of u] show ?thesis by (auto intro!: one_updateI simp: settled_def)
qed (use assms(2) in \<open>auto simp: one_update_def phase_ok_frame\<close>)

lemma publish_reach_one_update: "publish_reach True env s \<Longrightarrow> one_update s"
proof (induction rule: publish_reach.induct)
  case (step s s')
  then show ?case using publish_step_one_update by (cases s) blast
qed (simp_all add: one_update_def settled_def router_new_def router_with_failure_ttl_def router_with_ttls_def)

text \<open>
  (C14) The ring belongs to the list, up to one window.  With updates one at a time, interleaved store
  by store with any use of the router, the published ring is always that of the published list,
  except between the first two stores of an update, where it is that of the list just replaced.
  Whenever no update is inside, list and ring agree and a router with workers has been probed for
  a local one.
\<close>

theorem router_invariant:
  assumes "publish_reach True env (r, p)"
  shows "(wr_hash_ring r = build_hash_ring (wr_workers r)
      \<or> (\<exists>u old. p u = RingDue old (wr_workers r) \<and> wr_hash_ring r = build_hash_ring old))
    \<and> ((\<forall>u. p u = Resting) \<longrightarrow> wr_hash_ring r = build_hash_ring (wr_workers r)
        \<and> (wr_workers r = [] \<or> (\<exists>l. wr_local_worker_id r = Some l)))"
proof -
  obtain u where "phase_ok r (p u)"
    using publish_reach_one_update [OF assms] by (auto simp: one_update_def)
  then show ?thesis by (cases "p u") (auto simp: settled_def)
qed

theorem router_invariant_witness:
  "wr_hash_ring sample_router = build_hash_ring [sample_worker 1 ''a'', sample_worker 2 ''b'']
   \<and> (\<exists>l. wr_local_worker_id sample_router = Some l)"
proof -
  have "publish_reach True sample_env (sample_router, \<lambda>_. Resting)"
    unfolding sample_router_def by (rule publish_steps_reach [OF update_workers_steps publish_reach.new])
  from router_invariant [OF this] show ?thesis by (simp add: sample_router_sel)
qed

text \<open>A reader that paired a list with another list's ring still gets a worker of its list.\<close>

lemma select_loop_member: "select_loop left b ws ring skip f visited = Some w \<Longrightarrow> w \<in> set ws"
  by (induction left arbitrary: visited) (auto simp: Let_def split: if_splits option.splits)

lemma select_from_ring_member: "consistent_hash_select_from_ring b ws ring skip f = Some w \<Longrightarrow> w \<in> set ws"
  by (auto simp: consistent_hash_select_from_ring_def split: if_splits dest: select_loop_member)

lemma torn_select_sound:
  "fst (router_select_worker env now b (r\<lparr>wr_hash_ring := ring\<rparr>)) = Inr w \<Longrightarrow> w \<in> set (wr_workers r)"
  using select_from_ring_member usable_local_sound
  by (fastforce simp: router_select_worker_def Let_def split: if_splits option.splits)

section \<open>Concurrent updates\<close>

definition two_updates :: "update_pc \<Rightarrow> update_pc \<Rightarrow> nat \<Rightarrow> update_pc" where
  "two_updates x y u = (if u = 0 then x else if u = 1 then y else Resting)"

lemma two_updates_upd [simp]:
  "(two_updates x y)(0 := z) = two_updates z y" "(two_updates x y)(Suc 0 := z) = two_updates x z"
  "two_updates x y 0 = x" "two_updates x y (Suc 0) = y" "two_updates Resting Resting = (\<lambda>_. Resting)"
  by (auto simp: two_updates_def fun_eq_iff)

lemma two_updates_steps:
  assumes "wr_workers r = []" "ws \<noteq> []"
  shows "publish_steps False env (r, \<lambda>_. Resting)
    (r\<lparr>wr_workers := ws, wr_hash_ring := [], wr_last_refresh := now, wr_local_worker_id := Some None\<rparr>, \<lambda>_. Resting)"
proof -
  let ?step = "publish_step False env" and ?two = two_updates
  let ?r1 = "r\<lparr>wr_workers := []\<rparr>" and ?r2 = "r\<lparr>wr_workers := ws\<rparr>"
  let ?r3 = "?r2\<lparr>wr_hash_ring := build_hash_ring ws\<rparr>" and ?r4 = "?r2\<lparr>wr_hash_ring := []\<rparr>"
  let ?r5 = "?r4\<lparr>wr_last_refresh := now\<rparr>"
  let ?r6 = "?r5\<lparr>wr_local_worker_id := Some (probe_local env ws)\<rparr>"
  have plan: "plan_update env us r = Storing us" for us using assms(1) by (simp add: plan_update_def)
  note upd = two_updates_upd(5) [symmetric]
  have "?step (r, ?two Resting Resting) (r, ?two (Storing ws) Resting)"
    using publish_step.call [of "?two Resting Resting" 0 False env r ws] by (simp add: plan del: two_updates_upd(5))
  moreover have "?step (r, ?two (Storing ws) Resting) (r, ?two (Storing ws) (Storing []))"
    using publish_step.call [of "?two (Storing ws) Resting" 1 False env r "[]"] by (simp add: plan)
  moreover have "?step (r, ?two (Storing ws) (Storing [])) (?r1, ?two (Storing ws) (RingDue [] []))"
    using publish_step.store_list [of "?two (Storing ws) (Storing [])" 1 "[]" False env r] assms(1) by simp
  moreover have "?step (?r1, ?two (Storing ws) (RingDue [] [])) (?r2, ?two (RingDue [] ws) (RingDue [] []))"
    using publish_step.store_list [of "?two (Storing ws) (RingDue [] [])" 0 ws False env ?r1] by simp
  moreover have "?step (?r2, ?two (RingDue [] ws) (RingDue [] [])) (?r3, ?two (ClockDue ws) (RingDue [] []))"
    using publish_step.store_ring [of "?two (RingDue [] ws) (RingDue [] [])" 0 "[]" ws False env ?r2] by simp
  moreover have "?step (?r3, ?two (ClockDue ws) (RingDue [] [])) (?r4, ?two (ClockDue ws) (ClockDue []))"
    using publish_step.store_ring [of "?two (ClockDue ws) (RingDue [] [])" 1 "[]" "[]" False env ?r3]
    by (simp add: build_hash_ring_empty_iff)
  moreover have "?step (?r4, ?two (ClockDue ws) (ClockDue [])) (?r5, ?two (Probing ws) (ClockDue []))"
    using publish_step.store_clock [of "?two (ClockDue ws) (ClockDue [])" 0 ws False env ?r4 now] by simp
  moreover have "?step (?r5, ?two (Probing ws) (ClockDue [])) (?r5, ?two (Probing ws) (Probing []))"
    using publish_step.store_clock [of "?two (Probing ws) (ClockDue [])" 1 "[]" False env ?r5 now] by simp
  moreover have "?step (?r5, ?two (Probing ws) (Probing [])) (?r6, ?two Resting (Probing []))"
    using publish_step.store_local [of "?two (Probing ws) (Probing [])" 0 ws False env ?r5] by simp
  moreover have "?step (?r6, ?two Resting (Probing [])) (?r5\<lparr>wr_local_worker_id := Some None\<rparr>, ?two Resting Resting)"
    using publish_step.store_local [of "?two Resting (Probing [])" 1 "[]" False env ?r6]
    by (simp add: probe_local_def)
  ultimately show ?thesis unfolding upd by simp
qed

text \<open>
  Two concurrent updates can strand the router.  Whatever workers one of two concurrent first
  updates brings, when the other brings none their stores can interleave so that the
  router ends, with no update inside, with all those workers and an empty ring: every selection by
  hash fails, and a refresh with the same workers takes the fast path and leaves it so.
\<close>

lemma concurrent_updates_strand:
  assumes "ws \<noteq> []"
  shows "\<exists>r. publish_reach False env (r, \<lambda>_. Resting) \<and> wr_workers r = ws
     \<and> (\<forall>now b. fst (router_select_worker env now b r) = Inl (no_suitable b))
     \<and> (\<forall>now. update_workers env now ws r = r\<lparr>wr_last_refresh := now\<rparr>)"
proof -
  let ?r = "(router_new 0)\<lparr>wr_workers := ws, wr_hash_ring := [], wr_last_refresh := 0, wr_local_worker_id := Some None\<rparr>"
  have "publish_reach False env (?r, \<lambda>_. Resting)"
    by (rule publish_steps_reach [OF two_updates_steps [OF _ assms] publish_reach.new]) (simp add: router_new_def)
  then show ?thesis
    using assms
    by (intro exI [of _ ?r]) (simp add: router_select_worker_def Let_def usable_local_def
        consistent_hash_select_from_ring_def update_workers_def)
qed

end
