(* ===== verification/Rust_Text.thy ===== *)
theory Rust_Text
  imports Client_Error
begin

text \<open>
  The text operations of Rust's standard library the page store relies on: UTF-8
  decoding as \<open>read_to_string\<close> does it, \<open>str::trim\<close>, \<open>str::split_once\<close>, and
  \<open>str::parse\<close> for \<open>i64\<close> and \<open>u64\<close>.  Decoded text is a list of code points; what the
  program prints is ASCII, a \<open>string\<close>.
\<close>

section \<open>Printing\<close>

lemma of_char_digit: "d < 10 \<Longrightarrow> (of_char (digit d) :: nat) = 48 + d"
  by (simp add: digit_def)

definition digit_code :: "nat \<Rightarrow> bool" where
  "digit_code c \<longleftrightarrow> 48 \<le> c \<and> c \<le> 57"

lemma show_nat_digits: "c \<in> set (show_nat n) \<Longrightarrow> digit_code (of_char c)"
proof (induction n rule: show_nat.induct)
  case (1 n)
  then show ?case
    by (subst (asm) (2) show_nat.simps)
      (auto simp: of_char_digit digit_code_def split: if_splits)
qed

lemma show_nat_not_Nil [simp]: "show_nat n \<noteq> []"
  by (subst show_nat.simps) simp

definition str_bytes :: "string \<Rightarrow> bytes" where
  "str_bytes s = map (\<lambda>c. word_of_nat (of_char c)) s"

section \<open>Decoding\<close>

definition is_cont :: "u8 \<Rightarrow> bool" where
  "is_cont b \<longleftrightarrow> 0x80 \<le> b \<and> b \<le> 0xBF"

definition cont_bits :: "u8 \<Rightarrow> nat" where
  "cont_bits b = unat b - 0x80"

fun utf8_decode :: "bytes \<Rightarrow> nat list option" where
  "utf8_decode [] = Some []"
| "utf8_decode (b # bs) =
     (if b < 0x80 then map_option ((#) (unat b)) (utf8_decode bs)
      else if 0xC2 \<le> b \<and> b \<le> 0xDF then
        (case bs of
           c # r \<Rightarrow> if is_cont c
             then map_option ((#) (64 * (unat b - 0xC0) + cont_bits c)) (utf8_decode r) else None
         | [] \<Rightarrow> None)
      else if 0xE0 \<le> b \<and> b \<le> 0xEF then
        (case bs of
           c # d # r \<Rightarrow>
             if is_cont c \<and> is_cont d \<and> (b = 0xE0 \<longrightarrow> 0xA0 \<le> c) \<and> (b = 0xED \<longrightarrow> c \<le> 0x9F)
             then map_option ((#) (4096 * (unat b - 0xE0) + 64 * cont_bits c + cont_bits d))
                    (utf8_decode r) else None
         | _ \<Rightarrow> None)
      else if 0xF0 \<le> b \<and> b \<le> 0xF4 then
        (case bs of
           c # d # e # r \<Rightarrow>
             if is_cont c \<and> is_cont d \<and> is_cont e
                \<and> (b = 0xF0 \<longrightarrow> 0x90 \<le> c) \<and> (b = 0xF4 \<longrightarrow> c \<le> 0x8F)
             then map_option ((#) (262144 * (unat b - 0xF0) + 4096 * cont_bits c
                                   + 64 * cont_bits d + cont_bits e)) (utf8_decode r) else None
         | _ \<Rightarrow> None)
      else None)"

lemma utf8_decode_ascii:
  "(\<And>c. c \<in> set s \<Longrightarrow> (of_char c :: nat) < 128)
   \<Longrightarrow> utf8_decode (str_bytes s) = Some (map of_char s)"
proof (induction s)
  case (Cons c s)
  then have c: "(of_char c :: nat) < 128" by simp
  then have "unat (word_of_nat (of_char c) :: u8) = of_char c"
    by (simp add: unat_of_nat)
  with c Cons show ?case
    by (simp add: str_bytes_def word_less_nat_alt)
qed (simp add: str_bytes_def)

section \<open>Trimming, splitting and parsing\<close>

text \<open>The code points with the property White\_Space, which \<open>char::is_whitespace\<close> tests.\<close>

definition is_whitespace :: "nat \<Rightarrow> bool" where
  "is_whitespace c \<longleftrightarrow> (9 \<le> c \<and> c \<le> 13) \<or> c = 32 \<or> c = 0x85 \<or> c = 0xA0 \<or> c = 0x1680
     \<or> (0x2000 \<le> c \<and> c \<le> 0x200A) \<or> c = 0x2028 \<or> c = 0x2029 \<or> c = 0x202F \<or> c = 0x205F
     \<or> c = 0x3000"

definition trim :: "nat list \<Rightarrow> nat list" where
  "trim s = rev (dropWhile is_whitespace (rev (dropWhile is_whitespace s)))"

fun split_once :: "'a \<Rightarrow> 'a list \<Rightarrow> ('a list \<times> 'a list) option" where
  "split_once x [] = None"
| "split_once x (y # ys) =
     (if y = x then Some ([], ys) else map_option (apfst ((#) y)) (split_once x ys))"

fun parse_digits :: "nat \<Rightarrow> nat list \<Rightarrow> nat option" where
  "parse_digits acc [] = Some acc"
| "parse_digits acc (c # cs) =
     (if digit_code c then parse_digits (10 * acc + (c - 48)) cs else None)"

definition parse_u64 :: "nat list \<Rightarrow> u64 option" where
  "parse_u64 s =
     (let ds = (case s of c # cs \<Rightarrow> if c = 43 \<and> cs \<noteq> [] then cs else s | [] \<Rightarrow> [])
      in if ds = [] then None
         else case parse_digits 0 ds of
           Some n \<Rightarrow> if n < 2 ^ 64 then Some (word_of_nat n) else None
         | None \<Rightarrow> None)"

definition parse_i64 :: "nat list \<Rightarrow> i64 option" where
  "parse_i64 s =
     (let neg = (case s of c # cs \<Rightarrow> c = 45 \<and> cs \<noteq> [] | [] \<Rightarrow> False);
          ds = (case s of c # cs \<Rightarrow> if (c = 43 \<or> c = 45) \<and> cs \<noteq> [] then cs else s | [] \<Rightarrow> [])
      in if ds = [] then None
         else case parse_digits 0 ds of
           Some n \<Rightarrow>
             let v = (if neg then - int n else int n)
             in if - (2 ^ 63) \<le> v \<and> v < 2 ^ 63 then Some v else None
         | None \<Rightarrow> None)"

section \<open>Round trips\<close>

lemma parse_digits_append:
  "parse_digits acc (xs @ ys) = Option.bind (parse_digits acc xs) (\<lambda>a. parse_digits a ys)"
  by (induction acc xs rule: parse_digits.induct) auto

lemma parse_digits_show_nat: "parse_digits 0 (map of_char (show_nat n)) = Some n"
proof (induction n rule: show_nat.induct)
  case (1 n)
  show ?case
  proof (cases "n < 10")
    case True
    then show ?thesis
      by (subst show_nat.simps) (simp add: of_char_digit digit_code_def)
  next
    case False
    with 1 show ?thesis
      by (subst show_nat.simps) (simp add: parse_digits_append of_char_digit digit_code_def)
  qed
qed

lemma show_nat_inject [simp]: "show_nat m = show_nat n \<longleftrightarrow> m = n"
  by (metis option.inject parse_digits_show_nat)

lemma show_nat_Cons: "\<exists>c cs. show_nat n = c # cs \<and> digit_code (of_char c)"
proof (cases "show_nat n")
  case (Cons c cs)
  then show ?thesis using show_nat_digits [of c n] by simp
qed simp

lemma parse_u64_show: "parse_u64 (map of_char (show_nat (unat n))) = Some n"
proof -
  obtain c cs where "show_nat (unat n) = c # cs" "digit_code (of_char c)"
    using show_nat_Cons by blast
  then show ?thesis
    using parse_digits_show_nat [of "unat n"] unsigned_less [of n]
    by (auto simp: parse_u64_def digit_code_def)
qed

lemma parse_i64_show:
  assumes "- (2 ^ 63) \<le> i" and "i < 2 ^ 63"
  shows "parse_i64 (map of_char (show_int i)) = Some i"
proof (cases "i < 0")
  case True
  then show ?thesis
    using assms parse_digits_show_nat [of "nat (- i)"]
    by (simp add: parse_i64_def show_int_def)
next
  case False
  obtain c cs where "show_nat (nat i) = c # cs" "digit_code (of_char c)"
    using show_nat_Cons by blast
  then show ?thesis
    using False assms parse_digits_show_nat [of "nat i"]
    by (auto simp: parse_i64_def show_int_def digit_code_def)
qed

lemma show_int_codes:
  "c \<in> set (show_int i) \<Longrightarrow> digit_code (of_char c) \<or> of_char c = (45 :: nat)"
  by (auto simp: show_int_def split: if_splits dest: show_nat_digits)

lemma show_int_not_Nil [simp]: "show_int i \<noteq> []"
  by (simp add: show_int_def)

lemma dropWhile_none: "(\<And>x. x \<in> set xs \<Longrightarrow> \<not> P x) \<Longrightarrow> dropWhile P xs = xs"
  by (cases xs) auto

lemma trim_id: "(\<And>c. c \<in> set s \<Longrightarrow> \<not> is_whitespace c) \<Longrightarrow> trim s = s"
  using dropWhile_none [of s is_whitespace] dropWhile_none [of "rev s" is_whitespace]
  by (simp add: trim_def)

lemma split_once_append: "x \<notin> set xs \<Longrightarrow> split_once x (xs @ x # ys) = Some (xs, ys)"
  by (induction xs) auto

end
