(* ===== verification/Page_Store.thy ===== *)
theory Page_Store
  imports Rust_Text
begin

text \<open>
  The page store of the local cache: page identity (\<^verbatim>\<open>src/src/cache/page_id.rs\<close>), directory
  allocation (\<^verbatim>\<open>src/src/cache/allocator.rs\<close>) and the file-system backend
  (\<^verbatim>\<open>src/src/cache/store/local.rs\<close>).  A disk is a map from path names to file contents.  The
  xxHash3 package is the parameter \<open>xxh3\<close>; the outcome of each file-system call, the number of
  bytes a \<open>read\<close> delivers and the random suffix of a temporary file are arguments of the
  operations, so that every fault the code handles is a branch of the model.
\<close>

section \<open>Page identity\<close>

record page_id =
  file_id :: string
  page_index :: u64

definition page_id_of :: "string \<Rightarrow> u64 \<Rightarrow> page_id" where
  "page_id_of f i = \<lparr>file_id = f, page_index = i\<rparr>"

text \<open>\<open>None\<close> is the panic of the assertion.\<close>

definition from_file_offset :: "string \<Rightarrow> u64 \<Rightarrow> u64 \<Rightarrow> page_id option" where
  "from_file_offset f offset page_size =
     (if page_size = 0 then None
      else Some \<lparr>file_id = f, page_index = offset div page_size\<rparr>)"

definition page_start :: "page_id \<Rightarrow> u64 \<Rightarrow> u64" where
  "page_start pid page_size = page_index pid * page_size"

datatype cache_scope = Global | Named string

record page_info =
  pi_page_id :: page_id
  pi_page_size :: u64
  pi_dir_index :: nat
  pi_created_at :: nat
  pi_scope :: cache_scope

text \<open>
  \<open>Hash for str\<close> feeds the bytes and a closing byte \<open>0xff\<close> to the streaming hasher; \<open>xxh3\<close> is the
  hash of the bytes fed.
\<close>

definition hash_allocate :: "(string \<Rightarrow> u64) \<Rightarrow> page_id \<Rightarrow> nat \<Rightarrow> nat" where
  "hash_allocate xxh3 pid num_dirs =
     (if num_dirs \<le> 1 then 0 else unat (xxh3 (file_id pid @ [CHR 0xFF]) mod word_of_nat num_dirs))"

section \<open>Paths\<close>

type_synonym disk = "string \<rightharpoonup> bytes"

text \<open>\<open>Path::join\<close>: an absolute name replaces the path, and a separator is added if missing.\<close>

definition path_join :: "string \<Rightarrow> string \<Rightarrow> string" where
  "path_join p q =
     (if q \<noteq> [] \<and> hd q = CHR ''/'' then q
      else if p = [] \<or> last p = CHR ''/'' then p @ q
      else p @ ''/'' @ q)"

definition store_root :: "string \<Rightarrow> u64 \<Rightarrow> string" where
  "store_root dir page_size = path_join dir (show_nat (unat page_size))"

definition NUM_BUCKETS :: u64 where
  "NUM_BUCKETS = 1000"

definition IDENTITY_FILE :: string where
  "IDENTITY_FILE = ''.identity''"

definition file_dir :: "(string \<Rightarrow> u64) \<Rightarrow> string \<Rightarrow> string \<Rightarrow> string" where
  "file_dir xxh3 root f =
     path_join (path_join root (show_nat (unat (xxh3 f mod NUM_BUCKETS)))) f"

definition page_path :: "(string \<Rightarrow> u64) \<Rightarrow> string \<Rightarrow> page_id \<Rightarrow> string" where
  "page_path xxh3 root pid =
     path_join (file_dir xxh3 root (file_id pid)) (show_nat (unat (page_index pid)))"

definition identity_path :: "(string \<Rightarrow> u64) \<Rightarrow> string \<Rightarrow> string \<Rightarrow> string" where
  "identity_path xxh3 root f = path_join (file_dir xxh3 root f) IDENTITY_FILE"

definition is_identity_file :: "string \<Rightarrow> bool" where
  "is_identity_file name \<longleftrightarrow> name = IDENTITY_FILE"

section \<open>Writing a file through a temporary sibling\<close>

text \<open>
  Where a write stops: at one of its calls, after \<open>n\<close> bytes have reached the temporary file,
  or not at all.  \<open>cleaned\<close> is whether the removal of the temporary file succeeds.
\<close>

datatype write_outcome =
    Done | MkdirFails | CreateFails | WriteFails nat | FlushFails nat | RenameFails

definition io_error :: "string \<Rightarrow> client_error" where
  "io_error message = EInternal message"

fun write_tmp :: "write_outcome \<Rightarrow> string \<Rightarrow> string \<Rightarrow> bytes \<Rightarrow> disk \<Rightarrow> unit result \<times> disk" where
  "write_tmp CreateFails final_path tmp_path page d = (Inl (io_error ''create temp page file''), d)"
| "write_tmp (WriteFails n) final_path tmp_path page d =
     (Inl (io_error ''write temp page file''), d(tmp_path \<mapsto> take n page))"
| "write_tmp (FlushFails n) final_path tmp_path page d =
     (Inl (io_error ''flush temp page file''), d(tmp_path \<mapsto> take n page))"
| "write_tmp RenameFails final_path tmp_path page d =
     (Inl (io_error ''rename temp page file''), d(tmp_path \<mapsto> page))"
| "write_tmp _ final_path tmp_path page d = (Inr (), (d(tmp_path := None))(final_path \<mapsto> page))"

definition cleanup_tmp :: "bool \<Rightarrow> string \<Rightarrow> unit result \<times> disk \<Rightarrow> unit result \<times> disk" where
  "cleanup_tmp cleaned tmp_path = (\<lambda>(res, d).
     case res of Inl e \<Rightarrow> (Inl e, if cleaned then d(tmp_path := None) else d)
               | Inr _ \<Rightarrow> (Inr (), d))"

definition store_put ::
  "(string \<Rightarrow> u64) \<Rightarrow> string \<Rightarrow> write_outcome \<Rightarrow> bool \<Rightarrow> string \<Rightarrow> page_id \<Rightarrow> bytes \<Rightarrow> disk
   \<Rightarrow> unit result \<times> disk" where
  "store_put xxh3 root io cleaned uuid pid page d =
     (let final_path = page_path xxh3 root pid;
          parent = file_dir xxh3 root (file_id pid)
      in if io = MkdirFails then (Inl (io_error (''create page dir '' @ parent)), d)
         else
           let tmp_path = path_join parent (show_nat (unat (page_index pid)) @ ''.tmp-'' @ uuid)
           in cleanup_tmp cleaned tmp_path (write_tmp io final_path tmp_path page d))"

text \<open>The sidecar is written by \<open>tokio::fs::write\<close>, which creates, writes and closes the file.\<close>

fun write_identity_tmp ::
  "write_outcome \<Rightarrow> string \<Rightarrow> string \<Rightarrow> bytes \<Rightarrow> disk \<Rightarrow> unit result \<times> disk" where
  "write_identity_tmp CreateFails final_path tmp_path c d =
     (Inl (io_error ''write temp identity file''), d)"
| "write_identity_tmp (WriteFails n) final_path tmp_path c d =
     (Inl (io_error ''write temp identity file''), d(tmp_path \<mapsto> take n c))"
| "write_identity_tmp (FlushFails n) final_path tmp_path c d =
     (Inl (io_error ''write temp identity file''), d(tmp_path \<mapsto> take n c))"
| "write_identity_tmp RenameFails final_path tmp_path c d =
     (Inl (io_error ''rename temp identity file''), d(tmp_path \<mapsto> c))"
| "write_identity_tmp _ final_path tmp_path c d =
     (Inr (), (d(tmp_path := None))(final_path \<mapsto> c))"

definition identity_text :: "i64 \<Rightarrow> i64 \<Rightarrow> string" where
  "identity_text len mtime = show_int len @ '','' @ show_int mtime"

definition write_identity ::
  "(string \<Rightarrow> u64) \<Rightarrow> string \<Rightarrow> write_outcome \<Rightarrow> bool \<Rightarrow> string \<Rightarrow> string \<Rightarrow> i64 \<Rightarrow> i64 \<Rightarrow> disk
   \<Rightarrow> unit result \<times> disk" where
  "write_identity xxh3 root io cleaned uuid f len mtime d =
     (let final_path = identity_path xxh3 root f;
          parent = file_dir xxh3 root f
      in if io = MkdirFails then (Inl (io_error (''create identity dir '' @ parent)), d)
         else
           let tmp_path = path_join parent (IDENTITY_FILE @ ''.tmp-'' @ uuid)
           in cleanup_tmp cleaned tmp_path
                (write_identity_tmp io final_path tmp_path (str_bytes (identity_text len mtime)) d))"

section \<open>Reading and deleting\<close>

text \<open>
  \<open>reads\<close> answers each \<open>read\<close> call by the number of bytes filled so far: \<open>None\<close> is an error,
  and a call delivers at least one byte unless the file ends, and no more than it asked for.
\<close>

definition read_count :: "nat \<Rightarrow> nat \<Rightarrow> nat \<Rightarrow> nat" where
  "read_count k avail room = (if avail = 0 then 0 else max 1 (min k (min avail room)))"

lemma read_count_le: "0 < room \<Longrightarrow> read_count k avail room \<le> min avail room"
  by (auto simp: read_count_def min.coboundedI1 min.coboundedI2)

lemma read_count_seg:
  "0 < room \<Longrightarrow> length (seg off (read_count k (length content - off) room) content)
     = read_count k (length content - off) room"
  using read_count_le [of room k "length content - off"] by (simp add: length_seg)

function read_loop :: "(nat \<Rightarrow> nat option) \<Rightarrow> bytes \<Rightarrow> nat \<Rightarrow> nat \<Rightarrow> bytes \<Rightarrow> bytes result" where
  "read_loop reads content offset len dst =
     (if length dst < len then
        case reads (length dst) of
          None \<Rightarrow> Inl (io_error ''read page file'')
        | Some k \<Rightarrow>
            let n = read_count k (length content - (offset + length dst)) (len - length dst)
            in if n = 0 then Inr dst
               else read_loop reads content offset len (dst @ seg (offset + length dst) n content)
      else Inr dst)"
  by pat_completeness auto
termination
  by (relation "measure (\<lambda>(_, _, _, len, dst). len - length dst)")
    (simp_all add: read_count_seg)

declare read_loop.simps [simp del]

text \<open>\<open>opened\<close> is whether opening an existing file succeeds, \<open>seeked\<close> whether the seek does.\<close>

definition store_get ::
  "(string \<Rightarrow> u64) \<Rightarrow> string \<Rightarrow> bool \<Rightarrow> bool \<Rightarrow> (nat \<Rightarrow> nat option) \<Rightarrow> page_id \<Rightarrow> nat \<Rightarrow> nat \<Rightarrow> disk
   \<Rightarrow> bytes result" where
  "store_get xxh3 root opened seeked reads pid offset len d =
     (case d (page_path xxh3 root pid) of
        None \<Rightarrow> Inr []
      | Some content \<Rightarrow>
          if \<not> opened then Inl (io_error ''open page file'')
          else if 0 < offset \<and> \<not> seeked then Inl (io_error ''seek page file'')
          else read_loop reads content offset len [])"

definition store_get_bytes ::
  "(string \<Rightarrow> u64) \<Rightarrow> string \<Rightarrow> bool \<Rightarrow> bool \<Rightarrow> (nat \<Rightarrow> nat option) \<Rightarrow> page_id \<Rightarrow> nat \<Rightarrow> nat \<Rightarrow> disk
   \<Rightarrow> bytes result" where
  "store_get_bytes xxh3 root opened seeked reads pid offset len d =
     (if len = 0 then Inr [] else store_get xxh3 root opened seeked reads pid offset len d)"

definition remove_path :: "string \<Rightarrow> bool \<Rightarrow> string \<Rightarrow> disk \<Rightarrow> unit result \<times> disk" where
  "remove_path what removed path d =
     (if d path = None then (Inr (), d)
      else if removed then (Inr (), d(path := None))
      else (Inl (io_error what), d))"

definition store_delete ::
  "(string \<Rightarrow> u64) \<Rightarrow> string \<Rightarrow> bool \<Rightarrow> page_id \<Rightarrow> disk \<Rightarrow> unit result \<times> disk" where
  "store_delete xxh3 root removed pid d =
     remove_path ''delete page file'' removed (page_path xxh3 root pid) d"

definition delete_identity ::
  "(string \<Rightarrow> u64) \<Rightarrow> string \<Rightarrow> bool \<Rightarrow> string \<Rightarrow> disk \<Rightarrow> unit result \<times> disk" where
  "delete_identity xxh3 root removed f d =
     remove_path ''delete identity file'' removed (identity_path xxh3 root f) d"

definition parse_identity :: "nat list \<Rightarrow> (i64 \<times> i64) option" where
  "parse_identity contents =
     (case split_once 44 (trim contents) of
        None \<Rightarrow> None
      | Some (l, m) \<Rightarrow>
          (case parse_i64 (trim l) of
             None \<Rightarrow> None
           | Some len \<Rightarrow> map_option (Pair len) (parse_i64 (trim m))))"

definition read_identity ::
  "(string \<Rightarrow> u64) \<Rightarrow> string \<Rightarrow> bool \<Rightarrow> string \<Rightarrow> disk \<Rightarrow> (i64 \<times> i64) option" where
  "read_identity xxh3 root opened f d =
     (case d (identity_path xxh3 root f) of
        None \<Rightarrow> None
      | Some c \<Rightarrow>
          if opened then Option.bind (utf8_decode c) parse_identity else None)"

section \<open>Paths tell pages apart\<close>

text \<open>
  A file id that is one ordinary path component, as the decimal inode number the readers use.
\<close>

definition plain_name :: "string \<Rightarrow> bool" where
  "plain_name s \<longleftrightarrow> s \<noteq> [] \<and> CHR ''/'' \<notin> set s \<and> s \<noteq> ''.'' \<and> s \<noteq> ''..''"

lemma digit_code_slash: "digit_code (of_char c) \<Longrightarrow> c \<noteq> CHR ''/''"
  by (auto simp: digit_code_def)

lemma digit_code_dot: "digit_code (of_char c) \<Longrightarrow> c \<noteq> CHR ''.''"
  by (auto simp: digit_code_def)

lemma slash_show_nat [simp]: "CHR ''/'' \<notin> set (show_nat n)"
  using show_nat_digits digit_code_slash by blast

lemma dot_show_nat [simp]: "CHR ''.'' \<notin> set (show_nat n)"
  using show_nat_digits digit_code_dot by blast

lemma path_join_relative:
  "q \<noteq> [] \<Longrightarrow> CHR ''/'' \<notin> set q \<Longrightarrow> path_join p q \<noteq> [] \<and> last (path_join p q) \<noteq> CHR ''/''"
  by (auto simp: path_join_def dest: last_in_set)

lemma path_join_plain:
  "q \<noteq> [] \<Longrightarrow> CHR ''/'' \<notin> set q \<Longrightarrow> p \<noteq> [] \<Longrightarrow> last p \<noteq> CHR ''/''
   \<Longrightarrow> path_join p q = p @ CHR ''/'' # q"
  by (cases q) (auto simp: path_join_def)

text \<open>Every path of a store is \<open>bucket/file/name\<close>, and the last two parts can be read off it.\<close>

lemma file_path_shape:
  assumes "plain_name f" and "name \<noteq> []" and "CHR ''/'' \<notin> set name"
  shows "\<exists>b. path_join (file_dir xxh3 root f) name = (b @ CHR ''/'' # f) @ CHR ''/'' # name"
proof -
  let ?b = "path_join root (show_nat (unat (xxh3 f mod NUM_BUCKETS)))"
  have f: "f \<noteq> []" "CHR ''/'' \<notin> set f" using assms(1) by (simp_all add: plain_name_def)
  have b: "?b \<noteq> []" "last ?b \<noteq> CHR ''/''"
    using path_join_relative [of "show_nat (unat (xxh3 f mod NUM_BUCKETS))" root] by simp_all
  have dir: "file_dir xxh3 root f = ?b @ CHR ''/'' # f"
    unfolding file_dir_def by (rule path_join_plain [OF f b])
  then have "last (file_dir xxh3 root f) \<noteq> CHR ''/''"
    using path_join_relative [OF f, of ?b] by (simp add: file_dir_def)
  then have "path_join (file_dir xxh3 root f) name = file_dir xxh3 root f @ CHR ''/'' # name"
    using assms(2,3) dir by (intro path_join_plain) simp_all
  then show ?thesis using dir by simp
qed

lemma last_part_eq:
  assumes "x \<notin> set ys" and "x \<notin> set ys'"
  shows "xs @ x # ys = xs' @ x # ys' \<longleftrightarrow> xs = xs' \<and> ys = ys'"
proof
  assume "xs @ x # ys = xs' @ x # ys'"
  then have "rev ys @ x # rev xs = rev ys' @ x # rev xs'"
    by (metis append.assoc append_Cons append_Nil rev.simps(2) rev_append)
  then have "takeWhile ((\<noteq>) x) (rev ys @ x # rev xs) = takeWhile ((\<noteq>) x) (rev ys' @ x # rev xs')"
    by (rule arg_cong)
  moreover have "takeWhile ((\<noteq>) x) (rev zs @ x # us) = rev zs" if "x \<notin> set zs" for zs us
    using that by (subst takeWhile_append2) auto
  ultimately have "ys = ys'" using assms by simp
  with \<open>xs @ x # ys = xs' @ x # ys'\<close> show "xs = xs' \<and> ys = ys'" by simp
qed simp

lemma file_path_inject:
  assumes "plain_name f" "name \<noteq> []" "CHR ''/'' \<notin> set name"
    and "plain_name g" "name' \<noteq> []" "CHR ''/'' \<notin> set name'"
    and "path_join (file_dir xxh3 root f) name = path_join (file_dir xxh3 root' g) name'"
  shows "f = g \<and> name = name'"
proof -
  obtain b b' where "(b @ CHR ''/'' # f) @ CHR ''/'' # name = (b' @ CHR ''/'' # g) @ CHR ''/'' # name'"
    using file_path_shape [OF assms(1-3), of xxh3 root] file_path_shape [OF assms(4-6), of xxh3 root']
      assms(7) by metis
  then show ?thesis
    using assms(1,3,4,6) by (simp add: last_part_eq plain_name_def del: append_assoc)
qed

lemma page_path_inject:
  "plain_name (file_id p) \<Longrightarrow> plain_name (file_id q)
   \<Longrightarrow> page_path xxh3 root p = page_path xxh3 root' q \<Longrightarrow> p = q"
  using file_path_inject [of "file_id p" "show_nat (unat (page_index p))" "file_id q"
      "show_nat (unat (page_index q))" xxh3 root root']
  by (auto simp: page_path_def word_unat_eq_iff intro: page_id.equality)

lemma show_nat_not_identity [simp]: "show_nat n \<noteq> IDENTITY_FILE"
  by (metis dot_show_nat IDENTITY_FILE_def list.set_intros(1))

lemma identity_name [simp]: "IDENTITY_FILE \<noteq> []" "CHR ''/'' \<notin> set IDENTITY_FILE"
  by (simp_all add: IDENTITY_FILE_def)

lemma page_path_not_identity:
  "plain_name (file_id p) \<Longrightarrow> plain_name f
   \<Longrightarrow> page_path xxh3 root p \<noteq> identity_path xxh3 root' f"
  using file_path_inject [of "file_id p" "show_nat (unat (page_index p))" f IDENTITY_FILE
      xxh3 root root']
  by (auto simp: page_path_def identity_path_def)

lemma identity_path_inject:
  "plain_name f \<Longrightarrow> plain_name g \<Longrightarrow> identity_path xxh3 root f = identity_path xxh3 root' g \<Longrightarrow> f = g"
  using file_path_inject [of f IDENTITY_FILE g IDENTITY_FILE xxh3 root root']
  by (simp add: identity_path_def)

section \<open>What a write changes\<close>

lemma tmp_name_slash: "CHR ''/'' \<notin> set uuid \<Longrightarrow> CHR ''/'' \<notin> set (show_nat n @ ''.tmp-'' @ uuid)"
  "CHR ''/'' \<notin> set uuid \<Longrightarrow> CHR ''/'' \<notin> set (IDENTITY_FILE @ ''.tmp-'' @ uuid)"
  by simp_all

lemma tmp_name_not_page: "pre @ ''.tmp-'' @ uuid \<noteq> show_nat n"
proof
  assume "pre @ ''.tmp-'' @ uuid = show_nat n"
  then have "CHR ''.'' \<in> set (show_nat n)" by (metis in_set_conv_decomp append_Cons)
  then show False by simp
qed

lemma tmp_name_not_identity:
  "show_nat n @ ''.tmp-'' @ uuid \<noteq> IDENTITY_FILE" "IDENTITY_FILE @ ''.tmp-'' @ uuid \<noteq> IDENTITY_FILE"
proof -
  obtain c cs where "show_nat n = c # cs" "digit_code (of_char c)" using show_nat_Cons by blast
  then show "show_nat n @ ''.tmp-'' @ uuid \<noteq> IDENTITY_FILE"
    using digit_code_dot by (auto simp: IDENTITY_FILE_def)
qed simp

text \<open>A temporary file is neither a page nor a sidecar, of any file in any directory.\<close>

lemma tmp_not_page_path:
  assumes "plain_name f" "plain_name (file_id q)" "CHR ''/'' \<notin> set pre" "CHR ''/'' \<notin> set uuid"
  shows "page_path xxh3 root' q \<noteq> path_join (file_dir xxh3 root f) (pre @ ''.tmp-'' @ uuid)"
  using file_path_inject [OF assms(1) _ _ assms(2), of "pre @ ''.tmp-'' @ uuid"
      "show_nat (unat (page_index q))" xxh3 root root'] assms(3,4) tmp_name_not_page
  unfolding page_path_def by fastforce

lemma tmp_not_identity_path:
  assumes "plain_name f" "plain_name g" "CHR ''/'' \<notin> set pre" "CHR ''/'' \<notin> set uuid"
    and "pre @ ''.tmp-'' @ uuid \<noteq> IDENTITY_FILE"
  shows "identity_path xxh3 root' g \<noteq> path_join (file_dir xxh3 root f) (pre @ ''.tmp-'' @ uuid)"
  using file_path_inject [OF assms(1) _ _ assms(2), of "pre @ ''.tmp-'' @ uuid"
      IDENTITY_FILE xxh3 root root'] assms(3-5)
  unfolding identity_path_def by fastforce

lemma store_put_result: "fst (store_put xxh3 root io cl uuid pid page d) = Inr () \<longleftrightarrow> io = Done"
  by (cases io) (simp_all add: store_put_def cleanup_tmp_def Let_def)

lemma store_put_frame:
  assumes "path \<noteq> path_join (file_dir xxh3 root (file_id pid))
      (show_nat (unat (page_index pid)) @ ''.tmp-'' @ uuid)"
  shows "snd (store_put xxh3 root io cl uuid pid page d) path =
    (if io = Done \<and> path = page_path xxh3 root pid then Some page else d path)"
  using assms by (cases io) (simp_all add: store_put_def cleanup_tmp_def Let_def)

lemma write_identity_frame:
  assumes "path \<noteq> path_join (file_dir xxh3 root f) (IDENTITY_FILE @ ''.tmp-'' @ uuid)"
  shows "snd (write_identity xxh3 root io cl uuid f len mtime d) path =
    (if io = Done \<and> path = identity_path xxh3 root f
     then Some (str_bytes (identity_text len mtime)) else d path)"
  using assms by (cases io) (simp_all add: write_identity_def cleanup_tmp_def Let_def)

lemma store_put_page:
  assumes "plain_name (file_id pid)" "plain_name (file_id q)" "CHR ''/'' \<notin> set uuid"
  shows "snd (store_put xxh3 root io cl uuid pid page d) (page_path xxh3 root' q) =
    (if io = Done \<and> page_path xxh3 root' q = page_path xxh3 root pid then Some page
     else d (page_path xxh3 root' q))"
  by (rule store_put_frame [OF tmp_not_page_path]) (simp_all add: assms)

lemma store_put_identity:
  assumes "plain_name (file_id pid)" "plain_name f" "CHR ''/'' \<notin> set uuid"
  shows "snd (store_put xxh3 root io cl uuid pid page d) (identity_path xxh3 root' f) =
    d (identity_path xxh3 root' f)"
  using page_path_not_identity [OF assms(1,2), of xxh3 root root']
  by (subst store_put_frame [OF tmp_not_identity_path
        [OF assms(1,2) slash_show_nat assms(3) tmp_name_not_identity(1)]]) auto

lemma write_identity_page:
  assumes "plain_name f" "plain_name (file_id q)" "CHR ''/'' \<notin> set uuid"
  shows "snd (write_identity xxh3 root io cl uuid f len mtime d) (page_path xxh3 root' q) =
    d (page_path xxh3 root' q)"
  using page_path_not_identity [OF assms(2,1), of xxh3 root' root]
  by (subst write_identity_frame [OF tmp_not_page_path]) (auto simp: assms)

lemma write_identity_identity:
  assumes "plain_name f" "plain_name g" "CHR ''/'' \<notin> set uuid"
  shows "snd (write_identity xxh3 root io cl uuid f len mtime d) (identity_path xxh3 root' g) =
    (if io = Done \<and> identity_path xxh3 root' g = identity_path xxh3 root f
     then Some (str_bytes (identity_text len mtime)) else d (identity_path xxh3 root' g))"
  by (rule write_identity_frame [OF tmp_not_identity_path])
    (simp_all add: assms tmp_name_not_identity)

lemma store_delete_other:
  "path \<noteq> page_path xxh3 root pid \<Longrightarrow> snd (store_delete xxh3 root rm pid d) path = d path"
  by (simp add: store_delete_def remove_path_def)

lemma delete_identity_other:
  "path \<noteq> identity_path xxh3 root f \<Longrightarrow> snd (delete_identity xxh3 root rm f d) path = d path"
  by (simp add: delete_identity_def remove_path_def)

text \<open>
  (C32) A page write is atomic: whichever of its file-system calls fails, and whether or not the
  temporary file could be removed, the write reports success exactly when no call failed, the
  page then holds exactly the new bytes, otherwise exactly what it held before, and no other
  page and no identity sidecar, of any file in any cache directory, is touched.
\<close>

theorem store_put_atomic:
  assumes "plain_name (file_id pid)" and "CHR ''/'' \<notin> set uuid"
  shows "(fst (store_put xxh3 root io cl uuid pid page d) = Inr () \<longleftrightarrow> io = Done)
    \<and> snd (store_put xxh3 root io cl uuid pid page d) (page_path xxh3 root pid) =
        (if io = Done then Some page else d (page_path xxh3 root pid))
    \<and> (\<forall>q root'. plain_name (file_id q) \<and> q \<noteq> pid \<longrightarrow>
         snd (store_put xxh3 root io cl uuid pid page d) (page_path xxh3 root' q) =
         d (page_path xxh3 root' q))
    \<and> (\<forall>f root'. plain_name f \<longrightarrow>
         snd (store_put xxh3 root io cl uuid pid page d) (identity_path xxh3 root' f) =
         d (identity_path xxh3 root' f))"
  using assms page_path_inject
  by (auto simp: store_put_result store_put_page store_put_identity)

definition sample_page :: page_id where
  "sample_page = \<lparr>file_id = ''42'', page_index = 3\<rparr>"

theorem store_put_atomic_witness:
  "snd (store_put (\<lambda>_. 7) ''/c/1024'' (WriteFails 1) False ''u'' sample_page [1, 2, 3]
      (\<lambda>p. if p = page_path (\<lambda>_. 7) ''/c/1024'' sample_page then Some [9] else None))
     (page_path (\<lambda>_. 7) ''/c/1024'' sample_page) = Some [9]"
  using store_put_atomic [of sample_page "''u''" "\<lambda>_. 7" "''/c/1024''" "WriteFails 1" False
      "[1, 2, 3]" "\<lambda>p. if p = page_path (\<lambda>_. 7) ''/c/1024'' sample_page then Some [9] else None"]
  by (simp add: sample_page_def plain_name_def)

section \<open>Reading back\<close>

lemma read_loop_prefix:
  assumes "\<And>i. reads i \<noteq> None" and "dst = seg offset (length dst) content" and "length dst \<le> len"
  shows "read_loop reads content offset len dst = Inr (seg offset len content)"
  using assms
proof (induction reads content offset len dst rule: read_loop.induct)
  case (1 reads content offset len dst)
  show ?case
  proof (cases "length dst < len")
    case False
    then have "length dst = len" using 1 by simp
    with 1(3) show ?thesis by (simp add: read_loop.simps [of reads])
  next
    case True
    obtain k where k: "reads (length dst) = Some k" using 1(2) by blast
    let ?n = "read_count k (length content - (offset + length dst)) (len - length dst)"
    show ?thesis
    proof (cases "?n = 0")
      case True
      then have "length content \<le> offset + length dst"
        by (auto simp: read_count_def split: if_splits)
      then have "seg offset len content = seg offset (length dst) content"
        using \<open>length dst < len\<close> by (simp add: seg_def)
      with True k 1(3) \<open>length dst < len\<close> show ?thesis by (simp add: read_loop.simps [of reads])
    next
      case False
      let ?dst = "dst @ seg (offset + length dst) ?n content"
      have n: "?n \<le> len - length dst" using read_count_le [of "len - length dst" k] True by simp
      have len: "length ?dst = length dst + ?n" using True by (simp add: read_count_seg)
      have dst: "?dst = seg offset (length ?dst) content"
        unfolding len by (subst 1(3)) (rule seg_append_seg)
      have le: "length ?dst \<le> len" unfolding len using n True by simp
      have "read_loop reads content offset len ?dst = Inr (seg offset len content)"
        by (rule 1(1) [OF True k refl False 1(2) dst le])
      with False k True show ?thesis
        by (subst read_loop.simps) (simp del: append_assoc)
    qed
  qed
qed

lemma read_loop_sound:
  assumes "read_loop reads content offset len dst = Inr bs"
    and "dst = seg offset (length dst) content" and "length dst \<le> len"
  shows "bs = seg offset len content"
proof -
  let ?reads = "\<lambda>i. Some (case reads i of None \<Rightarrow> 0 | Some k \<Rightarrow> k)"
  have "read_loop reads content offset len dst = Inr bs
      \<Longrightarrow> read_loop ?reads content offset len dst = Inr bs"
  proof (induction reads content offset len dst rule: read_loop.induct)
    case (1 reads content offset len dst)
    from 1(2) show ?case
      by (subst (asm) read_loop.simps, subst read_loop.simps)
        (auto simp: Let_def 1(1) split: option.splits if_splits)
  qed
  then show ?thesis
    using assms read_loop_prefix [of ?reads dst offset content len] by simp
qed

lemma store_get_content:
  assumes "\<And>i. reads i \<noteq> None" and "d (page_path xxh3 root pid) = Some content"
  shows "store_get xxh3 root True True reads pid offset len d = Inr (seg offset len content)"
  using read_loop_prefix [of reads "[]" offset content len] assms by (simp add: store_get_def)

lemma store_get_bytes_sound:
  assumes "store_get_bytes xxh3 root opened seeked reads pid offset len d = Inr bs"
  shows "bs = (case d (page_path xxh3 root pid) of None \<Rightarrow> [] | Some content \<Rightarrow> seg offset len content)"
  using assms read_loop_sound [of reads _ offset len "[]" bs]
  by (auto simp: store_get_bytes_def store_get_def split: if_splits option.splits)

text \<open>
  (C33) Round trip of a page: after a successful write, a read of \<open>len\<close> bytes from \<open>offset\<close> returns
  exactly those bytes of the page, cut off at its end, however the file system chops the data
  into \<open>read\<close> calls; and a page that was deleted reads as empty, which is a miss.
\<close>

theorem page_roundtrip:
  assumes "plain_name (file_id pid)" and "CHR ''/'' \<notin> set uuid" and "\<And>i. reads i \<noteq> None"
  shows "store_get_bytes xxh3 root True True reads pid offset len
      (snd (store_put xxh3 root Done cl uuid pid page d)) = Inr (seg offset len page)
    \<and> store_get_bytes xxh3 root True True reads pid offset len
      (snd (store_delete xxh3 root True pid
        (snd (store_put xxh3 root Done cl uuid pid page d)))) = Inr []"
  using store_get_content [OF assms(3)] assms(1,2)
  by (simp add: store_get_bytes_def store_put_page store_delete_def remove_path_def store_get_def)

theorem page_roundtrip_witness:
  "store_get_bytes (\<lambda>_. 7) ''/c/1024'' True True (\<lambda>_. Some 1) sample_page 1 2
      (snd (store_put (\<lambda>_. 7) ''/c/1024'' Done True ''u'' sample_page [1, 2, 3, 4] Map.empty))
    = Inr [2, 3]"
  using page_roundtrip [of sample_page "''u''" "\<lambda>_. Some 1" "\<lambda>_. 7" "''/c/1024''" 1 2 True
      "[1, 2, 3, 4]" Map.empty]
  by (simp add: sample_page_def plain_name_def seg_def)

lemma identity_text_codes:
  "c \<in> set (identity_text len mtime) \<Longrightarrow> digit_code (of_char c) \<or> of_char c \<in> {44, 45 :: nat}"
  by (auto simp: identity_text_def dest: show_int_codes)

lemma not_whitespace: "digit_code c \<or> c \<in> {44, 45} \<Longrightarrow> \<not> is_whitespace c"
  by (auto simp: digit_code_def is_whitespace_def)

lemma trim_show_int [simp]: "trim (map of_char (show_int i)) = map of_char (show_int i)"
  by (rule trim_id) (auto dest!: show_int_codes intro: not_whitespace [THEN notE])

lemma parse_identity_text:
  assumes "- (2 ^ 63) \<le> len" "len < 2 ^ 63" "- (2 ^ 63) \<le> mtime" "mtime < 2 ^ 63"
  shows "Option.bind (utf8_decode (str_bytes (identity_text len mtime))) parse_identity
    = Some (len, mtime)"
proof -
  let ?t = "map of_char (identity_text len mtime) :: nat list"
  have codes: "digit_code c \<or> c \<in> {44, 45}" if "c \<in> set ?t" for c
    using that identity_text_codes by auto
  have "utf8_decode (str_bytes (identity_text len mtime)) = Some ?t"
    using identity_text_codes by (intro utf8_decode_ascii) (force simp: digit_code_def)
  moreover have "trim ?t = ?t"
    using codes not_whitespace by (intro trim_id) blast
  moreover have "(44 :: nat) \<notin> set (map of_char (show_int len))"
    by (auto simp: digit_code_def dest!: show_int_codes)
  then have "split_once 44 ?t = Some (map of_char (show_int len), map of_char (show_int mtime))"
    using split_once_append [of 44 "map of_char (show_int len)"] by (simp add: identity_text_def)
  ultimately show ?thesis
    using parse_i64_show [OF assms(1,2)] parse_i64_show [OF assms(3,4)]
    by (simp add: parse_identity_def)
qed

text \<open>
  (C34) Round trip of the identity sidecar, which carries overwrite detection across a restart:
  for every pair of \<open>i64\<close> values, what \<open>write_identity\<close> wrote is what \<open>read_identity\<close> parses, and
  it still is after any later page write or page delete, with any fault.
\<close>

theorem identity_roundtrip:
  assumes "plain_name f" and "plain_name (file_id pid)"
    and "CHR ''/'' \<notin> set uuid" and "CHR ''/'' \<notin> set uuid'"
    and "- (2 ^ 63) \<le> len" "len < 2 ^ 63" "- (2 ^ 63) \<le> mtime" "mtime < 2 ^ 63"
  shows "let d' = snd (write_identity xxh3 root Done cl uuid f len mtime d)
    in read_identity xxh3 root True f d' = Some (len, mtime)
     \<and> read_identity xxh3 root True f (snd (store_put xxh3 root' io cl' uuid' pid page d'))
         = Some (len, mtime)
     \<and> read_identity xxh3 root True f (snd (store_delete xxh3 root' rm pid d')) = Some (len, mtime)"
  using parse_identity_text [OF assms(5-8)] page_path_not_identity [OF assms(2,1), of xxh3 root' root]
    store_put_identity [OF assms(2,1,4)] write_identity_identity [OF assms(1,1,3)]
    store_delete_other [of "identity_path xxh3 root f" xxh3 root' pid rm]
  by (simp add: Let_def read_identity_def)

theorem identity_roundtrip_witness:
  "read_identity (\<lambda>_. 7) ''/c/1024'' True ''42''
     (snd (store_put (\<lambda>_. 7) ''/d/1024'' RenameFails False ''v'' sample_page [1]
       (snd (write_identity (\<lambda>_. 7) ''/c/1024'' Done True ''u'' ''42'' 4096 (- 1) Map.empty))))
   = Some (4096, - 1)"
  using identity_roundtrip [of "''42''" sample_page "''u''" "''v''" 4096 "- 1" "\<lambda>_. 7"
      "''/c/1024''" True Map.empty "''/d/1024''" RenameFails False "[1]" True]
  by (simp add: sample_page_def plain_name_def Let_def)

end
