(* ===== verification/Page_Cache.thy ===== *)
theory Page_Cache
  imports Page_Store Ieee_Float
begin

text \<open>
  The local page cache (\<^verbatim>\<open>src/src/cache/mod.rs\<close>, \<^verbatim>\<open>src/src/cache/options.rs\<close>,
  \<^verbatim>\<open>src/src/cache/manager.rs\<close>): options, the manager's state and one definition per operation,
  each run from its first guard to its last write.  The foyer cache that holds the metadata of
  a directory is a parameter: a record of its operations, with what the manager relies on as
  the predicate \<open>foyer_ok\<close>.  The page store is the file-system backend of \<open>Page_Store\<close>.  Metrics
  and log lines are left out.
\<close>

section \<open>Options\<close>

datatype cache_evictor = Lru | Lfu | S3Fifo

record cache_config =
  client_cache_page_size :: u64
  client_cache_size :: u64
  client_cache_dirs :: "string list"
  client_cache_evictor :: cache_evictor
  client_cache_async_write_enabled :: bool
  client_cache_async_write_threads :: nat
  client_cache_quota_enabled :: bool
  client_cache_ttl_secs :: u64
  client_cache_uring_enabled :: bool
  client_cache_uring_queue_depth :: nat
  client_cache_uring_thread_count :: nat
  client_cache_sync_read_enabled :: bool

record cache_options =
  co_page_size :: u64
  co_dir_capacity :: u64
  co_dirs :: "string list"
  co_evictor :: cache_evictor
  co_async_write_enabled :: bool
  co_async_write_threads :: nat
  co_quota_enabled :: bool
  co_ttl :: "nat option"
  co_uring_enabled :: bool
  co_uring_queue_depth :: nat
  co_uring_thread_count :: nat
  co_sync_read_enabled :: bool

definition LOCAL_STORE_OVERHEAD :: rat where
  "LOCAL_STORE_OVERHEAD = f64 (5 / 100)"

text \<open>\<open>x as u64\<close> truncates towards zero and saturates.\<close>

definition sat_u64 :: "int \<Rightarrow> u64" where
  "sat_u64 i = word_of_int (max 0 (min i (2 ^ 64 - 1)))"

definition options_from_config :: "cache_config \<Rightarrow> cache_options" where
  "options_from_config config =
     (let page_size = (if client_cache_page_size config = 0 then 1024 * 1024
                       else client_cache_page_size config);
          dir_capacity = sat_u64 \<lfloor>f64 (f64 (of_int (uint (client_cache_size config)))
                                      * f64 (1 - LOCAL_STORE_OVERHEAD))\<rfloor>;
          ttl = (if client_cache_ttl_secs config = 0 then None
                 else Some (unat (client_cache_ttl_secs config) * 1000000000))
      in \<lparr>co_page_size = page_size, co_dir_capacity = dir_capacity,
          co_dirs = client_cache_dirs config, co_evictor = client_cache_evictor config,
          co_async_write_enabled = client_cache_async_write_enabled config,
          co_async_write_threads = max (client_cache_async_write_threads config) 1,
          co_quota_enabled = client_cache_quota_enabled config, co_ttl = ttl,
          co_uring_enabled = client_cache_uring_enabled config,
          co_uring_queue_depth = client_cache_uring_queue_depth config,
          co_uring_thread_count = client_cache_uring_thread_count config,
          co_sync_read_enabled = client_cache_sync_read_enabled config\<rparr>)"

definition pages_per_dir :: "cache_options \<Rightarrow> u64" where
  "pages_per_dir opts =
     (if co_page_size opts = 0 then 0 else co_dir_capacity opts div co_page_size opts)"

definition MIN_PAGES_PER_SHARD :: u64 where
  "MIN_PAGES_PER_SHARD = 4"

definition MAX_SHARDS :: nat where
  "MAX_SHARDS = 256"

definition shard_count :: "u64 \<Rightarrow> u64 \<Rightarrow> nat" where
  "shard_count dir_capacity page_size =
     (if page_size = 0 then 1
      else let pages = dir_capacity div page_size
           in min (unat (max (pages div MIN_PAGES_PER_SHARD) 1)) MAX_SHARDS)"

section \<open>The manager's state\<close>

definition page_cache_eligible :: "i64 \<Rightarrow> bool" where
  "page_cache_eligible fid \<longleftrightarrow> 0 < fid"

datatype cache_state = NotInUse | ReadOnly | ReadWrite

fun cache_state_as_i64 :: "cache_state \<Rightarrow> i64" where
  "cache_state_as_i64 NotInUse = 0"
| "cache_state_as_i64 ReadOnly = 1"
| "cache_state_as_i64 ReadWrite = 2"

datatype foyer_event = Evict | Replace | Remove | Clear

text \<open>
  The operations of a \<open>foyer_memory::Cache\<close>: what it holds, lookup (which may reorder), insertion
  and removal with the events its listener receives.
\<close>

record 'c foyer =
  fo_entries :: "'c \<Rightarrow> page_id \<rightharpoonup> page_info"
  fo_get :: "page_id \<Rightarrow> 'c \<Rightarrow> page_info option \<times> 'c"
  fo_insert :: "page_id \<Rightarrow> page_info \<Rightarrow> 'c \<Rightarrow> 'c \<times> (foyer_event \<times> page_id \<times> page_info) list"
  fo_remove :: "page_id \<Rightarrow> 'c \<Rightarrow> 'c \<times> (foyer_event \<times> page_id \<times> page_info) list"

definition fo_contains :: "'c foyer \<Rightarrow> page_id \<Rightarrow> 'c \<Rightarrow> bool" where
  "fo_contains fo pid c \<longleftrightarrow> fo_entries fo c pid \<noteq> None"

text \<open>
  What the manager relies on: a lookup returns the entry and loses none; an insertion adds its
  entry and may drop any entries, each of which the listener is told of as an eviction; a
  removal takes out the one entry, and no event reports a removal as an eviction.
\<close>

definition foyer_ok :: "'c foyer \<Rightarrow> bool" where
  "foyer_ok fo \<longleftrightarrow>
     (\<forall>pid c. fst (fo_get fo pid c) = fo_entries fo c pid
        \<and> fo_entries fo (snd (fo_get fo pid c)) = fo_entries fo c)
   \<and> (\<forall>pid info c q. fo_entries fo (fst (fo_insert fo pid info c)) q
          \<in> {None, ((fo_entries fo c)(pid \<mapsto> info)) q})
   \<and> (\<forall>pid info c q v. (Evict, q, v) \<in> set (snd (fo_insert fo pid info c))
        \<longrightarrow> ((fo_entries fo c)(pid \<mapsto> info)) q = Some v)
   \<and> (\<forall>pid info c q. fo_entries fo (fst (fo_insert fo pid info c)) q = None
        \<longrightarrow> ((fo_entries fo c)(pid \<mapsto> info)) q \<noteq> None
        \<longrightarrow> (\<exists>v. (Evict, q, v) \<in> set (snd (fo_insert fo pid info c))))
   \<and> (\<forall>pid c. fo_entries fo (fst (fo_remove fo pid c)) = (fo_entries fo c)(pid := None))
   \<and> (\<forall>pid c q v. (Evict, q, v) \<notin> set (snd (fo_remove fo pid c)))"

record reap_task =
  rt_page_id :: page_id
  rt_page_size :: u64
  rt_dir_index :: nat

definition LOCK_SIZE :: u64 where
  "LOCK_SIZE = 1024"

definition REAP_QUEUE_CAP :: nat where
  "REAP_QUEUE_CAP = 1024"

text \<open>The stripe of a page's lock; \<open>hash_pair\<close> is xxHash3 over the two fields.\<close>

definition page_lock_index :: "(string \<Rightarrow> u64 \<Rightarrow> u64) \<Rightarrow> page_id \<Rightarrow> nat" where
  "page_lock_index hash_pair pid = unat (hash_pair (file_id pid) (page_index pid) mod LOCK_SIZE)"

record 'c cache_manager =
  cm_options :: cache_options
  cm_roots :: "string list"
  cm_caches :: "'c list"
  cm_reap_queue :: "reap_task list"
  cm_by_file :: "string \<rightharpoonup> u64 list"
  cm_versions :: "string \<rightharpoonup> i64 \<times> i64"
  cm_permits :: nat
  cm_fills :: "(page_id \<times> bytes) list"
  cm_state :: cache_state
  cm_disk :: disk

text \<open>The outcomes of the file-system calls an operation makes, and the time it runs at.\<close>

record io_env =
  io_now :: nat
  io_write :: write_outcome
  io_cleaned :: bool
  io_uuid :: string
  io_id_write :: write_outcome
  io_id_cleaned :: bool
  io_id_uuid :: string
  io_opened :: bool
  io_seeked :: bool
  io_reads :: "nat \<Rightarrow> nat option"
  io_removed :: bool
  io_id_removed :: bool

section \<open>Helpers\<close>

definition on_leave ::
  "nat \<Rightarrow> reap_task list \<Rightarrow> foyer_event \<times> page_id \<times> page_info \<Rightarrow> reap_task list" where
  "on_leave dir_index queue = (\<lambda>(event, key, v).
     if event \<noteq> Evict then queue
     else if length queue < REAP_QUEUE_CAP
     then queue @ [\<lparr>rt_page_id = key, rt_page_size = pi_page_size v, rt_dir_index = dir_index\<rparr>]
     else queue)"

definition cm_dir :: "(string \<Rightarrow> u64) \<Rightarrow> page_id \<Rightarrow> 'c cache_manager \<Rightarrow> nat" where
  "cm_dir xxh3 pid s = hash_allocate xxh3 pid (length (cm_roots s))"

definition set_cache ::
  "nat \<Rightarrow> 'c \<times> (foyer_event \<times> page_id \<times> page_info) list \<Rightarrow> 'c cache_manager \<Rightarrow> 'c cache_manager" where
  "set_cache dir = (\<lambda>(c, events) s.
     s\<lparr>cm_caches := (cm_caches s)[dir := c],
       cm_reap_queue := foldl (on_leave dir) (cm_reap_queue s) events\<rparr>)"

text \<open>Dropping a page from the reverse index: the index, and whether its file is now empty.\<close>

definition forget_page ::
  "page_id \<Rightarrow> (string \<rightharpoonup> u64 list) \<Rightarrow> (string \<rightharpoonup> u64 list) \<times> bool" where
  "forget_page pid by_file = (case by_file (file_id pid) of
       None \<Rightarrow> (by_file, False)
     | Some pages \<Rightarrow>
         let pages = removeAll (page_index pid) pages
         in if pages = [] then (by_file(file_id pid := None), True)
            else (by_file(file_id pid \<mapsto> pages), False))"

definition index_page :: "page_id \<Rightarrow> (string \<rightharpoonup> u64 list) \<Rightarrow> string \<rightharpoonup> u64 list" where
  "index_page pid by_file =
     by_file(file_id pid \<mapsto> List.insert (page_index pid)
       (case by_file (file_id pid) of None \<Rightarrow> [] | Some pages \<Rightarrow> pages))"

definition new_info :: "page_id \<Rightarrow> nat \<Rightarrow> nat \<Rightarrow> nat \<Rightarrow> page_info" where
  "new_info pid sz dir now =
     \<lparr>pi_page_id = pid, pi_page_size = word_of_nat sz, pi_dir_index = dir,
      pi_created_at = now, pi_scope = Global\<rparr>"

section \<open>The operations\<close>

definition cm_put ::
  "'c foyer \<Rightarrow> (string \<Rightarrow> u64) \<Rightarrow> io_env \<Rightarrow> page_id \<Rightarrow> bytes \<Rightarrow> 'c cache_manager
   \<Rightarrow> bool \<times> 'c cache_manager" where
  "cm_put fo xxh3 io pid page s =
     (if cm_state s \<noteq> ReadWrite then (False, s)
      else if page = [] \<or> unat (co_page_size (cm_options s)) < length page then (False, s)
      else
        let dir = cm_dir xxh3 pid s; root = cm_roots s ! dir; cache = cm_caches s ! dir
        in if fo_contains fo pid cache then (False, s)
           else case store_put xxh3 root (io_write io) (io_cleaned io) (io_uuid io) pid page (cm_disk s) of
             (Inl e, d) \<Rightarrow> (False, s\<lparr>cm_disk := d\<rparr>)
           | (Inr _, d) \<Rightarrow>
               let s1 = set_cache dir
                     (fo_insert fo pid (new_info pid (length page) dir (io_now io)) cache)
                     (s\<lparr>cm_disk := d\<rparr>)
               in if \<not> fo_contains fo pid (cm_caches s1 ! dir) then (False, s1)
                  else
                    let first_page = (cm_by_file s1 (file_id pid) = None);
                        identity = (if first_page then cm_versions s1 (file_id pid) else None);
                        s2 = s1\<lparr>cm_by_file := index_page pid (cm_by_file s1)\<rparr>
                    in (True, case identity of
                          None \<Rightarrow> s2
                        | Some (len, mtime) \<Rightarrow>
                            s2\<lparr>cm_disk := snd (write_identity xxh3 root (io_id_write io)
                                 (io_id_cleaned io) (io_id_uuid io) (file_id pid) len mtime
                                 (cm_disk s2))\<rparr>))"

text \<open>What \<open>delete\<close> and the expiry path do once the entry is out of the metadata cache.\<close>

definition drop_page_files ::
  "(string \<Rightarrow> u64) \<Rightarrow> io_env \<Rightarrow> nat \<Rightarrow> page_id \<Rightarrow> 'c cache_manager \<Rightarrow> 'c cache_manager" where
  "drop_page_files xxh3 io dir pid s =
     (let (by_file, file_empty) = forget_page pid (cm_by_file s);
          root = cm_roots s ! dir;
          d = snd (store_delete xxh3 root (io_removed io) pid (cm_disk s));
          d = (if file_empty
               then snd (delete_identity xxh3 root (io_id_removed io) (file_id pid) d) else d)
      in s\<lparr>cm_by_file := by_file, cm_disk := d\<rparr>)"

definition get_expired_path ::
  "'c foyer \<Rightarrow> (string \<Rightarrow> u64) \<Rightarrow> io_env \<Rightarrow> page_id \<Rightarrow> 'c cache_manager \<Rightarrow> 'c cache_manager" where
  "get_expired_path fo xxh3 io pid s = (case co_ttl (cm_options s) of
       None \<Rightarrow> s
     | Some ttl \<Rightarrow>
         let dir = cm_dir xxh3 pid s; (entry, cache) = fo_get fo pid (cm_caches s ! dir);
             s1 = set_cache dir (cache, []) s
         in case entry of
              None \<Rightarrow> s1
            | Some info \<Rightarrow>
                if io_now io - pi_created_at info \<le> ttl then s1
                else drop_page_files xxh3 io dir pid (set_cache dir (fo_remove fo pid cache) s1))"

definition cm_get_bytes ::
  "'c foyer \<Rightarrow> (string \<Rightarrow> u64) \<Rightarrow> io_env \<Rightarrow> page_id \<Rightarrow> nat \<Rightarrow> nat \<Rightarrow> 'c cache_manager
   \<Rightarrow> bytes \<times> 'c cache_manager" where
  "cm_get_bytes fo xxh3 io pid page_offset len s =
     (if cm_state s = NotInUse \<or> len = 0 then ([], s)
      else
        let dir = cm_dir xxh3 pid s; (entry, cache) = fo_get fo pid (cm_caches s ! dir);
            s1 = set_cache dir (cache, []) s
        in case entry of
             None \<Rightarrow> ([], s1)
           | Some info \<Rightarrow>
               let expired = (case co_ttl (cm_options s) of
                     Some ttl \<Rightarrow> ttl < io_now io - pi_created_at info
                   | None \<Rightarrow> False)
               in if expired then ([], get_expired_path fo xxh3 io pid s1)
                  else case store_get_bytes xxh3 (cm_roots s ! dir) (io_opened io) (io_seeked io)
                         (io_reads io) pid page_offset len (cm_disk s) of
                    Inl e \<Rightarrow> ([], s1)
                  | Inr bytes \<Rightarrow> (bytes, s1))"

definition cm_get ::
  "'c foyer \<Rightarrow> (string \<Rightarrow> u64) \<Rightarrow> io_env \<Rightarrow> page_id \<Rightarrow> nat \<Rightarrow> bytes \<Rightarrow> 'c cache_manager
   \<Rightarrow> nat \<times> bytes \<times> 'c cache_manager" where
  "cm_get fo xxh3 io pid page_offset dst s =
     (let (bytes, s') = cm_get_bytes fo xxh3 io pid page_offset (length dst) s;
          n = min (length bytes) (length dst)
      in (n, take n bytes @ drop n dst, s'))"

definition cm_delete ::
  "'c foyer \<Rightarrow> (string \<Rightarrow> u64) \<Rightarrow> io_env \<Rightarrow> page_id \<Rightarrow> 'c cache_manager \<Rightarrow> bool \<times> 'c cache_manager" where
  "cm_delete fo xxh3 io pid s =
     (let dir = cm_dir xxh3 pid s; cache = cm_caches s ! dir
      in if \<not> fo_contains fo pid cache then (False, s)
         else (True, drop_page_files xxh3 io dir pid (set_cache dir (fo_remove fo pid cache) s)))"

definition cm_invalidate ::
  "'c foyer \<Rightarrow> (string \<Rightarrow> u64) \<Rightarrow> (page_id \<Rightarrow> io_env) \<Rightarrow> string \<Rightarrow> 'c cache_manager
   \<Rightarrow> 'c cache_manager" where
  "cm_invalidate fo xxh3 ios f s = (case cm_by_file s f of
       None \<Rightarrow> s
     | Some pages \<Rightarrow>
         foldl (\<lambda>s pid. snd (cm_delete fo xxh3 (ios pid) pid s)) s (map (page_id_of f) pages))"

definition cm_on_file_open ::
  "'c foyer \<Rightarrow> (string \<Rightarrow> u64) \<Rightarrow> (page_id \<Rightarrow> io_env) \<Rightarrow> string \<Rightarrow> i64 \<Rightarrow> i64 \<Rightarrow> 'c cache_manager
   \<Rightarrow> 'c cache_manager" where
  "cm_on_file_open fo xxh3 ios f len mtime s = (case cm_versions s f of
       None \<Rightarrow> s\<lparr>cm_versions := (cm_versions s)(f \<mapsto> (len, mtime))\<rparr>
     | Some (l, m) \<Rightarrow>
         if l = len \<and> m = mtime then s
         else let s1 = cm_invalidate fo xxh3 ios f s
              in s1\<lparr>cm_versions := (cm_versions s1)(f \<mapsto> (len, mtime))\<rparr>)"

text \<open>A fill takes a permit and runs later as a task of its own; with none left it is dropped.\<close>

definition cm_schedule_fill :: "page_id \<Rightarrow> bytes \<Rightarrow> 'c cache_manager \<Rightarrow> 'c cache_manager" where
  "cm_schedule_fill pid page s =
     (if cm_permits s = 0 then s
      else s\<lparr>cm_permits := cm_permits s - 1, cm_fills := cm_fills s @ [(pid, page)]\<rparr>)"

definition cm_run_fill ::
  "'c foyer \<Rightarrow> (string \<Rightarrow> u64) \<Rightarrow> io_env \<Rightarrow> nat \<Rightarrow> 'c cache_manager \<Rightarrow> 'c cache_manager" where
  "cm_run_fill fo xxh3 io i s =
     (if i < length (cm_fills s) then
        let (pid, page) = cm_fills s ! i;
            s1 = snd (cm_put fo xxh3 io pid page s)
        in s1\<lparr>cm_permits := cm_permits s1 + 1,
              cm_fills := take i (cm_fills s1) @ drop (Suc i) (cm_fills s1)\<rparr>
      else s)"

text \<open>The reaper handles the oldest eviction: reverse index first, then the file.\<close>

definition reap_one ::
  "'c foyer \<Rightarrow> (string \<Rightarrow> u64) \<Rightarrow> io_env \<Rightarrow> reap_task \<Rightarrow> 'c cache_manager \<Rightarrow> 'c cache_manager" where
  "reap_one fo xxh3 io task s =
     (let pid = rt_page_id task; dir = rt_dir_index task;
          (by_file, file_empty) = forget_page pid (cm_by_file s);
          s1 = s\<lparr>cm_by_file := by_file\<rparr>
      in if fo_contains fo pid (cm_caches s1 ! dir) then s1
         else
           let root = cm_roots s1 ! dir;
               d = snd (store_delete xxh3 root (io_removed io) pid (cm_disk s1));
               d = (if file_empty
                    then snd (delete_identity xxh3 root (io_id_removed io) (file_id pid) d) else d)
           in s1\<lparr>cm_disk := d\<rparr>)"

definition run_reaper ::
  "'c foyer \<Rightarrow> (string \<Rightarrow> u64) \<Rightarrow> io_env \<Rightarrow> 'c cache_manager \<Rightarrow> 'c cache_manager" where
  "run_reaper fo xxh3 io s = (case cm_reap_queue s of
       [] \<Rightarrow> s
     | task # queue \<Rightarrow> reap_one fo xxh3 io task (s\<lparr>cm_reap_queue := queue\<rparr>))"

definition total_capacity :: "'c cache_manager \<Rightarrow> u64" where
  "total_capacity s =
     word_of_nat (min (unat (co_dir_capacity (cm_options s)) * length (cm_roots s)) (2 ^ 64 - 1))"

section \<open>Creation and restore\<close>

text \<open>
  The directory listings and call outcomes \<open>restore\<close> meets: the names in a directory (\<open>None\<close> if
  it is not one or cannot be read), whether a file's removal succeeds, which files a recursive
  removal reaches, and whether a file's metadata and a sidecar can be read.
\<close>

record restore_env =
  re_now :: nat
  re_list :: "string \<Rightarrow> string list option"
  re_removed :: "string \<Rightarrow> bool"
  re_removed_all :: "string \<Rightarrow> string \<Rightarrow> bool"
  re_metadata :: "string \<Rightarrow> bool"
  re_opened :: "string \<Rightarrow> bool"

definition remove_dir_all :: "restore_env \<Rightarrow> string \<Rightarrow> disk \<Rightarrow> disk" where
  "remove_dir_all env dir d =
     (\<lambda>p. if starts_with (dir @ ''/'') p \<and> re_removed_all env dir p then None else d p)"

definition restore_page ::
  "'c foyer \<Rightarrow> restore_env \<Rightarrow> nat \<Rightarrow> string \<Rightarrow> string \<Rightarrow> 'c cache_manager \<times> nat \<Rightarrow> string
   \<Rightarrow> 'c cache_manager \<times> nat" where
  "restore_page fo env dir fdir f = (\<lambda>(s, restored) name.
     let path = path_join fdir name;
         s_removed = s\<lparr>cm_disk := snd (remove_path [] (re_removed env path) path (cm_disk s))\<rparr>
     in case utf8_decode (str_bytes name) of
          None \<Rightarrow> (s, restored)
        | Some text \<Rightarrow>
            if str_contains ''.tmp-'' name then (s_removed, restored)
            else if is_identity_file name then (s, restored)
            else case parse_u64 text of
                None \<Rightarrow> (s, restored)
              | Some idx \<Rightarrow>
                  (case if re_metadata env path then cm_disk s path else None of
                     None \<Rightarrow> (s, restored)
                   | Some content \<Rightarrow>
                       if content = [] \<or> unat (co_page_size (cm_options s)) < length content
                          \<or> fo_contains fo (page_id_of f idx) (cm_caches s ! dir)
                       then (s_removed, restored)
                       else
                         let s1 = set_cache dir
                               (fo_insert fo (page_id_of f idx)
                                 (new_info (page_id_of f idx) (length content) dir (re_now env))
                                 (cm_caches s ! dir)) s
                         in (s1\<lparr>cm_by_file := index_page (page_id_of f idx) (cm_by_file s1)\<rparr>,
                             Suc restored)))"

definition restore_file ::
  "'c foyer \<Rightarrow> (string \<Rightarrow> u64) \<Rightarrow> restore_env \<Rightarrow> nat \<Rightarrow> string \<Rightarrow> 'c cache_manager \<Rightarrow> string
   \<Rightarrow> 'c cache_manager" where
  "restore_file fo xxh3 env dir bucket_path s f =
     (let fdir = path_join bucket_path f
      in if utf8_decode (str_bytes f) = None then s
         else case read_identity xxh3 (cm_roots s ! dir) (re_opened env f) f (cm_disk s) of
           None \<Rightarrow> s\<lparr>cm_disk := remove_dir_all env fdir (cm_disk s)\<rparr>
         | Some identity \<Rightarrow>
             (case re_list env fdir of
                None \<Rightarrow> s
              | Some names \<Rightarrow>
                  let (s1, restored) = foldl (restore_page fo env dir fdir f) (s, 0) names
                  in if 0 < restored
                     then s1\<lparr>cm_versions := (cm_versions s1)(f \<mapsto> identity)\<rparr>
                     else s1\<lparr>cm_disk := remove_dir_all env fdir (cm_disk s1)\<rparr>))"

definition restore_bucket ::
  "'c foyer \<Rightarrow> (string \<Rightarrow> u64) \<Rightarrow> restore_env \<Rightarrow> nat \<Rightarrow> 'c cache_manager \<Rightarrow> string
   \<Rightarrow> 'c cache_manager" where
  "restore_bucket fo xxh3 env dir s bucket =
     (let bucket_path = path_join (cm_roots s ! dir) bucket
      in case re_list env bucket_path of
           None \<Rightarrow> s
         | Some files \<Rightarrow> foldl (restore_file fo xxh3 env dir bucket_path) s files)"

definition restore_dir ::
  "'c foyer \<Rightarrow> (string \<Rightarrow> u64) \<Rightarrow> restore_env \<Rightarrow> 'c cache_manager \<Rightarrow> nat \<Rightarrow> 'c cache_manager" where
  "restore_dir fo xxh3 env s dir = (case re_list env (cm_roots s ! dir) of
       None \<Rightarrow> s
     | Some buckets \<Rightarrow> foldl (restore_bucket fo xxh3 env dir) s buckets)"

definition cm_restore ::
  "'c foyer \<Rightarrow> (string \<Rightarrow> u64) \<Rightarrow> restore_env \<Rightarrow> 'c cache_manager \<Rightarrow> 'c cache_manager" where
  "cm_restore fo xxh3 env s = foldl (restore_dir fo xxh3 env) s [0..<length (cm_roots s)]"

text \<open>
  \<open>build\<close> makes an empty metadata cache from the policy, the capacity and the shard count;
  \<open>made\<close> is whether a store's directory could be created.
\<close>

definition cm_create ::
  "'c foyer \<Rightarrow> (cache_evictor \<Rightarrow> nat \<Rightarrow> nat \<Rightarrow> 'c) \<Rightarrow> (string \<Rightarrow> u64) \<Rightarrow> (string \<Rightarrow> bool) \<Rightarrow> restore_env
   \<Rightarrow> cache_options \<Rightarrow> disk \<Rightarrow> 'c cache_manager result" where
  "cm_create fo build xxh3 made env options d =
     (let dir_paths = (if co_dirs options = [] then [''/tmp/goosefs_cache''] else co_dirs options);
          roots = map (\<lambda>dir. store_root dir (co_page_size options)) dir_paths;
          cache = build (co_evictor options) (unat (co_dir_capacity options))
                    (shard_count (co_dir_capacity options) (co_page_size options))
      in case find (\<lambda>root. \<not> made root) roots of
           Some dir \<Rightarrow> Inl (io_error (''create cache dir '' @ dir))
         | None \<Rightarrow>
             Inr (cm_restore fo xxh3 env
               \<lparr>cm_options = options, cm_roots = roots,
                cm_caches = replicate (length roots) cache, cm_reap_queue = [],
                cm_by_file = Map.empty, cm_versions = Map.empty,
                cm_permits = max (co_async_write_threads options) 1, cm_fills = [],
                cm_state = ReadWrite, cm_disk = d\<rparr>))"

end
