(* ===== verification/Cache_Invariant.thy ===== *)
theory Cache_Invariant
  imports Page_Cache
begin

text \<open>
  What the local cache manager keeps: every page its metadata lists is on disk with bytes that
  were put for it, through any sequence of operations, evictions and file-system faults.
\<close>

section \<open>The invariant\<close>

definition resident ::
  "'c foyer \<Rightarrow> (string \<Rightarrow> u64) \<Rightarrow> 'c cache_manager \<Rightarrow> page_id \<rightharpoonup> page_info" where
  "resident fo xxh3 s pid = fo_entries fo (cm_caches s ! cm_dir xxh3 pid s) pid"

definition stored :: "(string \<Rightarrow> u64) \<Rightarrow> 'c cache_manager \<Rightarrow> page_id \<rightharpoonup> bytes" where
  "stored xxh3 s pid = cm_disk s (page_path xxh3 (cm_roots s ! cm_dir xxh3 pid s) pid)"

text \<open>The caches are one per directory, and pages and queued evictions are where they belong.\<close>

definition cache_shape :: "'c foyer \<Rightarrow> (string \<Rightarrow> u64) \<Rightarrow> 'c cache_manager \<Rightarrow> bool" where
  "cache_shape fo xxh3 s \<longleftrightarrow>
     cm_roots s \<noteq> [] \<and> length (cm_roots s) < 2 ^ 64 \<and> length (cm_caches s) = length (cm_roots s)
   \<and> (\<forall>i < length (cm_roots s). \<forall>k. fo_entries fo (cm_caches s ! i) k \<noteq> None
        \<longrightarrow> cm_dir xxh3 k s = i \<and> plain_name (file_id k))
   \<and> (\<forall>t \<in> set (cm_reap_queue s). rt_dir_index t = cm_dir xxh3 (rt_page_id t) s
        \<and> plain_name (file_id (rt_page_id t)))"

lemma cache_shapeI:
  assumes "cm_roots s \<noteq> []" "length (cm_roots s) < 2 ^ 64" "length (cm_caches s) = length (cm_roots s)"
    and "\<And>i k. i < length (cm_roots s) \<Longrightarrow> fo_entries fo (cm_caches s ! i) k \<noteq> None
        \<Longrightarrow> cm_dir xxh3 k s = i \<and> plain_name (file_id k)"
    and "\<And>t. t \<in> set (cm_reap_queue s) \<Longrightarrow> rt_dir_index t = cm_dir xxh3 (rt_page_id t) s
        \<and> plain_name (file_id (rt_page_id t))"
  shows "cache_shape fo xxh3 s"
  unfolding cache_shape_def using assms by simp

text \<open>\<open>T pid page\<close> says that \<open>page\<close> is right for \<open>pid\<close>.\<close>

definition cache_ok ::
  "'c foyer \<Rightarrow> (string \<Rightarrow> u64) \<Rightarrow> (page_id \<Rightarrow> bytes \<Rightarrow> bool) \<Rightarrow> 'c cache_manager \<Rightarrow> bool" where
  "cache_ok fo xxh3 T s \<longleftrightarrow>
     cache_shape fo xxh3 s
   \<and> (\<forall>pid. resident fo xxh3 s pid \<noteq> None
        \<longrightarrow> (\<exists>page. stored xxh3 s pid = Some page \<and> page \<noteq> [] \<and> T pid page))
   \<and> (\<forall>(pid, page) \<in> set (cm_fills s). plain_name (file_id pid) \<and> T pid page)"

definition io_ok :: "io_env \<Rightarrow> bool" where
  "io_ok io \<longleftrightarrow> CHR ''/'' \<notin> set (io_uuid io) \<and> CHR ''/'' \<notin> set (io_id_uuid io)"

lemma hash_allocate_less:
  assumes "0 < n" and "n < 2 ^ 64"
  shows "hash_allocate xxh3 pid n < n"
proof -
  have "unat (word_of_nat n :: u64) = n"
    using assms(2) by (simp add: unat_of_nat)
  moreover from this assms(1) have "(word_of_nat n :: u64) \<noteq> 0" by (metis less_numeral_extra(3) unsigned_0)
  then have "xxh3 (file_id pid @ [CHR 0xFF]) mod word_of_nat n < word_of_nat n"
    by (simp add: word_less_nat_alt unat_mod_distrib unat_gt_0)
  ultimately show ?thesis
    using assms by (auto simp: hash_allocate_def word_less_nat_alt)
qed

lemma cm_dir_less: "cache_shape fo xxh3 s \<Longrightarrow> cm_dir xxh3 pid s < length (cm_roots s)"
  by (simp add: cm_dir_def cache_shape_def hash_allocate_less)

lemma resident_plain: "cache_shape fo xxh3 s \<Longrightarrow> resident fo xxh3 s pid \<noteq> None \<Longrightarrow> plain_name (file_id pid)"
  using cm_dir_less [of fo xxh3 s pid] unfolding cache_shape_def resident_def by blast

lemma set_cache_sel [simp]:
  "cm_options (set_cache dir ce s) = cm_options s" "cm_roots (set_cache dir ce s) = cm_roots s"
  "cm_by_file (set_cache dir ce s) = cm_by_file s" "cm_versions (set_cache dir ce s) = cm_versions s"
  "cm_permits (set_cache dir ce s) = cm_permits s" "cm_fills (set_cache dir ce s) = cm_fills s"
  "cm_state (set_cache dir ce s) = cm_state s" "cm_disk (set_cache dir ce s) = cm_disk s"
  "cm_caches (set_cache dir ce s) = (cm_caches s)[dir := fst ce]"
  "cm_reap_queue (set_cache dir ce s) = foldl (on_leave dir) (cm_reap_queue s) (snd ce)"
  by (simp_all add: set_cache_def split: prod.splits)

lemma cm_dir_cong: "cm_roots s' = cm_roots s \<Longrightarrow> cm_dir xxh3 pid s' = cm_dir xxh3 pid s"
  by (simp add: cm_dir_def)

lemma foldl_on_leave:
  "t \<in> set (foldl (on_leave dir) queue events) \<Longrightarrow>
   t \<in> set queue \<or> (rt_dir_index t = dir \<and> (\<exists>v. (Evict, rt_page_id t, v) \<in> set events))"
proof (induction events arbitrary: queue)
  case (Cons e events)
  from Cons.IH [of "on_leave dir queue e"] Cons.prems show ?case
    by (cases e) (auto simp: on_leave_def split: if_splits)
qed simp

section \<open>Operations that only lose entries\<close>

text \<open>
  An operation that adds no entry, queues no eviction of another page and leaves the bytes of
  the pages that stay in place.
\<close>

definition shrinks ::
  "'c foyer \<Rightarrow> (string \<Rightarrow> u64) \<Rightarrow> 'c cache_manager \<Rightarrow> 'c cache_manager \<Rightarrow> bool" where
  "shrinks fo xxh3 s s' \<longleftrightarrow>
     cm_roots s' = cm_roots s \<and> cm_options s' = cm_options s \<and> cm_state s' = cm_state s
   \<and> length (cm_caches s') = length (cm_caches s)
   \<and> (\<forall>i < length (cm_roots s). \<forall>k. fo_entries fo (cm_caches s' ! i) k \<noteq> None
        \<longrightarrow> fo_entries fo (cm_caches s' ! i) k = fo_entries fo (cm_caches s ! i) k)
   \<and> set (cm_reap_queue s') \<subseteq> set (cm_reap_queue s)
   \<and> (\<forall>pid. resident fo xxh3 s' pid \<noteq> None \<longrightarrow> stored xxh3 s' pid = stored xxh3 s pid)
   \<and> set (cm_fills s') \<subseteq> set (cm_fills s)"

lemma shrinksD:
  assumes "shrinks fo xxh3 s s'"
  shows "cm_roots s' = cm_roots s" "cm_options s' = cm_options s" "cm_state s' = cm_state s"
    "length (cm_caches s') = length (cm_caches s)"
    "i < length (cm_roots s) \<Longrightarrow> fo_entries fo (cm_caches s' ! i) k \<noteq> None
       \<Longrightarrow> fo_entries fo (cm_caches s' ! i) k = fo_entries fo (cm_caches s ! i) k"
    "set (cm_reap_queue s') \<subseteq> set (cm_reap_queue s)"
    "resident fo xxh3 s' pid \<noteq> None \<Longrightarrow> stored xxh3 s' pid = stored xxh3 s pid"
    "set (cm_fills s') \<subseteq> set (cm_fills s)"
    "cm_dir xxh3 pid s' = cm_dir xxh3 pid s"
  using assms by (simp_all add: shrinks_def cm_dir_def)

lemma shrinksI:
  assumes "cm_roots s' = cm_roots s" "cm_options s' = cm_options s" "cm_state s' = cm_state s"
    "length (cm_caches s') = length (cm_caches s)"
    and "\<And>i k. i < length (cm_roots s) \<Longrightarrow> fo_entries fo (cm_caches s' ! i) k \<noteq> None
       \<Longrightarrow> fo_entries fo (cm_caches s' ! i) k = fo_entries fo (cm_caches s ! i) k"
    and "set (cm_reap_queue s') \<subseteq> set (cm_reap_queue s)"
    and "\<And>pid. resident fo xxh3 s' pid \<noteq> None \<Longrightarrow> stored xxh3 s' pid = stored xxh3 s pid"
    and "set (cm_fills s') \<subseteq> set (cm_fills s)"
  shows "shrinks fo xxh3 s s'"
  unfolding shrinks_def using assms by (intro conjI allI impI)

lemma shrinks_resident:
  assumes "shrinks fo xxh3 s s'" and "cache_shape fo xxh3 s"
  shows "resident fo xxh3 s' pid \<in> {None, resident fo xxh3 s pid}"
  using shrinksD(5) [OF assms(1) cm_dir_less [OF assms(2)], of pid pid] shrinksD(9) [OF assms(1)]
  unfolding resident_def by (cases "fo_entries fo (cm_caches s' ! cm_dir xxh3 pid s') pid") auto

lemma shrinks_refl [simp]: "shrinks fo xxh3 s s"
  by (simp add: shrinks_def)

lemma shrinks_shape:
  assumes "shrinks fo xxh3 s s'" and "cache_shape fo xxh3 s"
  shows "cache_shape fo xxh3 s'"
proof -
  note sh = shrinksD [OF assms(1)]
  have "cm_dir xxh3 k s = i \<and> plain_name (file_id k)"
    if "i < length (cm_roots s)" "fo_entries fo (cm_caches s' ! i) k \<noteq> None" for i k
    using sh(5) [OF that] that assms(2) by (simp add: cache_shape_def)
  then show ?thesis
    using assms(2) sh(6) unfolding cache_shape_def sh(1,4,9) by blast
qed

lemma shrinks_trans:
  assumes "shrinks fo xxh3 s s'" and "shrinks fo xxh3 s' s''" and "cache_shape fo xxh3 s"
  shows "shrinks fo xxh3 s s''"
proof -
  note a = shrinksD [OF assms(1)] and b = shrinksD [OF assms(2)]
  have "fo_entries fo (cm_caches s'' ! i) k = fo_entries fo (cm_caches s ! i) k"
    if "i < length (cm_roots s)" "fo_entries fo (cm_caches s'' ! i) k \<noteq> None" for i k
    using that a(5) [of i k] b(5) [of i k] by (simp add: a(1))
  moreover have "stored xxh3 s'' pid = stored xxh3 s pid" if "resident fo xxh3 s'' pid \<noteq> None" for pid
    using that a(7) [of pid] b(7) [of pid]
      shrinks_resident [OF assms(2) shrinks_shape [OF assms(1,3)], of pid] by auto
  ultimately show ?thesis
    using a(1-4) b(1-4) subset_trans [OF b(6) a(6)] subset_trans [OF b(8) a(8)]
    by (intro shrinksI) simp_all
qed

lemma cache_okI:
  assumes "cache_shape fo xxh3 s"
    and "\<And>pid. resident fo xxh3 s pid \<noteq> None
      \<Longrightarrow> \<exists>page. stored xxh3 s pid = Some page \<and> page \<noteq> [] \<and> T pid page"
    and "\<And>pid page. (pid, page) \<in> set (cm_fills s) \<Longrightarrow> plain_name (file_id pid) \<and> T pid page"
  shows "cache_ok fo xxh3 T s"
  using assms by (auto simp: cache_ok_def)

lemma cache_okD:
  assumes "cache_ok fo xxh3 T s"
  shows "cache_shape fo xxh3 s"
    and "resident fo xxh3 s pid \<noteq> None
      \<Longrightarrow> \<exists>page. stored xxh3 s pid = Some page \<and> page \<noteq> [] \<and> T pid page"
    and "(pid, page) \<in> set (cm_fills s) \<Longrightarrow> plain_name (file_id pid) \<and> T pid page"
  using assms by (auto simp: cache_ok_def)

lemma shrinks_ok:
  assumes "shrinks fo xxh3 s s'" and "cache_ok fo xxh3 T s"
  shows "cache_ok fo xxh3 T s'"
proof (rule cache_okI)
  have shape: "cache_shape fo xxh3 s" by (rule cache_okD [OF assms(2)])
  then show "cache_shape fo xxh3 s'" by (rule shrinks_shape [OF assms(1)])
  show "\<exists>page. stored xxh3 s' pid = Some page \<and> page \<noteq> [] \<and> T pid page"
    if "resident fo xxh3 s' pid \<noteq> None" for pid
    using that shrinks_resident [OF assms(1) shape, of pid] cache_okD(2) [OF assms(2), of pid]
      shrinksD(7) [OF assms(1) that] by auto
  show "plain_name (file_id pid) \<and> T pid page" if "(pid, page) \<in> set (cm_fills s')" for pid page
    using that shrinksD(8) [OF assms(1)] cache_okD(3) [OF assms(2)] by blast
qed

lemma foyer_okD:
  assumes "foyer_ok fo"
  shows "fst (fo_get fo pid c) = fo_entries fo c pid"
    "fo_entries fo (snd (fo_get fo pid c)) = fo_entries fo c"
    "fo_entries fo (fst (fo_insert fo pid info c)) q \<noteq> None
      \<Longrightarrow> fo_entries fo (fst (fo_insert fo pid info c)) q = ((fo_entries fo c)(pid \<mapsto> info)) q"
    "(Evict, q, v) \<in> set (snd (fo_insert fo pid info c))
      \<Longrightarrow> ((fo_entries fo c)(pid \<mapsto> info)) q = Some v"
    "fo_entries fo (fst (fo_remove fo pid c)) = (fo_entries fo c)(pid := None)"
    "(Evict, q, v) \<notin> set (snd (fo_remove fo pid c))"
proof -
  show "fo_entries fo (fst (fo_insert fo pid info c)) q = ((fo_entries fo c)(pid \<mapsto> info)) q"
    if "fo_entries fo (fst (fo_insert fo pid info c)) q \<noteq> None"
  proof -
    have "fo_entries fo (fst (fo_insert fo pid info c)) q
        \<in> {None, ((fo_entries fo c)(pid \<mapsto> info)) q}"
      using assms unfolding foyer_ok_def by (elim conjE) (erule allE)+
    with that show ?thesis by (simp only: insert_iff empty_iff simp_thms)
  qed
qed (use assms in \<open>simp_all add: foyer_ok_def\<close>)

lemma set_cache_shrinks:
  assumes "\<And>k. fo_entries fo (fst ce) k \<noteq> None
      \<Longrightarrow> fo_entries fo (fst ce) k = fo_entries fo (cm_caches s ! dir) k"
    and "\<And>q v. (Evict, q, v) \<notin> set (snd ce)"
  shows "shrinks fo xxh3 s (set_cache dir ce s)"
proof (rule shrinksI)
  show "fo_entries fo (cm_caches (set_cache dir ce s) ! i) k = fo_entries fo (cm_caches s ! i) k"
    if "fo_entries fo (cm_caches (set_cache dir ce s) ! i) k \<noteq> None" for i k
    using that assms(1) by (cases "dir < length (cm_caches s)") (auto simp: nth_list_update list_update_beyond not_less)
  show "set (cm_reap_queue (set_cache dir ce s)) \<subseteq> set (cm_reap_queue s)"
    using foldl_on_leave assms(2) by fastforce
qed (simp_all add: stored_def cm_dir_def)

lemma get_shrinks:
  assumes "foyer_ok fo"
  shows "shrinks fo xxh3 s (set_cache dir (snd (fo_get fo pid (cm_caches s ! dir)), []) s)"
  by (rule set_cache_shrinks) (simp_all add: foyer_okD [OF assms])

lemma remove_shrinks:
  assumes "foyer_ok fo"
    and "fo_entries fo c = fo_entries fo (cm_caches s ! dir)"
  shows "shrinks fo xxh3 s (set_cache dir (fo_remove fo pid c) s)"
  using assms(2) by (intro set_cache_shrinks) (simp_all add: foyer_okD [OF assms(1)] split: if_splits)

lemma drop_page_files_sel [simp]:
  "cm_options (drop_page_files xxh3 io dir pid s) = cm_options s"
  "cm_roots (drop_page_files xxh3 io dir pid s) = cm_roots s"
  "cm_caches (drop_page_files xxh3 io dir pid s) = cm_caches s"
  "cm_reap_queue (drop_page_files xxh3 io dir pid s) = cm_reap_queue s"
  "cm_versions (drop_page_files xxh3 io dir pid s) = cm_versions s"
  "cm_fills (drop_page_files xxh3 io dir pid s) = cm_fills s"
  "cm_state (drop_page_files xxh3 io dir pid s) = cm_state s"
  "cm_by_file (drop_page_files xxh3 io dir pid s) = fst (forget_page pid (cm_by_file s))"
  by (simp_all add: drop_page_files_def Let_def split: prod.splits)

text \<open>Deleting a page's file and its file's sidecar leaves every other page's bytes alone.\<close>

lemma delete_files_page:
  assumes "plain_name (file_id pid)" "plain_name (file_id q)" "q \<noteq> pid"
  shows "snd (store_delete xxh3 r rm pid d) (page_path xxh3 r' q) = d (page_path xxh3 r' q)"
    "snd (delete_identity xxh3 r rm (file_id pid) d) (page_path xxh3 r' q) = d (page_path xxh3 r' q)"
  using assms page_path_inject page_path_not_identity
  by (metis store_delete_other, metis delete_identity_other)

lemma drop_page_files_page:
  assumes "plain_name (file_id pid)" "plain_name (file_id q)" "q \<noteq> pid"
  shows "cm_disk (drop_page_files xxh3 io dir pid s) (page_path xxh3 r q)
    = cm_disk s (page_path xxh3 r q)"
  using assms by (simp add: drop_page_files_def Let_def delete_files_page split: prod.splits)

lemma drop_page_files_shrinks:
  assumes "cache_shape fo xxh3 s" "plain_name (file_id pid)" "resident fo xxh3 s pid = None"
  shows "shrinks fo xxh3 s (drop_page_files xxh3 io dir pid s)"
proof (rule shrinksI)
  let ?s = "drop_page_files xxh3 io dir pid s"
  show "stored xxh3 ?s q = stored xxh3 s q" if "resident fo xxh3 ?s q \<noteq> None" for q
  proof -
    have "resident fo xxh3 s q \<noteq> None" using that by (simp add: resident_def cm_dir_def)
    then have "plain_name (file_id q)" "q \<noteq> pid"
      using resident_plain [OF assms(1)] assms(3) by auto
    then show ?thesis
      using drop_page_files_page [OF assms(2)] by (simp add: stored_def cm_dir_def)
  qed
qed simp_all

section \<open>The operations keep the invariant\<close>

lemma resident_removed:
  assumes "foyer_ok fo" "cache_shape fo xxh3 s" "dir = cm_dir xxh3 pid s"
  shows "resident fo xxh3 (set_cache dir (fo_remove fo pid c) s) pid = None"
  using assms(3) cm_dir_less [OF assms(2), of pid] assms(2)
  by (simp add: resident_def cm_dir_def cache_shape_def foyer_okD [OF assms(1)])

lemma remove_drop_shrinks:
  assumes "foyer_ok fo" "cache_shape fo xxh3 s" "resident fo xxh3 s pid \<noteq> None"
    and "dir = cm_dir xxh3 pid s" "fo_entries fo c = fo_entries fo (cm_caches s ! dir)"
  shows "shrinks fo xxh3 s (drop_page_files xxh3 io dir pid (set_cache dir (fo_remove fo pid c) s))"
proof -
  let ?s = "set_cache dir (fo_remove fo pid c) s"
  have sh: "shrinks fo xxh3 s ?s" by (rule remove_shrinks [OF assms(1,5)])
  have "shrinks fo xxh3 ?s (drop_page_files xxh3 io dir pid ?s)"
    using resident_plain [OF assms(2,3)] resident_removed [OF assms(1,2,4)]
    by (intro drop_page_files_shrinks shrinks_shape [OF sh assms(2)])
  then show ?thesis by (rule shrinks_trans [OF sh _ assms(2)])
qed

lemma cm_delete_shrinks:
  assumes "foyer_ok fo" "cache_shape fo xxh3 s"
  shows "shrinks fo xxh3 s (snd (cm_delete fo xxh3 io pid s))"
    and "resident fo xxh3 (snd (cm_delete fo xxh3 io pid s)) pid = None"
proof -
  let ?dir = "cm_dir xxh3 pid s"
  have res: "resident fo xxh3 s pid \<noteq> None \<longleftrightarrow> fo_contains fo pid (cm_caches s ! ?dir)"
    by (simp add: resident_def fo_contains_def)
  show "shrinks fo xxh3 s (snd (cm_delete fo xxh3 io pid s))"
    using remove_drop_shrinks [OF assms _ refl refl, of pid io] res
    by (simp add: cm_delete_def Let_def)
  have "resident fo xxh3 (drop_page_files xxh3 io ?dir pid
      (set_cache ?dir (fo_remove fo pid (cm_caches s ! ?dir)) s)) pid = None"
    using resident_removed [OF assms refl, of pid] by (simp add: resident_def cm_dir_def)
  then show "resident fo xxh3 (snd (cm_delete fo xxh3 io pid s)) pid = None"
    using res by (cases "resident fo xxh3 s pid") (simp_all add: cm_delete_def Let_def)
qed

lemma get_expired_path_shrinks:
  assumes "foyer_ok fo" "cache_shape fo xxh3 s"
  shows "shrinks fo xxh3 s (get_expired_path fo xxh3 io pid s)"
proof (cases "co_ttl (cm_options s)")
  case None
  then show ?thesis by (simp add: get_expired_path_def shrinks_refl)
next
  case (Some ttl)
  let ?dir = "cm_dir xxh3 pid s"
  obtain entry cache where got: "fo_get fo pid (cm_caches s ! ?dir) = (entry, cache)" by force
  let ?s = "set_cache ?dir (cache, []) s"
  have entries: "fo_entries fo cache = fo_entries fo (cm_caches s ! ?dir)"
      "entry = resident fo xxh3 s pid"
    using foyer_okD(1,2) [OF assms(1), of pid "cm_caches s ! ?dir"] got
    by (simp_all add: resident_def)
  have sh: "shrinks fo xxh3 s ?s"
    using get_shrinks [OF assms(1), of xxh3 s ?dir pid] got by simp
  have same: "cm_dir xxh3 pid ?s = ?dir" "cm_caches ?s ! ?dir = cache"
    using cm_dir_less [OF assms(2), of pid] assms(2) by (simp_all add: cm_dir_def cache_shape_def)
  have "shrinks fo xxh3 s (drop_page_files xxh3 io ?dir pid (set_cache ?dir (fo_remove fo pid cache) ?s))"
    if "entry \<noteq> None"
    by (rule shrinks_trans [OF sh remove_drop_shrinks [OF assms(1) shrinks_shape [OF sh assms(2)]]])
      (use that entries same assms(2) in \<open>simp_all add: resident_def\<close>)
  then show ?thesis
    using Some got sh by (auto simp: get_expired_path_def Let_def split: option.splits)
qed

lemma cm_get_bytes_shrinks:
  assumes "foyer_ok fo" "cache_shape fo xxh3 s"
  shows "shrinks fo xxh3 s (snd (cm_get_bytes fo xxh3 io pid off len s))"
proof -
  let ?dir = "cm_dir xxh3 pid s"
  obtain entry cache where got: "fo_get fo pid (cm_caches s ! ?dir) = (entry, cache)" by force
  let ?s = "set_cache ?dir (cache, []) s"
  have sh: "shrinks fo xxh3 s ?s"
    using get_shrinks [OF assms(1), of xxh3 s ?dir pid] got by simp
  have "shrinks fo xxh3 s (get_expired_path fo xxh3 io pid ?s)"
    by (rule shrinks_trans [OF sh get_expired_path_shrinks [OF assms(1) shrinks_shape [OF sh assms(2)]] assms(2)])
  then show ?thesis
    using got sh
    by (simp add: cm_get_bytes_def Let_def split: option.split sum.split)
qed

text \<open>What a hit returns is a slice of what the page holds; everything else is empty.\<close>

lemma cm_get_bytes_value:
  assumes "foyer_ok fo"
  shows "fst (cm_get_bytes fo xxh3 io pid off len s) = []
    \<or> (resident fo xxh3 s pid \<noteq> None
       \<and> (\<exists>page. stored xxh3 s pid = Some page
             \<and> fst (cm_get_bytes fo xxh3 io pid off len s) = seg off len page))"
proof -
  let ?dir = "cm_dir xxh3 pid s"
  obtain entry cache where got: "fo_get fo pid (cm_caches s ! ?dir) = (entry, cache)" by force
  then have "entry = resident fo xxh3 s pid"
    using foyer_okD(1) [OF assms(1), of pid "cm_caches s ! ?dir"] by (simp add: resident_def)
  then show ?thesis
    using got
    by (auto simp: cm_get_bytes_def Let_def stored_def split: option.splits sum.splits
        dest!: store_get_bytes_sound)
qed

lemma cm_invalidate_shrinks:
  assumes "foyer_ok fo" "cache_shape fo xxh3 s"
  shows "shrinks fo xxh3 s (cm_invalidate fo xxh3 ios f s)"
proof -
  have "shrinks fo xxh3 s (foldl (\<lambda>s pid. snd (cm_delete fo xxh3 (ios pid) pid s)) s pids)"
    if "cache_shape fo xxh3 s" for pids s
    using that
  proof (induction pids arbitrary: s)
    case (Cons pid pids)
    have sh: "shrinks fo xxh3 s (snd (cm_delete fo xxh3 (ios pid) pid s))"
      by (rule cm_delete_shrinks [OF assms(1) Cons.prems])
    show ?case
      using shrinks_trans [OF sh Cons.IH [OF shrinks_shape [OF sh Cons.prems]] Cons.prems] by simp
  qed simp
  then show ?thesis using assms(2) by (simp add: cm_invalidate_def split: option.splits)
qed

lemma shrinks_versions [simp]: "shrinks fo xxh3 s (s'\<lparr>cm_versions := v\<rparr>) = shrinks fo xxh3 s s'"
  by (simp add: shrinks_def resident_def stored_def cm_dir_def)

lemma cm_on_file_open_shrinks:
  assumes "foyer_ok fo" "cache_shape fo xxh3 s"
  shows "shrinks fo xxh3 s (cm_on_file_open fo xxh3 ios f len mtime s)"
  using cm_invalidate_shrinks [OF assms]
  by (auto simp: cm_on_file_open_def Let_def split: option.splits)

lemma reap_one_shrinks:
  assumes "cache_shape fo xxh3 s" "plain_name (file_id (rt_page_id task))"
    and "rt_dir_index task = cm_dir xxh3 (rt_page_id task) s"
  shows "shrinks fo xxh3 s (reap_one fo xxh3 io task s)"
proof -
  let ?pid = "rt_page_id task" and ?s = "reap_one fo xxh3 io task s"
  have same: "cm_roots ?s = cm_roots s" "cm_caches ?s = cm_caches s" "cm_fills ?s = cm_fills s"
      "cm_options ?s = cm_options s" "cm_state ?s = cm_state s" "cm_reap_queue ?s = cm_reap_queue s"
    by (simp_all add: reap_one_def Let_def split: prod.splits)
  have "cm_disk ?s (page_path xxh3 r q) = cm_disk s (page_path xxh3 r q)"
    if "resident fo xxh3 s q \<noteq> None" for q r
  proof (cases "resident fo xxh3 s ?pid = None")
    case True
    with that have "plain_name (file_id q)" "q \<noteq> ?pid" using resident_plain [OF assms(1)] by auto
    then show ?thesis
      using assms(2)
      by (auto simp: reap_one_def Let_def delete_files_page split: prod.splits)
  next
    case False
    then have "fo_contains fo ?pid (cm_caches s ! rt_dir_index task)"
      using assms(3) by (simp add: resident_def fo_contains_def)
    then show ?thesis by (simp add: reap_one_def Let_def split: prod.splits)
  qed
  then show ?thesis
    by (intro shrinksI) (simp_all add: same resident_def stored_def cm_dir_def)
qed

lemma run_reaper_shrinks:
  assumes "cache_shape fo xxh3 s"
  shows "shrinks fo xxh3 s (run_reaper fo xxh3 io s)"
proof (cases "cm_reap_queue s")
  case (Cons task queue)
  let ?s = "s\<lparr>cm_reap_queue := queue\<rparr>"
  have sh: "shrinks fo xxh3 s ?s"
    using Cons by (intro shrinksI) (auto simp: resident_def stored_def cm_dir_def)
  have "rt_dir_index task = cm_dir xxh3 (rt_page_id task) s" "plain_name (file_id (rt_page_id task))"
    using assms Cons by (simp_all add: cache_shape_def)
  then have "shrinks fo xxh3 ?s (reap_one fo xxh3 io task ?s)"
    by (intro reap_one_shrinks shrinks_shape [OF sh assms]) (simp_all add: cm_dir_def)
  then show ?thesis using Cons shrinks_trans [OF sh _ assms] by (simp add: run_reaper_def)
qed (simp add: run_reaper_def)

text \<open>The bytes a write leaves for the pages of the cache.\<close>

lemma put_pages:
  assumes "cache_ok fo xxh3 T s" "plain_name (file_id pid)" "CHR ''/'' \<notin> set uuid"
    and "T pid page" "page \<noteq> []" "plain_name (file_id q)"
    and "resident fo xxh3 s q \<noteq> None \<or> (q = pid \<and> io = Done)"
    and "resident fo xxh3 s pid = None"
  shows "\<exists>bs. snd (store_put xxh3 (cm_roots s ! cm_dir xxh3 pid s) io cl uuid pid page (cm_disk s))
      (page_path xxh3 (cm_roots s ! cm_dir xxh3 q s) q) = Some bs \<and> bs \<noteq> [] \<and> T q bs"
proof (cases "q = pid")
  case True
  with assms show ?thesis by (auto simp: store_put_page)
next
  case False
  then have "page_path xxh3 (cm_roots s ! cm_dir xxh3 q s) q
      \<noteq> page_path xxh3 (cm_roots s ! cm_dir xxh3 pid s) pid"
    using page_path_inject [OF assms(6,2)] by blast
  with False assms cache_okD(2) [OF assms(1), of q] show ?thesis
    by (auto simp: store_put_page stored_def)
qed

lemma cache_shape_insert:
  assumes "foyer_ok fo" "cache_shape fo xxh3 s" "plain_name (file_id pid)"
  shows "cache_shape fo xxh3
    (set_cache (cm_dir xxh3 pid s) (fo_insert fo pid info (cm_caches s ! cm_dir xxh3 pid s)) s)"
    (is "cache_shape fo xxh3 ?s")
proof -
  let ?dir = "cm_dir xxh3 pid s"
  let ?ins = "fo_insert fo pid info (cm_caches s ! ?dir)"
  have dir: "cm_dir xxh3 k ?s = cm_dir xxh3 k s" for k by (simp add: cm_dir_def)
  have len: "?dir < length (cm_caches s)"
    using cm_dir_less [OF assms(2)] assms(2) by (simp add: cache_shape_def)
  have old: "cm_dir xxh3 k s = ?dir \<and> plain_name (file_id k)"
    if "((fo_entries fo (cm_caches s ! ?dir))(pid \<mapsto> info)) k \<noteq> None" for k
    using that assms(2,3) len by (cases "k = pid") (auto simp: cache_shape_def)
  have ent: "cm_dir xxh3 k s = i \<and> plain_name (file_id k)"
    if "i < length (cm_roots s)" "fo_entries fo (cm_caches ?s ! i) k \<noteq> None" for i k
  proof (cases "i = ?dir")
    case True
    then show ?thesis
      using that(2) len foyer_okD(3) [OF assms(1), of pid info "cm_caches s ! ?dir" k] old [of k] by simp
  next
    case False
    then show ?thesis using that assms(2) by (simp add: cache_shape_def)
  qed
  have queue: "rt_dir_index t = cm_dir xxh3 (rt_page_id t) s \<and> plain_name (file_id (rt_page_id t))"
    if "t \<in> set (cm_reap_queue ?s)" for t
  proof -
    from that have "t \<in> set (cm_reap_queue s) \<or> (rt_dir_index t = ?dir
        \<and> (\<exists>v. (Evict, rt_page_id t, v) \<in> set (snd ?ins)))"
      using foldl_on_leave [of t ?dir "cm_reap_queue s" "snd ?ins"] by simp
    then show ?thesis
    proof
      assume "t \<in> set (cm_reap_queue s)"
      then show ?thesis using assms(2) by (simp add: cache_shape_def)
    next
      assume "rt_dir_index t = ?dir \<and> (\<exists>v. (Evict, rt_page_id t, v) \<in> set (snd ?ins))"
      then show ?thesis using old [of "rt_page_id t"] foyer_okD(4) [OF assms(1)] by fastforce
    qed
  qed
  show ?thesis
  proof (rule cache_shapeI)
    show "cm_dir xxh3 k ?s = i \<and> plain_name (file_id k)"
      if "i < length (cm_roots ?s)" "fo_entries fo (cm_caches ?s ! i) k \<noteq> None" for i k
      using ent [OF _ that(2)] that(1) dir by simp
    show "rt_dir_index t = cm_dir xxh3 (rt_page_id t) ?s \<and> plain_name (file_id (rt_page_id t))"
      if "t \<in> set (cm_reap_queue ?s)" for t
      using queue [OF that] dir by simp
  qed (use assms(2) in \<open>simp_all add: cache_shape_def\<close>)
qed

lemma insert_resident:
  assumes "foyer_ok fo" "cache_shape fo xxh3 s"
    and "resident fo xxh3 (set_cache (cm_dir xxh3 pid s)
      (fo_insert fo pid info (cm_caches s ! cm_dir xxh3 pid s)) s) q \<noteq> None"
  shows "q = pid \<or> resident fo xxh3 s q \<noteq> None"
proof (cases "cm_dir xxh3 q s = cm_dir xxh3 pid s")
  case True
  have "cm_dir xxh3 pid s < length (cm_caches s)"
    using cm_dir_less [OF assms(2)] assms(2) by (simp add: cache_shape_def)
  then show ?thesis
    using assms(3) True foyer_okD(3) [OF assms(1), of pid info "cm_caches s ! cm_dir xxh3 pid s" q]
    by (cases "q = pid") (simp_all add: resident_def cm_dir_def)
next
  case False
  then show ?thesis using assms(3) by (simp add: resident_def cm_dir_def)
qed

lemma cache_shape_disk [simp]: "cache_shape fo xxh3 (s\<lparr>cm_disk := d\<rparr>) = cache_shape fo xxh3 s"
  by (simp add: cache_shape_def cm_dir_def)

lemma cache_ok_by_file [simp]: "cache_ok fo xxh3 T (s\<lparr>cm_by_file := b\<rparr>) = cache_ok fo xxh3 T s"
  by (simp add: cache_ok_def cache_shape_def resident_def stored_def cm_dir_def)

lemma cache_ok_disk:
  assumes "cache_ok fo xxh3 T s"
    and "\<And>q r. plain_name (file_id q) \<Longrightarrow> d (page_path xxh3 r q) = cm_disk s (page_path xxh3 r q)"
  shows "cache_ok fo xxh3 T (s\<lparr>cm_disk := d\<rparr>)"
proof (rule cache_okI)
  show "\<exists>page. stored xxh3 (s\<lparr>cm_disk := d\<rparr>) pid = Some page \<and> page \<noteq> [] \<and> T pid page"
    if "resident fo xxh3 (s\<lparr>cm_disk := d\<rparr>) pid \<noteq> None" for pid
  proof -
    have "resident fo xxh3 s pid \<noteq> None" using that by (simp add: resident_def cm_dir_def)
    then show ?thesis
      using cache_okD(2) [OF assms(1), of pid] resident_plain [OF cache_okD(1) [OF assms(1)], of pid]
        assms(2) by (simp add: stored_def cm_dir_def)
  qed
qed (use cache_okD [OF assms(1)] in simp_all)

text \<open>Publishing a page whose bytes are on disk.\<close>

lemma insert_ok:
  assumes "foyer_ok fo" "cache_shape fo xxh3 s" "plain_name (file_id pid)"
    and pages: "\<And>q. plain_name (file_id q) \<Longrightarrow> q = pid \<or> resident fo xxh3 s q \<noteq> None
      \<Longrightarrow> \<exists>page. stored xxh3 s q = Some page \<and> page \<noteq> [] \<and> T q page"
    and "\<And>q page. (q, page) \<in> set (cm_fills s) \<Longrightarrow> plain_name (file_id q) \<and> T q page"
  shows "cache_ok fo xxh3 T (set_cache (cm_dir xxh3 pid s)
      (fo_insert fo pid info (cm_caches s ! cm_dir xxh3 pid s)) s)"
    (is "cache_ok fo xxh3 T ?s")
proof (rule cache_okI)
  show sh: "cache_shape fo xxh3 ?s" by (rule cache_shape_insert [OF assms(1-3)])
  show "\<exists>page. stored xxh3 ?s q = Some page \<and> page \<noteq> [] \<and> T q page"
    if "resident fo xxh3 ?s q \<noteq> None" for q
    using pages [OF resident_plain [OF sh that] insert_resident [OF assms(1,2) that]]
    by (simp add: stored_def cm_dir_def)
qed (use assms(5) in simp_all)

lemma write_identity_ok:
  assumes "cache_ok fo xxh3 T s" "plain_name f" "CHR ''/'' \<notin> set uuid"
  shows "cache_ok fo xxh3 T (s\<lparr>cm_disk := snd (write_identity xxh3 r w c uuid f len mtime (cm_disk s))\<rparr>)"
  by (intro cache_ok_disk [OF assms(1)] write_identity_page assms)

lemma cm_put_cases:
  obtains (rejected) "snd (cm_put fo xxh3 io pid page s) = s"
  | (written) "page \<noteq> []" "resident fo xxh3 s pid = None"
      "snd (cm_put fo xxh3 io pid page s) =
        (let dir = cm_dir xxh3 pid s;
             (res, d) = store_put xxh3 (cm_roots s ! dir) (io_write io) (io_cleaned io) (io_uuid io)
               pid page (cm_disk s);
             s1 = set_cache dir (fo_insert fo pid (new_info pid (length page) dir (io_now io))
               (cm_caches s ! dir)) (s\<lparr>cm_disk := d\<rparr>);
             s2 = s1\<lparr>cm_by_file := index_page pid (cm_by_file s1)\<rparr>
         in case res of Inl _ \<Rightarrow> s\<lparr>cm_disk := d\<rparr>
            | Inr _ \<Rightarrow> if \<not> fo_contains fo pid (cm_caches s1 ! dir) then s1
                else case if cm_by_file s (file_id pid) = None then cm_versions s (file_id pid) else None of
                    None \<Rightarrow> s2
                  | Some (len, mtime) \<Rightarrow> s2\<lparr>cm_disk := snd (write_identity xxh3 (cm_roots s ! dir)
                      (io_id_write io) (io_id_cleaned io) (io_id_uuid io) (file_id pid) len mtime (cm_disk s2))\<rparr>)"
proof (cases "cm_state s \<noteq> ReadWrite \<or> page = [] \<or> unat (co_page_size (cm_options s)) < length page
    \<or> fo_contains fo pid (cm_caches s ! cm_dir xxh3 pid s)")
  case True
  then show ?thesis by (intro rejected) (auto simp: cm_put_def Let_def)
next
  case False
  then have "page \<noteq> []" "resident fo xxh3 s pid = None"
    by (simp_all add: resident_def fo_contains_def)
  then show ?thesis
    by (rule written) (use False in \<open>simp add: cm_put_def Let_def split: prod.split sum.split option.split\<close>)
qed

lemma cm_put_ok:
  assumes "foyer_ok fo" "cache_ok fo xxh3 T s" "io_ok io" "plain_name (file_id pid)" "T pid page"
  shows "cache_ok fo xxh3 T (snd (cm_put fo xxh3 io pid page s))"
proof (cases rule: cm_put_cases [of fo xxh3 io pid page s])
  case rejected
  with assms(2) show ?thesis by simp
next
  case written
  have uuid: "CHR ''/'' \<notin> set (io_uuid io)" "CHR ''/'' \<notin> set (io_id_uuid io)"
    using assms(3) by (simp_all add: io_ok_def)
  obtain res d where put: "store_put xxh3 (cm_roots s ! cm_dir xxh3 pid s) (io_write io) (io_cleaned io)
      (io_uuid io) pid page (cm_disk s) = (res, d)" by force
  let ?s = "s\<lparr>cm_disk := d\<rparr>"
  have same: "cm_dir xxh3 q ?s = cm_dir xxh3 q s" "resident fo xxh3 ?s q = resident fo xxh3 s q" for q
    by (simp_all add: cm_dir_def resident_def)
  have shape: "cache_shape fo xxh3 ?s" using cache_okD(1) [OF assms(2)] by simp
  have pages: "\<exists>bs. stored xxh3 ?s q = Some bs \<and> bs \<noteq> [] \<and> T q bs"
    if "plain_name (file_id q)" "resident fo xxh3 s q \<noteq> None \<or> q = pid \<and> io_write io = Done" for q
    using put_pages [OF assms(2,4) uuid(1) assms(5) written(1) that written(2), of "io_cleaned io"] put
    by (simp add: stored_def same)
  show ?thesis
  proof (cases res)
    case (Inl e)
    have "cache_ok fo xxh3 T ?s"
      using pages resident_plain [OF shape] cache_okD(3) [OF assms(2)]
      by (intro cache_okI [OF shape]) (simp_all add: same)
    with written(3) put Inl show ?thesis by (simp add: Let_def)
  next
    case (Inr u)
    then have "io_write io = Done"
      using store_put_result [of xxh3 "cm_roots s ! cm_dir xxh3 pid s" "io_write io" "io_cleaned io"
          "io_uuid io" pid page "cm_disk s"] put by simp
    then have ins: "cache_ok fo xxh3 T (set_cache (cm_dir xxh3 pid s) (fo_insert fo pid info
        (cm_caches s ! cm_dir xxh3 pid s)) ?s)" for info
      using insert_ok [OF assms(1) shape assms(4), of T info] pages cache_okD(3) [OF assms(2)]
      by (auto simp: same)
    have "cache_ok fo xxh3 T ((set_cache (cm_dir xxh3 pid s) (fo_insert fo pid info
        (cm_caches s ! cm_dir xxh3 pid s)) ?s)\<lparr>cm_by_file := b, cm_disk := snd (write_identity xxh3 r w c
          (io_id_uuid io) (file_id pid) len mtime d)\<rparr>)" for info b r w c len mtime
      using write_identity_ok [OF _ assms(4) uuid(2), of fo xxh3 T "(set_cache (cm_dir xxh3 pid s)
          (fo_insert fo pid info (cm_caches s ! cm_dir xxh3 pid s)) ?s)\<lparr>cm_by_file := b\<rparr>"] ins
      by simp
    with ins show ?thesis
      using written(3) put Inr by (simp add: Let_def split: option.split prod.split)
  qed
qed

end
