(* ===== verification/Cache_Reach.thy ===== *)
theory Cache_Reach
  imports Cache_Invariant
begin

text \<open>
  The local cache manager as a transition system: its operations in any order, with any faults
  and any evictions, and what follows for the bytes it serves and for overwritten files.  One
  step is one whole operation; the page locks of the source serialise operations on a page.
\<close>

section \<open>Steps\<close>

text \<open>
  \<open>T pid page\<close> says that \<open>page\<close> is right for \<open>pid\<close>; every put and every fill is of right bytes.
  With \<open>calm\<close>, no page is put again between its eviction and the reaper's turn.
\<close>

inductive cm_step ::
  "bool \<Rightarrow> 'c foyer \<Rightarrow> (string \<Rightarrow> u64) \<Rightarrow> (page_id \<Rightarrow> bytes \<Rightarrow> bool) \<Rightarrow> 'c cache_manager
   \<Rightarrow> 'c cache_manager \<Rightarrow> bool"
  for calm fo xxh3 T where
  put: "io_ok io \<Longrightarrow> plain_name (file_id pid) \<Longrightarrow> T pid page
    \<Longrightarrow> cm_step calm fo xxh3 T s (snd (cm_put fo xxh3 io pid page s))"
| get: "cm_step calm fo xxh3 T s (snd (cm_get_bytes fo xxh3 io pid off len s))"
| delete: "cm_step calm fo xxh3 T s (snd (cm_delete fo xxh3 io pid s))"
| invalidate: "cm_step calm fo xxh3 T s (cm_invalidate fo xxh3 ios f s)"
| opened: "cm_step calm fo xxh3 T s (cm_on_file_open fo xxh3 ios f len mtime s)"
| schedule: "plain_name (file_id pid) \<Longrightarrow> T pid page
    \<Longrightarrow> cm_step calm fo xxh3 T s (cm_schedule_fill pid page s)"
| fill: "io_ok io \<Longrightarrow> cm_step calm fo xxh3 T s (cm_run_fill fo xxh3 io i s)"
| reap: "(calm \<Longrightarrow> \<forall>task \<in> set (take 1 (cm_reap_queue s)). resident fo xxh3 s (rt_page_id task) = None)
    \<Longrightarrow> cm_step calm fo xxh3 T s (run_reaper fo xxh3 io s)"

inductive cm_steps ::
  "bool \<Rightarrow> 'c foyer \<Rightarrow> (string \<Rightarrow> u64) \<Rightarrow> (page_id \<Rightarrow> bytes \<Rightarrow> bool) \<Rightarrow> 'c cache_manager
   \<Rightarrow> 'c cache_manager \<Rightarrow> bool"
  for calm fo xxh3 T where
  refl: "cm_steps calm fo xxh3 T s s"
| step: "cm_steps calm fo xxh3 T s s' \<Longrightarrow> cm_step calm fo xxh3 T s' s''
    \<Longrightarrow> cm_steps calm fo xxh3 T s s''"

lemma cm_schedule_fill_ok:
  assumes "cache_ok fo xxh3 T s" "plain_name (file_id pid)" "T pid page"
  shows "cache_ok fo xxh3 T (cm_schedule_fill pid page s)"
  using assms by (auto simp: cm_schedule_fill_def cache_ok_def cache_shape_def resident_def
      stored_def cm_dir_def)

lemma cm_put_fills: "cm_fills (snd (cm_put fo xxh3 io pid page s)) = cm_fills s"
  by (auto simp: cm_put_def Let_def split: prod.splits sum.splits option.splits)

lemma cm_run_fill_ok:
  assumes "foyer_ok fo" "cache_ok fo xxh3 T s" "io_ok io"
  shows "cache_ok fo xxh3 T (cm_run_fill fo xxh3 io i s)"
proof (cases "i < length (cm_fills s)")
  case True
  obtain pid page where fill: "cm_fills s ! i = (pid, page)" by force
  then have "(pid, page) \<in> set (cm_fills s)" using True nth_mem by metis
  then have ok: "cache_ok fo xxh3 T (snd (cm_put fo xxh3 io pid page s))"
    using cache_okD(3) [OF assms(2)] cm_put_ok [OF assms] by blast
  let ?s = "snd (cm_put fo xxh3 io pid page s)"
  have "set (take i (cm_fills ?s) @ drop (Suc i) (cm_fills ?s)) \<subseteq> set (cm_fills ?s)"
    using set_take_subset set_drop_subset by (metis Un_least set_append)
  then have "shrinks fo xxh3 ?s (cm_run_fill fo xxh3 io i s)"
    using True fill
    by (intro shrinksI) (simp_all add: cm_run_fill_def Let_def resident_def stored_def cm_dir_def)
  then show ?thesis by (rule shrinks_ok [OF _ ok])
qed (simp add: cm_run_fill_def assms(2))

lemma cm_step_ok:
  assumes "foyer_ok fo" "cm_step calm fo xxh3 T s s'" "cache_ok fo xxh3 T s"
  shows "cache_ok fo xxh3 T s'"
proof -
  note shape = cache_okD(1) [OF assms(3)]
  from assms(2) show ?thesis
  proof cases
    case put
    then show ?thesis using cm_put_ok [OF assms(1,3)] by simp
  next
    case fill
    then show ?thesis using cm_run_fill_ok [OF assms(1,3)] by simp
  next
    case schedule
    then show ?thesis using cm_schedule_fill_ok [OF assms(3)] by simp
  qed (use shrinks_ok [OF _ assms(3)] cm_get_bytes_shrinks [OF assms(1) shape]
      cm_delete_shrinks(1) [OF assms(1) shape] cm_invalidate_shrinks [OF assms(1) shape]
      cm_on_file_open_shrinks [OF assms(1) shape] run_reaper_shrinks [OF shape] in simp_all)
qed

lemma cm_steps_ok:
  assumes "foyer_ok fo" "cm_steps calm fo xxh3 T s s'" "cache_ok fo xxh3 T s"
  shows "cache_ok fo xxh3 T s'"
  using assms(2,3) by (induction rule: cm_steps.induct) (auto intro: cm_step_ok [OF assms(1)])

section \<open>A manager over empty directories\<close>

lemma hash_allocate_one [simp]: "hash_allocate xxh3 pid (Suc 0) = 0"
  by (simp add: hash_allocate_def)

lemma cm_create_fresh:
  assumes "cm_create fo build xxh3 made env options d = Inr s"
    and "\<And>dir. re_list env dir = None" and "\<And>p c k. fo_entries fo (build p c k) = Map.empty"
    and "length (co_dirs options) < 2 ^ 64"
  shows "cache_ok fo xxh3 T s \<and> cm_state s = ReadWrite \<and> (\<forall>pid. resident fo xxh3 s pid = None)"
proof -
  have "foldl (restore_dir fo xxh3 env) s' dirs = s'" for s' dirs
    by (induction dirs) (simp_all add: restore_dir_def assms(2))
  then have s: "cm_restore fo xxh3 env s' = s'" for s' by (simp add: cm_restore_def)
  show ?thesis
    using assms(1,3,4)
    by (auto simp: cm_create_def Let_def s cache_ok_def cache_shape_def resident_def cm_dir_def
        hash_allocate_less split: option.splits if_splits)
qed

text \<open>An instance of the metadata cache: at most \<open>n\<close> pages, the least recently used goes first.\<close>

type_synonym lru = "page_id list \<times> (page_id \<rightharpoonup> page_info)"

definition lru_foyer :: "nat \<Rightarrow> lru foyer" where
  "lru_foyer n = \<lparr>
     fo_entries = (\<lambda>(ks, m) k. if k \<in> set ks then m k else None),
     fo_get = (\<lambda>k (ks, m). if k \<in> set ks then (m k, (k # removeAll k ks, m)) else (None, (ks, m))),
     fo_insert = (\<lambda>k v (ks, m).
       let ks' = k # removeAll k ks; kept = take n ks'
       in ((kept, m(k \<mapsto> v)),
           map (\<lambda>q. (Evict, q, the ((m(k \<mapsto> v)) q)))
             (filter (\<lambda>q. q \<notin> set kept \<and> (m(k \<mapsto> v)) q \<noteq> None) ks'))),
     fo_remove = (\<lambda>k (ks, m). ((removeAll k ks, m), []))\<rparr>"

lemma lru_foyer_ok: "foyer_ok (lru_foyer n)"
  unfolding foyer_ok_def
proof (intro conjI allI impI)
  fix pid info q v and c :: lru
  obtain ks m where c: "c = (ks, m)" by force
  show "fst (fo_get (lru_foyer n) pid c) = fo_entries (lru_foyer n) c pid"
    by (simp add: lru_foyer_def c)
  show "fo_entries (lru_foyer n) (snd (fo_get (lru_foyer n) pid c)) = fo_entries (lru_foyer n) c"
    by (auto simp: lru_foyer_def c)
  have "set (take n (pid # removeAll pid ks)) \<subseteq> insert pid (set ks)"
    using set_take_subset [of n "pid # removeAll pid ks"] by auto
  then show "fo_entries (lru_foyer n) (fst (fo_insert (lru_foyer n) pid info c)) q
      \<in> {None, ((fo_entries (lru_foyer n) c)(pid \<mapsto> info)) q}"
    by (auto simp: lru_foyer_def c Let_def)
  show "((fo_entries (lru_foyer n) c)(pid \<mapsto> info)) q = Some v"
    if "(Evict, q, v) \<in> set (snd (fo_insert (lru_foyer n) pid info c))"
    using that by (auto simp: lru_foyer_def c Let_def split: if_splits)
  show "\<exists>v. (Evict, q, v) \<in> set (snd (fo_insert (lru_foyer n) pid info c))"
    if "fo_entries (lru_foyer n) (fst (fo_insert (lru_foyer n) pid info c)) q = None"
      "((fo_entries (lru_foyer n) c)(pid \<mapsto> info)) q \<noteq> None"
    using that by (cases "q = pid") (auto simp: lru_foyer_def c Let_def image_iff split: if_splits)
  show "fo_entries (lru_foyer n) (fst (fo_remove (lru_foyer n) pid c))
      = (fo_entries (lru_foyer n) c)(pid := None)"
    by (auto simp: lru_foyer_def c)
  show "(Evict, q, v) \<notin> set (snd (fo_remove (lru_foyer n) pid c))"
    by (simp add: lru_foyer_def c)
qed

section \<open>What a reader gets\<close>

definition io_clean :: "io_env \<Rightarrow> bool" where
  "io_clean io \<longleftrightarrow> io_opened io \<and> io_seeked io \<and> (\<forall>i. io_reads io i \<noteq> None)"

definition live :: "io_env \<Rightarrow> cache_options \<Rightarrow> page_info \<Rightarrow> bool" where
  "live io options info \<longleftrightarrow> (case co_ttl options of
       None \<Rightarrow> True | Some ttl \<Rightarrow> io_now io - pi_created_at info \<le> ttl)"

lemma cm_get_bytes_hit:
  assumes "foyer_ok fo" "resident fo xxh3 s pid = Some info" "stored xxh3 s pid = Some page"
    and "cm_state s = ReadWrite" "io_clean io" "live io (cm_options s) info"
  shows "fst (cm_get_bytes fo xxh3 io pid off len s) = seg off len page"
proof (cases "len = 0")
  case True
  then show ?thesis by (simp add: cm_get_bytes_def)
next
  case False
  let ?dir = "cm_dir xxh3 pid s"
  obtain cache where got: "fo_get fo pid (cm_caches s ! ?dir) = (Some info, cache)"
    using foyer_okD(1) [OF assms(1), of pid "cm_caches s ! ?dir"] assms(2)
    by (metis prod.collapse resident_def)
  have "store_get_bytes xxh3 (cm_roots s ! ?dir) (io_opened io) (io_seeked io) (io_reads io) pid off len
      (cm_disk s) = Inr (seg off len page)"
    using False assms(3,5) store_get_content [of "io_reads io" "cm_disk s" xxh3 "cm_roots s ! ?dir"]
    by (simp add: store_get_bytes_def io_clean_def stored_def)
  then show ?thesis
    using False got assms(4,6)
    by (auto simp: cm_get_bytes_def Let_def live_def split: option.splits)
qed

lemma cm_put_state: "cm_state (snd (cm_put fo xxh3 io pid page s)) = cm_state s"
  by (auto simp: cm_put_def Let_def split: prod.splits sum.splits option.splits)

lemma cm_step_state:
  assumes "foyer_ok fo" "cm_step calm fo xxh3 T s s'" "cache_shape fo xxh3 s"
  shows "cm_state s' = cm_state s"
  using assms(2)
proof cases
  case put
  then show ?thesis by (simp add: cm_put_state)
next
  case fill
  then show ?thesis by (simp add: cm_run_fill_def Let_def cm_put_state split: prod.split)
next
  case schedule
  then show ?thesis by (simp add: cm_schedule_fill_def)
qed (use shrinksD(3) cm_get_bytes_shrinks [OF assms(1,3)] cm_delete_shrinks(1) [OF assms(1,3)]
    cm_invalidate_shrinks [OF assms(1,3)] cm_on_file_open_shrinks [OF assms(1,3)]
    run_reaper_shrinks [OF assms(3)] in metis)+

lemma cm_steps_state:
  assumes "foyer_ok fo" "cm_steps calm fo xxh3 T s s'" "cache_ok fo xxh3 T s"
  shows "cm_state s' = cm_state s"
  using assms(2,3)
  by (induction rule: cm_steps.induct)
    (metis cache_okD(1) cm_step_state [OF assms(1)] cm_steps_ok [OF assms(1)])+

section \<open>The reverse index\<close>

definition indexed_page :: "(string \<rightharpoonup> u64 list) \<Rightarrow> page_id \<Rightarrow> bool" where
  "indexed_page by_file pid \<longleftrightarrow>
     (case by_file (file_id pid) of None \<Rightarrow> False | Some pages \<Rightarrow> page_index pid \<in> set pages)"

text \<open>Every page the metadata lists can be found through its file.\<close>

definition index_complete :: "'c foyer \<Rightarrow> (string \<Rightarrow> u64) \<Rightarrow> 'c cache_manager \<Rightarrow> bool" where
  "index_complete fo xxh3 s \<longleftrightarrow>
     (\<forall>pid. resident fo xxh3 s pid \<noteq> None \<longrightarrow> indexed_page (cm_by_file s) pid)"

lemma removeAll_empty: "removeAll x xs = [] \<longleftrightarrow> set xs \<subseteq> {x}"
  by (induction xs) auto

lemma forget_other: "q \<noteq> pid \<Longrightarrow> indexed_page (fst (forget_page pid b)) q = indexed_page b q"
  by (cases q; cases pid) (auto simp: forget_page_def indexed_page_def Let_def removeAll_empty split: option.splits)

lemma index_page_iff: "indexed_page (index_page pid b) q \<longleftrightarrow> q = pid \<or> indexed_page b q"
  by (cases q; cases pid) (auto simp: index_page_def indexed_page_def split: option.splits)

lemma index_complete_shrinks:
  assumes "shrinks fo xxh3 s s'" "cache_shape fo xxh3 s" "index_complete fo xxh3 s"
    and "\<And>q. resident fo xxh3 s' q \<noteq> None \<Longrightarrow> indexed_page (cm_by_file s) q
      \<Longrightarrow> indexed_page (cm_by_file s') q"
  shows "index_complete fo xxh3 s'"
  unfolding index_complete_def
proof (intro allI impI)
  fix q assume q: "resident fo xxh3 s' q \<noteq> None"
  then have "resident fo xxh3 s q \<noteq> None" using shrinks_resident [OF assms(1,2), of q] by auto
  then have "indexed_page (cm_by_file s) q" using assms(3) unfolding index_complete_def by blast
  then show "indexed_page (cm_by_file s') q" by (rule assms(4) [OF q])
qed

lemma cm_delete_by_file:
  "cm_by_file (snd (cm_delete fo xxh3 io pid s)) \<in> {cm_by_file s, fst (forget_page pid (cm_by_file s))}"
  by (simp add: cm_delete_def Let_def)

lemma cm_delete_index:
  assumes "foyer_ok fo" "cache_shape fo xxh3 s" "index_complete fo xxh3 s"
  shows "index_complete fo xxh3 (snd (cm_delete fo xxh3 io pid s))"
proof (rule index_complete_shrinks [OF cm_delete_shrinks(1) [OF assms(1,2)] assms(2,3)])
  fix q assume "resident fo xxh3 (snd (cm_delete fo xxh3 io pid s)) q \<noteq> None"
  then have "q \<noteq> pid" using cm_delete_shrinks(2) [OF assms(1,2)] by auto
  then show "indexed_page (cm_by_file (snd (cm_delete fo xxh3 io pid s))) q"
    if "indexed_page (cm_by_file s) q"
    using that cm_delete_by_file [of fo xxh3 io pid s] forget_other [of q pid "cm_by_file s"] by auto
qed

lemma cm_invalidate_index:
  assumes "foyer_ok fo" "cache_shape fo xxh3 s" "index_complete fo xxh3 s"
  shows "index_complete fo xxh3 (cm_invalidate fo xxh3 ios f s)"
proof -
  have "index_complete fo xxh3 (foldl (\<lambda>s pid. snd (cm_delete fo xxh3 (ios pid) pid s)) s pids)"
    if "cache_shape fo xxh3 s" "index_complete fo xxh3 s" for pids s
    using that
  proof (induction pids arbitrary: s)
    case (Cons pid pids)
    then show ?case
      using shrinks_shape [OF cm_delete_shrinks(1) [OF assms(1)]] cm_delete_index [OF assms(1)]
      by simp
  qed simp
  then show ?thesis using assms(2,3) by (simp add: cm_invalidate_def split: option.splits)
qed

lemma index_complete_versions [simp]:
  "index_complete fo xxh3 (s\<lparr>cm_versions := v\<rparr>) = index_complete fo xxh3 s"
  by (simp add: index_complete_def resident_def cm_dir_def)

lemma cm_on_file_open_index:
  assumes "foyer_ok fo" "cache_shape fo xxh3 s" "index_complete fo xxh3 s"
  shows "index_complete fo xxh3 (cm_on_file_open fo xxh3 ios f len mtime s)"
  using assms(3) cm_invalidate_index [OF assms]
  by (auto simp: cm_on_file_open_def Let_def split: option.splits)

lemma get_expired_path_by_file:
  "cm_by_file (get_expired_path fo xxh3 io pid s) = cm_by_file s
   \<or> (cm_by_file (get_expired_path fo xxh3 io pid s) = fst (forget_page pid (cm_by_file s))
      \<and> (foyer_ok fo \<longrightarrow> cache_shape fo xxh3 s
           \<longrightarrow> resident fo xxh3 (get_expired_path fo xxh3 io pid s) pid = None))"
proof (cases "cm_by_file (get_expired_path fo xxh3 io pid s) = cm_by_file s")
  case False
  let ?dir = "cm_dir xxh3 pid s"
  obtain entry cache where got: "fo_get fo pid (cm_caches s ! ?dir) = (entry, cache)" by force
  let ?s = "set_cache ?dir (cache, []) s"
  have eq: "get_expired_path fo xxh3 io pid s
      = drop_page_files xxh3 io ?dir pid (set_cache ?dir (fo_remove fo pid cache) ?s)"
    using False got by (auto simp: get_expired_path_def Let_def split: option.splits if_splits)
  have "resident fo xxh3 (get_expired_path fo xxh3 io pid s) pid = None"
    if "foyer_ok fo" "cache_shape fo xxh3 s"
  proof -
    have "cache_shape fo xxh3 ?s"
      using shrinks_shape [OF get_shrinks [OF that(1)] that(2), of ?dir pid] got by simp
    then show ?thesis
      using resident_removed [OF that(1), of xxh3 ?s ?dir pid cache] eq
      by (simp add: resident_def cm_dir_def)
  qed
  then show ?thesis using eq by simp
qed simp

lemma cm_get_bytes_index:
  assumes "foyer_ok fo" "cache_shape fo xxh3 s" "index_complete fo xxh3 s"
  shows "index_complete fo xxh3 (snd (cm_get_bytes fo xxh3 io pid off len s))"
proof (rule index_complete_shrinks [OF cm_get_bytes_shrinks [OF assms(1,2)] assms(2,3)])
  fix q
  let ?s = "snd (cm_get_bytes fo xxh3 io pid off len s)"
  let ?dir = "cm_dir xxh3 pid s"
  obtain entry cache where got: "fo_get fo pid (cm_caches s ! ?dir) = (entry, cache)" by force
  let ?s1 = "set_cache ?dir (cache, []) s"
  have shape: "cache_shape fo xxh3 ?s1"
    using shrinks_shape [OF get_shrinks [OF assms(1)] assms(2), of ?dir pid] got by simp
  have "?s \<in> {s, ?s1, get_expired_path fo xxh3 io pid ?s1}"
    using got by (auto simp: cm_get_bytes_def Let_def split: option.splits sum.splits)
  then have "cm_by_file ?s = cm_by_file s
      \<or> (cm_by_file ?s = fst (forget_page pid (cm_by_file s)) \<and> resident fo xxh3 ?s pid = None)"
    using get_expired_path_by_file [of fo xxh3 io pid ?s1] assms(1) shape by auto
  then show "indexed_page (cm_by_file ?s) q"
    if "resident fo xxh3 ?s q \<noteq> None" "indexed_page (cm_by_file s) q"
    using that forget_other [of q pid "cm_by_file s"] by (cases "q = pid") auto
qed

lemma resident_by_file [simp]: "resident fo xxh3 (s\<lparr>cm_by_file := b\<rparr>) q = resident fo xxh3 s q"
  by (simp add: resident_def cm_dir_def)

lemma resident_disk [simp]: "resident fo xxh3 (s\<lparr>cm_disk := d\<rparr>) q = resident fo xxh3 s q"
  by (simp add: resident_def cm_dir_def)

lemma index_complete_disk [simp]:
  "index_complete fo xxh3 (s\<lparr>cm_disk := d\<rparr>) = index_complete fo xxh3 s"
  by (simp add: index_complete_def)

lemma cm_put_index:
  assumes "foyer_ok fo" "cache_shape fo xxh3 s" "index_complete fo xxh3 s"
  shows "index_complete fo xxh3 (snd (cm_put fo xxh3 io pid page s))"
proof (cases rule: cm_put_cases [of fo xxh3 io pid page s])
  case rejected
  with assms(3) show ?thesis by simp
next
  case written
  let ?dir = "cm_dir xxh3 pid s"
  obtain res d where put: "store_put xxh3 (cm_roots s ! ?dir) (io_write io) (io_cleaned io)
      (io_uuid io) pid page (cm_disk s) = (res, d)" by force
  let ?s1 = "set_cache ?dir (fo_insert fo pid (new_info pid (length page) ?dir (io_now io))
      (cm_caches s ! ?dir)) (s\<lparr>cm_disk := d\<rparr>)"
  let ?s2 = "?s1\<lparr>cm_by_file := index_page pid (cm_by_file ?s1)\<rparr>"
  have old: "q = pid \<or> indexed_page (cm_by_file s) q" if "resident fo xxh3 ?s1 q \<noteq> None" for q
    using insert_resident [OF assms(1), of xxh3 "s\<lparr>cm_disk := d\<rparr>" pid _ q] assms(2,3) that
    by (auto simp: index_complete_def cm_dir_def)
  have gone: "index_complete fo xxh3 ?s1" if "\<not> fo_contains fo pid (cm_caches ?s1 ! ?dir)"
  proof -
    have "resident fo xxh3 ?s1 pid = None"
      using that by (simp add: resident_def fo_contains_def cm_dir_def)
    then have "q \<noteq> pid" if "resident fo xxh3 ?s1 q \<noteq> None" for q using that by blast
    then show ?thesis using old unfolding index_complete_def by auto
  qed
  have "index_complete fo xxh3 ?s2"
    using old by (auto simp: index_complete_def index_page_iff)
  with gone assms(3) written(3) put show ?thesis
    by (simp add: Let_def split: sum.split option.split prod.split)
qed

lemma cm_run_fill_index:
  assumes "foyer_ok fo" "cache_shape fo xxh3 s" "index_complete fo xxh3 s"
  shows "index_complete fo xxh3 (cm_run_fill fo xxh3 io i s)"
  using cm_put_index [OF assms] assms(3)
  by (auto simp: cm_run_fill_def Let_def index_complete_def resident_def cm_dir_def split: prod.split)

lemma reap_one_by_file:
  "cm_by_file (reap_one fo xxh3 io task s) = fst (forget_page (rt_page_id task) (cm_by_file s))"
  by (simp add: reap_one_def Let_def split: prod.split)

lemma run_reaper_index:
  assumes "cache_shape fo xxh3 s" "index_complete fo xxh3 s"
    and "\<forall>task \<in> set (take 1 (cm_reap_queue s)). resident fo xxh3 s (rt_page_id task) = None"
  shows "index_complete fo xxh3 (run_reaper fo xxh3 io s)"
proof (cases "cm_reap_queue s")
  case (Cons task queue)
  note sh = run_reaper_shrinks [OF assms(1), of io]
  have "indexed_page (cm_by_file (run_reaper fo xxh3 io s)) q"
    if "resident fo xxh3 (run_reaper fo xxh3 io s) q \<noteq> None" "indexed_page (cm_by_file s) q" for q
  proof -
    have "q \<noteq> rt_page_id task"
      using that(1) shrinks_resident [OF sh assms(1), of q] assms(3) Cons by auto
    then show ?thesis
      using that(2) Cons by (simp add: run_reaper_def reap_one_by_file forget_other)
  qed
  then show ?thesis by (rule index_complete_shrinks [OF sh assms(1,2)])
qed (simp add: run_reaper_def assms(2))

lemma cm_step_index:
  assumes "foyer_ok fo" "cm_step True fo xxh3 T s s'" "cache_shape fo xxh3 s" "index_complete fo xxh3 s"
  shows "index_complete fo xxh3 s'"
  using assms(2)
proof cases
  case schedule
  then show ?thesis
    using assms(4) by (simp add: cm_schedule_fill_def index_complete_def resident_def cm_dir_def)
next
  case reap
  then show ?thesis using run_reaper_index [OF assms(3,4)] by simp
qed (use assms(1,3,4) in \<open>simp_all add: cm_put_index cm_get_bytes_index cm_delete_index
    cm_invalidate_index cm_on_file_open_index cm_run_fill_index\<close>)

lemma cm_steps_index:
  assumes "foyer_ok fo" "cm_steps True fo xxh3 T s s'" "cache_ok fo xxh3 T s" "index_complete fo xxh3 s"
  shows "index_complete fo xxh3 s'"
  using assms(2-4)
proof (induction rule: cm_steps.induct)
  case (step s s' s'')
  then show ?case
    using cm_step_index [OF assms(1) step.hyps(2)] cm_steps_ok [OF assms(1) step.hyps(1)] cache_okD(1)
    by blast
qed

section \<open>Overwritten files\<close>

lemma cm_delete_keeps:
  assumes "foyer_ok fo" "cache_shape fo xxh3 s" "q \<noteq> pid"
  shows "resident fo xxh3 (snd (cm_delete fo xxh3 io pid s)) q = resident fo xxh3 s q"
proof (cases "cm_dir xxh3 q s = cm_dir xxh3 pid s")
  case True
  then show ?thesis
    using assms(2,3) cm_dir_less [OF assms(2), of pid] foyer_okD(5) [OF assms(1)]
    by (simp add: cm_delete_def Let_def resident_def cm_dir_def cache_shape_def)
next
  case False
  then show ?thesis by (simp add: cm_delete_def Let_def resident_def cm_dir_def)
qed

lemma foldl_delete_resident:
  assumes "foyer_ok fo" "cache_shape fo xxh3 s"
  shows "resident fo xxh3 (foldl (\<lambda>s pid. snd (cm_delete fo xxh3 (ios pid) pid s)) s pids) q
    = (if q \<in> set pids then None else resident fo xxh3 s q)"
  using assms(2)
proof (induction pids arbitrary: s)
  case (Cons pid pids)
  let ?s = "snd (cm_delete fo xxh3 (ios pid) pid s)"
  have "cache_shape fo xxh3 ?s"
    by (rule shrinks_shape [OF cm_delete_shrinks(1) [OF assms(1) Cons.prems] Cons.prems])
  then show ?case
    using Cons.IH [of ?s] cm_delete_shrinks(2) [OF assms(1) Cons.prems, of "ios pid" pid]
      cm_delete_keeps [OF assms(1) Cons.prems, of q pid] by auto
qed simp

lemma cm_invalidate_resident:
  assumes "foyer_ok fo" "cache_shape fo xxh3 s" "index_complete fo xxh3 s"
  shows "resident fo xxh3 (cm_invalidate fo xxh3 ios f s) q
    = (if file_id q = f then None else resident fo xxh3 s q)"
proof (cases "cm_by_file s f")
  case None
  then have "resident fo xxh3 s q = None" if "file_id q = f"
    using that assms(3) by (auto simp: index_complete_def indexed_page_def)
  with None show ?thesis by (simp add: cm_invalidate_def)
next
  case (Some pages)
  have mem: "q \<in> set (map (page_id_of f) pages) \<longleftrightarrow> file_id q = f \<and> page_index q \<in> set pages"
    by (cases q) (auto simp: page_id_of_def)
  have "resident fo xxh3 s q = None" if "file_id q = f" "page_index q \<notin> set pages"
    using that assms(3) Some by (auto simp: index_complete_def indexed_page_def)
  then show ?thesis
    using Some foldl_delete_resident [OF assms(1,2), of ios "map (page_id_of f) pages" q] mem
    by (auto simp: cm_invalidate_def)
qed

section \<open>A run with one page of room\<close>

definition demo_options :: cache_options where
  "demo_options = \<lparr>co_page_size = 4, co_dir_capacity = 4, co_dirs = [''/c''], co_evictor = Lru,
     co_async_write_enabled = True, co_async_write_threads = 1, co_quota_enabled = False,
     co_ttl = None, co_uring_enabled = False, co_uring_queue_depth = 0,
     co_uring_thread_count = 0, co_sync_read_enabled = False\<rparr>"

definition demo_io :: io_env where
  "demo_io = \<lparr>io_now = 0, io_write = Done, io_cleaned = True, io_uuid = ''u'',
     io_id_write = Done, io_id_cleaned = True, io_id_uuid = ''v'', io_opened = True,
     io_seeked = True, io_reads = (\<lambda>_. Some 2), io_removed = True, io_id_removed = True\<rparr>"

definition empty_listing :: restore_env where
  "empty_listing = \<lparr>re_now = 0, re_list = (\<lambda>_. None), re_removed = (\<lambda>_. True),
     re_removed_all = (\<lambda>_ _. True), re_metadata = (\<lambda>_. True), re_opened = (\<lambda>_. True)\<rparr>"

definition demo_manager :: "lru cache_manager" where
  "demo_manager = \<lparr>cm_options = demo_options, cm_roots = [''/c/4''], cm_caches = [([], Map.empty)],
     cm_reap_queue = [], cm_by_file = Map.empty, cm_versions = Map.empty, cm_permits = 1,
     cm_fills = [], cm_state = ReadWrite, cm_disk = Map.empty\<rparr>"

abbreviation "demo_put i page s \<equiv>
  snd (cm_put (lru_foyer 1) (\<lambda>_. 7) demo_io (page_id_of ''42'' i) page s)"

abbreviation "demo_open len mtime s \<equiv>
  cm_on_file_open (lru_foyer 1) (\<lambda>_. 7) (\<lambda>_. demo_io) ''42'' len mtime s"

definition demo_run :: "lru cache_manager" where
  "demo_run = run_reaper (lru_foyer 1) (\<lambda>_. 7) demo_io
     (demo_put 0 [7, 7, 7, 7] (demo_put 1 [8, 8, 8, 8] (demo_put 0 [7, 7, 7, 7] (demo_open 8 1 demo_manager))))"

lemma demo_create:
  "cm_create (lru_foyer 1) (\<lambda>_ _ _. ([], Map.empty)) (\<lambda>_. 7) (\<lambda>_. True) empty_listing demo_options Map.empty
   = Inr demo_manager"
proof -
  have "store_root ''/c'' 4 = ''/c/4''" by code_simp
  then show ?thesis
    by (simp add: cm_create_def demo_options_def empty_listing_def demo_manager_def cm_restore_def
        restore_dir_def)
qed

definition demo_data :: "page_id \<Rightarrow> bytes \<Rightarrow> bool" where
  "demo_data pid page \<longleftrightarrow> page = (if page_index pid = 0 then [7, 7, 7, 7] else [8, 8, 8, 8])"

lemma demo_env: "io_ok demo_io" "io_clean demo_io" "plain_name (file_id (page_id_of ''42'' i))"
  "re_list empty_listing dir = None" "fo_entries (lru_foyer n) ([], Map.empty) = Map.empty"
  "length (co_dirs demo_options) < 2 ^ 64"
  by (simp_all add: io_ok_def io_clean_def demo_io_def plain_name_def page_id_of_def
      empty_listing_def lru_foyer_def demo_options_def fun_eq_iff)

lemma demo_puts:
  "cm_steps calm (lru_foyer 1) (\<lambda>_. 7) demo_data demo_manager
     (demo_put 1 [8, 8, 8, 8] (demo_put 0 [7, 7, 7, 7] (demo_open 8 1 demo_manager)))"
  by (intro cm_steps.step [OF _ cm_step.put] cm_steps.step [OF cm_steps.refl cm_step.opened])
    (simp_all add: demo_env, simp_all add: demo_data_def page_id_of_def)

lemma demo_run_steps: "cm_steps False (lru_foyer 1) (\<lambda>_. 7) demo_data demo_manager demo_run"
  unfolding demo_run_def
  by (intro cm_steps.step [OF _ cm_step.reap] cm_steps.step [OF demo_puts cm_step.put])
    (simp_all add: demo_env, simp_all add: demo_data_def page_id_of_def)

section \<open>The properties\<close>

text \<open>
  (C22) The cache never serves bytes that were not put for the page.  In every state a manager
  over empty directories can reach, by any sequence of operations, evictions, background fills,
  reaps and file-system faults, a read returns nothing or a slice of right bytes; and a page the
  metadata lists is readable: a read of it that meets no fault and has not expired returns its
  slice, so the races between eviction and re-admission leave no listed page without its file.
\<close>

theorem cache_serves_put_bytes:
  assumes "foyer_ok fo" and "cm_create fo build xxh3 made env options d = Inr s0"
    and "\<And>dir. re_list env dir = None" and "\<And>p c k. fo_entries fo (build p c k) = Map.empty"
    and "length (co_dirs options) < 2 ^ 64" and "cm_steps calm fo xxh3 T s0 s"
  shows "(\<forall>io pid off len. fst (cm_get_bytes fo xxh3 io pid off len s) = []
      \<or> (\<exists>page. T pid page \<and> fst (cm_get_bytes fo xxh3 io pid off len s) = seg off len page))
    \<and> (\<forall>io pid off len info. resident fo xxh3 s pid = Some info
        \<and> io_clean io \<and> live io (cm_options s) info
        \<longrightarrow> (\<exists>page. T pid page \<and> page \<noteq> []
              \<and> fst (cm_get_bytes fo xxh3 io pid off len s) = seg off len page))"
proof -
  have fresh: "cache_ok fo xxh3 T s0" "cm_state s0 = ReadWrite"
    using cm_create_fresh [OF assms(2-5)] by blast+
  have ok: "cache_ok fo xxh3 T s" by (rule cm_steps_ok [OF assms(1,6) fresh(1)])
  have st: "cm_state s = ReadWrite" using cm_steps_state [OF assms(1,6) fresh(1)] fresh(2) by simp
  have page: "\<exists>page. stored xxh3 s pid = Some page \<and> page \<noteq> [] \<and> T pid page"
    if "resident fo xxh3 s pid \<noteq> None" for pid
    using cache_okD(2) [OF ok that] .
  show ?thesis
  proof (intro conjI allI impI)
    fix io pid off len
    show "fst (cm_get_bytes fo xxh3 io pid off len s) = []
      \<or> (\<exists>page. T pid page \<and> fst (cm_get_bytes fo xxh3 io pid off len s) = seg off len page)"
      using cm_get_bytes_value [OF assms(1), of xxh3 io pid off len s] page [of pid] by force
    fix info assume hit: "resident fo xxh3 s pid = Some info \<and> io_clean io \<and> live io (cm_options s) info"
    then obtain page where "stored xxh3 s pid = Some page" "page \<noteq> []" "T pid page"
      using page [of pid] by auto
    moreover from this(1) have "fst (cm_get_bytes fo xxh3 io pid off len s) = seg off len page"
      using hit st by (intro cm_get_bytes_hit [OF assms(1), of xxh3 s pid info]) simp_all
    ultimately show "\<exists>page. T pid page \<and> page \<noteq> []
        \<and> fst (cm_get_bytes fo xxh3 io pid off len s) = seg off len page"
      by blast
  qed
qed

theorem cache_serves_put_bytes_witness:
  "fst (cm_get_bytes (lru_foyer 1) (\<lambda>_. 7) demo_io (page_id_of ''42'' 1) 2 2
     (demo_put 1 [8, 8, 8, 8] (demo_put 0 [7, 7, 7, 7] (demo_open 8 1 demo_manager)))) = [8, 8]"
proof -
  let ?s = "demo_put 1 [8, 8, 8, 8] (demo_put 0 [7, 7, 7, 7] (demo_open 8 1 demo_manager))"
  have "resident (lru_foyer 1) (\<lambda>_. 7) ?s (page_id_of ''42'' 1)
      = Some (new_info (page_id_of ''42'' 1) 4 0 0)" by code_simp
  moreover have "co_ttl (cm_options ?s) = None" by code_simp
  ultimately show ?thesis
    using cache_serves_put_bytes [OF lru_foyer_ok demo_create demo_env(4,5,6) demo_puts]
    by (force simp: demo_env live_def demo_data_def page_id_of_def seg_def)
qed

text \<open>
  (C23) Overwrites are noticed.  As long as no page is put again between its eviction and the
  reaper's turn, opening a file with a length or modification time other than the recorded
  one leaves no page of the file to be served, keeps the pages of every other file, and
  records the new identity.
\<close>

theorem overwrite_invalidates:
  assumes "foyer_ok fo" and "cm_create fo build xxh3 made env options d = Inr s0"
    and "\<And>dir. re_list env dir = None" and "\<And>p c k. fo_entries fo (build p c k) = Map.empty"
    and "length (co_dirs options) < 2 ^ 64" and "cm_steps True fo xxh3 T s0 s"
    and "cm_versions s f = Some v" and "v \<noteq> (len, mtime)"
  shows "(\<forall>pid. resident fo xxh3 (cm_on_file_open fo xxh3 ios f len mtime s) pid
        = (if file_id pid = f then None else resident fo xxh3 s pid))
    \<and> (\<forall>pid io off n. file_id pid = f
        \<longrightarrow> fst (cm_get_bytes fo xxh3 io pid off n (cm_on_file_open fo xxh3 ios f len mtime s)) = [])
    \<and> cm_versions (cm_on_file_open fo xxh3 ios f len mtime s) f = Some (len, mtime)"
proof -
  have fresh: "cache_ok fo xxh3 T s0" "index_complete fo xxh3 s0"
    using cm_create_fresh [OF assms(2-5)] by (auto simp: index_complete_def)
  have shape: "cache_shape fo xxh3 s"
    by (rule cache_okD [OF cm_steps_ok [OF assms(1,6) fresh(1)]])
  have idx: "index_complete fo xxh3 s" by (rule cm_steps_index [OF assms(1,6) fresh])
  have eq: "cm_on_file_open fo xxh3 ios f len mtime s =
      (let s1 = cm_invalidate fo xxh3 ios f s in s1\<lparr>cm_versions := (cm_versions s1)(f \<mapsto> (len, mtime))\<rparr>)"
    using assms(7,8) by (auto simp: cm_on_file_open_def split: prod.splits)
  have res: "resident fo xxh3 (cm_on_file_open fo xxh3 ios f len mtime s) pid
      = (if file_id pid = f then None else resident fo xxh3 s pid)" for pid
    using cm_invalidate_resident [OF assms(1) shape idx, of ios f pid]
    by (simp add: eq Let_def resident_def cm_dir_def)
  then show ?thesis
    using cm_get_bytes_value [OF assms(1)] by (fastforce simp: eq Let_def)
qed

theorem overwrite_invalidates_witness:
  "fst (cm_get_bytes (lru_foyer 1) (\<lambda>_. 7) demo_io (page_id_of ''42'' 1) 0 4
     (demo_open 9 1 (demo_put 1 [8, 8, 8, 8] (demo_put 0 [7, 7, 7, 7] (demo_open 8 1 demo_manager))))) = []"
proof -
  let ?s = "demo_put 1 [8, 8, 8, 8] (demo_put 0 [7, 7, 7, 7] (demo_open 8 1 demo_manager))"
  have "cm_versions ?s ''42'' = Some (8, 1)" by code_simp
  from overwrite_invalidates [OF lru_foyer_ok demo_create demo_env(4,5,6) demo_puts this,
      of 9 1 "\<lambda>_. demo_io"]
  show ?thesis by (simp add: page_id_of_def)
qed

text \<open>
  (C31) The reaper can undo overwrite detection.  It drops an evicted page from the reverse index
  before it looks whether the page has been put again; a page that has stays listed and on
  disk but is no longer found through its file.  In this run of a cache with room for one page
  (open, put page 0, put page 1, put page 0 again, reap), reopening the file with a new
  modification time is noticed and recorded, and the old bytes of page 0 are served after it.
\<close>

theorem readmitted_page_survives_overwrite:
  "cm_steps False (lru_foyer 1) (\<lambda>_. 7) demo_data demo_manager demo_run
   \<and> cm_versions demo_run ''42'' = Some (8, 1)
   \<and> \<not> indexed_page (cm_by_file demo_run) (page_id_of ''42'' 0)
   \<and> cm_versions (demo_open 8 2 demo_run) ''42'' = Some (8, 2)
   \<and> fst (cm_get_bytes (lru_foyer 1) (\<lambda>_. 7) demo_io (page_id_of ''42'' 0) 0 4
        (demo_open 8 2 demo_run)) = [7, 7, 7, 7]"
proof (intro conjI)
  show "cm_steps False (lru_foyer 1) (\<lambda>_. 7) demo_data demo_manager demo_run"
    by (rule demo_run_steps)
qed code_simp+

end
