(* ===== verification/Caching_Reader.thy ===== *)
theory Caching_Reader
  imports Cache_Reach
begin

text \<open>
  Reading through the page cache (\<^verbatim>\<open>src/src/cache/caching_reader.rs\<close>, with the trait and the
  disabled manager of \<^verbatim>\<open>src/src/cache/mod.rs\<close>).  The cache behind the trait object is a record of
  its operations; what the reader relies on is the locale \<open>page_cache\<close>, interpreted on the
  disabled and on the local manager.  The loop that splits a range into pages is partial: it
  does not return when a page yields no byte to advance by.
\<close>

section \<open>The cache behind the trait\<close>

record page_read_request =
  rq_page_id :: page_id
  rq_page_offset :: nat
  rq_len :: nat

datatype fill_mode = FillNone | FillSync | FillAsync

record 's cache_ops =
  op_get_batch :: "page_read_request list \<Rightarrow> 's \<Rightarrow> bytes list \<times> 's"
  op_put :: "page_id \<Rightarrow> bytes \<Rightarrow> 's \<Rightarrow> bool \<times> 's"
  op_fill :: "page_id \<Rightarrow> bytes \<Rightarrow> 's \<Rightarrow> 's"
  op_on_file_open :: "string \<Rightarrow> i64 \<Rightarrow> i64 \<Rightarrow> 's \<Rightarrow> 's"

text \<open>The trait's default \<open>get_bytes\<close> over a \<open>get\<close> that fills a buffer, and its default batch read.\<close>

definition default_get_bytes ::
  "(page_id \<Rightarrow> nat \<Rightarrow> bytes \<Rightarrow> 's \<Rightarrow> nat \<times> bytes \<times> 's) \<Rightarrow> page_id \<Rightarrow> nat \<Rightarrow> nat \<Rightarrow> 's \<Rightarrow> bytes \<times> 's" where
  "default_get_bytes get pid page_offset len s =
     (if len = 0 then ([], s)
      else let (n, dst, s) = get pid page_offset (replicate len 0) s
           in (if n = 0 then [] else take n dst, s))"

fun batch_of ::
  "(page_id \<Rightarrow> nat \<Rightarrow> nat \<Rightarrow> 's \<Rightarrow> bytes \<times> 's) \<Rightarrow> page_read_request list \<Rightarrow> 's \<Rightarrow> bytes list \<times> 's" where
  "batch_of get_bytes [] s = ([], s)"
| "batch_of get_bytes (rq # rqs) s =
     (let (bytes, s) = get_bytes (rq_page_id rq) (rq_page_offset rq) (rq_len rq) s;
          (out, s) = batch_of get_bytes rqs s
      in (bytes # out, s))"

definition disabled_get :: "page_id \<Rightarrow> nat \<Rightarrow> bytes \<Rightarrow> unit \<Rightarrow> nat \<times> bytes \<times> unit" where
  "disabled_get pid page_offset dst s = (0, dst, s)"

definition disabled_ops :: "unit cache_ops" where
  "disabled_ops = \<lparr>op_get_batch = batch_of (default_get_bytes disabled_get),
     op_put = (\<lambda>_ _ s. (False, s)), op_fill = (\<lambda>_ _ s. s),
     op_on_file_open = (\<lambda>_ _ _ s. s)\<rparr>"

definition local_ops ::
  "'c foyer \<Rightarrow> (string \<Rightarrow> u64) \<Rightarrow> (page_id \<Rightarrow> io_env) \<Rightarrow> 'c cache_manager cache_ops" where
  "local_ops fo xxh3 ios = \<lparr>
     op_get_batch = batch_of (\<lambda>pid. cm_get_bytes fo xxh3 (ios pid) pid),
     op_put = (\<lambda>pid. cm_put fo xxh3 (ios pid) pid),
     op_fill = cm_schedule_fill,
     op_on_file_open = cm_on_file_open fo xxh3 ios\<rparr>"

section \<open>Splitting a range into pages\<close>

record page_slot =
  sl_page_id :: page_id
  sl_page_start :: i64
  sl_page_end :: i64
  sl_in_page_off :: u64
  sl_want :: u64

definition page_slot_at :: "string \<Rightarrow> u64 \<Rightarrow> i64 \<Rightarrow> i64 \<Rightarrow> i64 \<Rightarrow> page_slot" where
  "page_slot_at f page_size file_length stop cur =
     (let idx = word_of_int cur div page_size;
          start = sint (idx * page_size);
          page_end = min (sint ((idx + 1) * page_size)) file_length
      in \<lparr>sl_page_id = page_id_of f idx, sl_page_start = start, sl_page_end = page_end,
          sl_in_page_off = word_of_int (cur - start),
          sl_want = word_of_int (min stop page_end - cur)\<rparr>)"

partial_function (option) split_pages ::
  "string \<Rightarrow> u64 \<Rightarrow> i64 \<Rightarrow> i64 \<Rightarrow> i64 \<Rightarrow> page_slot list option" where
  "split_pages f page_size file_length stop cur =
     (if cur < stop then
        let slot = page_slot_at f page_size file_length stop cur
        in Option.bind (split_pages f page_size file_length stop (wrap_i64 (cur + sint (sl_want slot))))
             (\<lambda>slots. Some (slot # slots))
      else Some [])"

section \<open>Serving the pages\<close>

definition short_read_error :: "u64 \<Rightarrow> nat \<Rightarrow> nat \<Rightarrow> client_error" where
  "short_read_error idx got expected =
     EInternal (''read_through_cache: short external read for page '' @ show_nat (unat idx)
       @ '': got '' @ show_nat got @ '' of '' @ show_nat expected @ '' bytes'')"

definition no_bytes_error :: "u64 \<Rightarrow> i64 \<Rightarrow> i64 \<Rightarrow> client_error" where
  "no_bytes_error idx cur stop =
     EInternal (''read_through_cache: 0 bytes for page '' @ show_nat (unat idx)
       @ '' (cur='' @ show_int cur @ '', end='' @ show_int stop @ '')'')"

definition back_fill :: "'s cache_ops \<Rightarrow> fill_mode \<Rightarrow> page_id \<Rightarrow> bytes \<Rightarrow> 's \<Rightarrow> 's" where
  "back_fill ops mode pid page s =
     (if page = [] then s
      else case mode of
          FillNone \<Rightarrow> s
        | FillSync \<Rightarrow> snd (op_put ops pid page s)
        | FillAsync \<Rightarrow> op_fill ops pid page s)"

fun serve_pages ::
  "'s cache_ops \<Rightarrow> (i64 \<Rightarrow> i64 \<Rightarrow> 'e \<Rightarrow> (bytes result \<times> 'e) option) \<Rightarrow> fill_mode \<Rightarrow> i64
   \<Rightarrow> (page_slot \<times> bytes) list \<Rightarrow> 's \<Rightarrow> 'e \<Rightarrow> (bytes list result \<times> 's \<times> 'e) option" where
  "serve_pages ops ext mode stop [] s e = Some (Inr [], s, e)"
| "serve_pages ops ext mode stop ((slot, cached) # rest) s e =
     (if length cached = unat (sl_want slot)
      then map_option (apfst (map_sum id ((#) cached))) (serve_pages ops ext mode stop rest s e)
      else case ext (sl_page_start slot) (sl_page_end slot) e of
          None \<Rightarrow> None
        | Some (Inl err, e) \<Rightarrow> Some (Inl err, s, e)
        | Some (Inr page_bytes, e) \<Rightarrow>
            let expected = unat (word_of_int (sl_page_end slot - sl_page_start slot) :: u64);
                idx = page_index (sl_page_id slot)
            in if length page_bytes < expected
               then Some (Inl (short_read_error idx (length page_bytes) expected), s, e)
               else
                 let page = take expected page_bytes;
                     s = back_fill ops mode (sl_page_id slot) page s;
                     lo = min (unat (sl_in_page_off slot)) (length page);
                     hi = min (unat (sl_in_page_off slot + sl_want slot)) (length page)
                 in if hi - lo = 0
                    then Some (Inl (no_bytes_error idx (sl_page_start slot + uint (sl_in_page_off slot)) stop), s, e)
                    else map_option (apfst (map_sum id ((#) (seg lo (hi - lo) page))))
                           (serve_pages ops ext mode stop rest s e))"

definition slot_request :: "page_slot \<Rightarrow> page_read_request" where
  "slot_request slot = \<lparr>rq_page_id = sl_page_id slot, rq_page_offset = unat (sl_in_page_off slot),
     rq_len = unat (sl_want slot)\<rparr>"

text \<open>\<open>None\<close> is a call that never returns: the page loop does not end, or the miss source stays silent.\<close>

definition read_through_cache ::
  "'s cache_ops \<Rightarrow> (i64 \<Rightarrow> i64 \<Rightarrow> 'e \<Rightarrow> (bytes result \<times> 'e) option) \<Rightarrow> string \<Rightarrow> u64 \<Rightarrow> i64 \<Rightarrow> i64 \<Rightarrow> i64 \<Rightarrow> fill_mode
   \<Rightarrow> 's \<Rightarrow> 'e \<Rightarrow> (bytes result \<times> 's \<times> 'e) option" where
  "read_through_cache ops ext f page_size file_length offset stop mode s e =
     Option.bind (split_pages f (max page_size 1) file_length stop offset) (\<lambda>slots.
       let (cached, s) = op_get_batch ops (map slot_request slots) s;
           cached = (if length cached \<noteq> length slots then replicate (length slots) [] else cached)
       in map_option (apfst (map_sum id concat)) (serve_pages ops ext mode stop (zip slots cached) s e))"

section \<open>The pages of a range\<close>

lemma unat_mult_nowrap: "unat a * unat b < 2 ^ 64 \<Longrightarrow> unat (a * b :: u64) = unat a * unat b"
  by (rule unat_mult_lem [THEN iffD1]) simp

text \<open>What a slot says in natural numbers, when no page boundary leaves the range of \<open>i64\<close>.\<close>

lemma page_slot_at_values:
  fixes page_size :: u64 and cur stop L :: i64
  defines "p \<equiv> unat page_size" and "c \<equiv> nat cur"
  assumes "0 \<le> cur" "cur < stop" "stop \<le> L" "0 < p" "L + int p < 2 ^ 63"
  shows "sl_page_id (page_slot_at f page_size L stop cur) = page_id_of f (word_of_nat (c div p))"
    and "unat (word_of_nat (c div p) :: u64) = c div p"
    and "sl_page_start (page_slot_at f page_size L stop cur) = int (c div p * p)"
    and "sl_page_end (page_slot_at f page_size L stop cur) = min (int ((c div p + 1) * p)) L"
    and "unat (sl_in_page_off (page_slot_at f page_size L stop cur)) = c mod p"
    and "unat (sl_want (page_slot_at f page_size L stop cur))
      = nat (min stop (min (int ((c div p + 1) * p)) L) - cur)"
    and "cur < min stop (min (int ((c div p + 1) * p)) L)"
proof -
  have c: "int c = cur" using assms(3) by (simp add: c_def)
  then have "int c < 2 ^ 63" using assms(4,5,7) by linarith
  then have c63: "c < 2 ^ 63" by simp
  have w: "unat (word_of_int cur :: u64) = c"
    using assms(3) c c63 unat_of_int_nat [of cur] by simp
  let ?idx = "word_of_int cur div page_size"
  have idx: "unat ?idx = c div p" by (simp add: unat_div_distrib w p_def)
  have "c div p * p \<le> c" by simp
  then have lo: "c div p * p < 2 ^ 63" using c63 by linarith
  have lt: "c < (c div p + 1) * p" using assms(6) by (simp add: dividend_less_div_times)
  have "(c div p + 1) * p \<le> c + p" by simp
  moreover have "int (c + p) < 2 ^ 63" using assms(4,5,7) c by linarith
  then have cp: "c + p < 2 ^ 63" by simp
  ultimately have hi: "(c div p + 1) * p < 2 ^ 63" by linarith
  have "c div p < 2 ^ 63" using div_le_dividend [of c p] c63 by linarith
  then have one: "unat (?idx + 1) = c div p + 1"
    using unat_add_nowrap [of ?idx 1] idx by simp
  have start: "unat (?idx * page_size) = c div p * p"
    using unat_mult_nowrap [of ?idx page_size] idx lo by (simp add: p_def)
  have fin: "unat ((?idx + 1) * page_size) = (c div p + 1) * p"
    using unat_mult_nowrap [of "?idx + 1" page_size] one hi by (simp add: p_def)
  have sstart: "sint (?idx * page_size) = int (c div p * p)"
    using sint_of_unat [of "?idx * page_size"] start lo by simp
  have sfin: "sint ((?idx + 1) * page_size) = int ((c div p + 1) * p)"
    using sint_of_unat [of "(?idx + 1) * page_size"] fin hi by simp
  have "?idx = word_of_nat (unat ?idx)" by simp
  then have idx_nat: "?idx = word_of_nat (c div p)" unfolding idx .
  show "unat (word_of_nat (c div p) :: u64) = c div p" using idx idx_nat by simp
  show "sl_page_id (page_slot_at f page_size L stop cur) = page_id_of f (word_of_nat (c div p))"
    by (simp add: page_slot_at_def Let_def idx_nat)
  show "sl_page_start (page_slot_at f page_size L stop cur) = int (c div p * p)"
    by (simp add: page_slot_at_def Let_def sstart)
  show pend: "sl_page_end (page_slot_at f page_size L stop cur) = min (int ((c div p + 1) * p)) L"
    by (simp add: page_slot_at_def Let_def sfin)
  have "cur - int (c div p * p) = int (c mod p)"
    using c by (metis add_diff_cancel_left' div_mult_mod_eq of_nat_add)
  then have "sl_in_page_off (page_slot_at f page_size L stop cur) = word_of_int (int (c mod p))"
    by (simp only: page_slot_at_def Let_def page_slot.select_convs sstart)
  moreover have "c mod p < 2 ^ 63" using mod_less_eq_dividend [of c p] c63 by linarith
  ultimately show "unat (sl_in_page_off (page_slot_at f page_size L stop cur)) = c mod p"
    using unat_of_int_nat [of "int (c mod p)"] by simp
  show pos: "cur < min stop (min (int ((c div p + 1) * p)) L)"
    using assms(4,5) lt c by (metis min_less_iff_conj of_nat_less_iff order_less_le_trans)
  have "min stop (min (int ((c div p + 1) * p)) L) - cur < 2 ^ 64"
    using assms(3,5,7) by simp
  moreover have "sl_want (page_slot_at f page_size L stop cur)
      = word_of_int (min stop (min (int ((c div p + 1) * p)) L) - cur)"
    by (simp only: page_slot_at_def Let_def page_slot.select_convs sfin)
  ultimately show "unat (sl_want (page_slot_at f page_size L stop cur))
      = nat (min stop (min (int ((c div p + 1) * p)) L) - cur)"
    using pos unat_of_int_nat by (metis diff_ge_0_iff_ge less_imp_le)
qed

text \<open>
  The slots of the bytes from \<open>c\<close> to \<open>t\<close> of a file of \<open>N\<close> bytes in pages of \<open>p\<close> bytes: each covers
  its page's share of what is left, and the next goes on where it ends.
\<close>

definition page_stop :: "nat \<Rightarrow> nat \<Rightarrow> nat \<Rightarrow> nat" where
  "page_stop p N c = min ((c div p + 1) * p) N"

fun slots_from :: "string \<Rightarrow> nat \<Rightarrow> nat \<Rightarrow> nat \<Rightarrow> nat \<Rightarrow> page_slot list \<Rightarrow> bool" where
  "slots_from f p N t c [] = (c = t)"
| "slots_from f p N t c (slot # slots) =
     (c < min t (page_stop p N c)
      \<and> sl_page_id slot = page_id_of f (word_of_nat (c div p))
      \<and> unat (word_of_nat (c div p) :: u64) = c div p
      \<and> sl_page_start slot = int (c div p * p) \<and> sl_page_end slot = int (page_stop p N c)
      \<and> unat (sl_in_page_off slot) = c mod p \<and> unat (sl_want slot) = min t (page_stop p N c) - c
      \<and> slots_from f p N t (min t (page_stop p N c)) slots)"

lemma split_pages_slots:
  assumes "0 < unat page_size" "t \<le> N" "int N + int (unat page_size) < 2 ^ 63" "c \<le> t"
  shows "\<exists>slots. split_pages f page_size (int N) (int t) (int c) = Some slots
    \<and> slots_from f (unat page_size) N t c slots"
  using assms(4)
proof (induction "t - c" arbitrary: c rule: less_induct)
  case less
  let ?p = "unat page_size" and ?slot = "page_slot_at f page_size (int N) (int t) (int c)"
  show ?case
  proof (cases "c < t")
    case False
    with less.prems show ?thesis by (subst split_pages.simps) simp
  next
    case True
    have eq: "min (int ((c div ?p + 1) * ?p)) (int N) = int (page_stop ?p N c)"
      by (simp only: page_stop_def of_nat_min)
    have min: "min (int t) (int (page_stop ?p N c)) = int (min t (page_stop ?p N c))"
      by (simp only: of_nat_min)
    have pre: "0 \<le> int c" "int c < int t" "int t \<le> int N" "0 < ?p" "int N + int ?p < 2 ^ 63"
      using True assms by simp_all
    note slot = page_slot_at_values [OF pre, unfolded eq nat_int min]
    let ?c = "min t (page_stop ?p N c)"
    have pos: "c < ?c" using slot(7) by simp
    have want: "unat (sl_want ?slot) = ?c - c" using slot(6) by (simp add: nat_diff_distrib')
    have "int ?c \<le> int N" using assms(2) by simp
    then have bound: "int ?c < 2 ^ 63" using assms(3) by linarith
    have "unat (sl_want ?slot) < 2 ^ 63" using want bound by simp
    then have "int c + sint (sl_want ?slot) = int ?c"
      using sint_of_unat [of "sl_want ?slot"] want pos by simp
    then have "wrap_i64 (int c + sint (sl_want ?slot)) = int ?c"
      using bound wrap_i64_id [of "int ?c"] by simp
    moreover obtain slots where "split_pages f page_size (int N) (int t) (int ?c) = Some slots"
        "slots_from f ?p N t ?c slots"
      using less.hyps [OF diff_less_mono2 [OF pos True] min.cobounded1] by blast
    ultimately show ?thesis
      using True slot want pos by (subst split_pages.simps) (simp add: Let_def)
  qed
qed

section \<open>What a reader relies on\<close>

text \<open>
  A page cache keeps a notion of being \<open>honest\<close> about a relation \<open>T\<close> of pages to right bytes: reads
  keep it and return nothing or a slice of right bytes, and storing right bytes keeps it.
\<close>

definition honest_reply :: "(page_id \<Rightarrow> bytes \<Rightarrow> bool) \<Rightarrow> page_read_request \<Rightarrow> bytes \<Rightarrow> bool" where
  "honest_reply T rq bytes \<longleftrightarrow> bytes = []
     \<or> (\<exists>page. T (rq_page_id rq) page \<and> bytes = seg (rq_page_offset rq) (rq_len rq) page)"

definition file_pages :: "(page_id \<Rightarrow> bytes \<Rightarrow> bool) \<Rightarrow> string \<Rightarrow> nat \<Rightarrow> bytes \<Rightarrow> bool" where
  "file_pages T f p content \<longleftrightarrow>
     (\<forall>i page. T (page_id_of f i) page \<longleftrightarrow> page = block_of p (unat i) content)"

text \<open>The miss source stays silent, fails, or returns the bytes of the range.\<close>

definition ext_exact :: "(i64 \<Rightarrow> i64 \<Rightarrow> 'e \<Rightarrow> (bytes result \<times> 'e) option) \<Rightarrow> bytes \<Rightarrow> bool" where
  "ext_exact ext content \<longleftrightarrow>
     (\<forall>a b e. a \<le> b \<and> b \<le> length content \<longrightarrow>
        (case ext (int a) (int b) e of Some (Inr bytes, _) \<Rightarrow> bytes = seg a (b - a) content | _ \<Rightarrow> True))"

lemma unat_word_diff:
  assumes "a \<le> b" "b < 2 ^ 63"
  shows "unat (word_of_int (int b - int a) :: u64) = b - a"
proof -
  obtain n where n: "b = a + n" using assms(1) le_Suc_ex by blast
  then have "n < 2 ^ 63" using assms(2) by linarith
  then show ?thesis using n unat_of_int_nat [of "int n"] by simp
qed

lemma page_piece:
  assumes "0 < p" "m \<le> page_stop p N c"
  shows "seg (c mod p) (m - c) (block_of p (c div p) content) = seg c (m - c) content"
proof (rule seg_block)
  have "m \<le> c div p * p + p" using assms(2) by (simp add: page_stop_def)
  then show "m - c \<le> p - c mod p"
    using div_mult_mod_eq [of c p] mod_less_divisor [OF assms(1), of c] by linarith
qed

lemma page_window:
  assumes "c < page_stop p (length content) c"
  shows "seg (c div p * p) (page_stop p (length content) c - c div p * p) content
    = block_of p (c div p) content"
proof -
  have "c div p * p \<le> length content"
    using assms by (metis (no_types) div_times_less_eq_dividend less_imp_le min_less_iff_conj
        order_trans page_stop_def)
  then have "page_stop p (length content) c - c div p * p = min p (length content - c div p * p)"
    by (auto simp: page_stop_def min_def)
  then show ?thesis by (simp add: block_of_def seg_clamp)
qed

text \<open>The chunks of a served range are its bytes; the only errors are those of the miss source.\<close>

definition serves_range ::
  "(i64 \<Rightarrow> i64 \<Rightarrow> 'e \<Rightarrow> (bytes result \<times> 'e) option) \<Rightarrow> bytes \<Rightarrow> nat \<Rightarrow> nat \<Rightarrow> bytes list result \<Rightarrow> bool" where
  "serves_range ext content c t res = (case res of
       Inr chunks \<Rightarrow> concat chunks = seg c (t - c) content
     | Inl err \<Rightarrow> \<exists>a b e e'. ext a b e = Some (Inl err, e'))"

definition serves ::
  "('s \<Rightarrow> bool) \<Rightarrow> (i64 \<Rightarrow> i64 \<Rightarrow> 'e \<Rightarrow> (bytes result \<times> 'e) option) \<Rightarrow> bytes \<Rightarrow> nat \<Rightarrow> nat
   \<Rightarrow> (bytes list result \<times> 's \<times> 'e) option \<Rightarrow> bool" where
  "serves I ext content c t outcome = (case outcome of
       None \<Rightarrow> \<exists>a b e. ext a b e = None
     | Some (res, s, _) \<Rightarrow> I s \<and> serves_range ext content c t res)"

lemma serves_range_Cons:
  "serves_range ext content m t res \<Longrightarrow> chunk @ seg m (t - m) content = seg c (t - c) content
   \<Longrightarrow> serves_range ext content c t (map_sum id ((#) chunk) res)"
  by (cases res) (auto simp: serves_range_def)

lemma serves_Cons:
  "serves I ext content m t outcome \<Longrightarrow> chunk @ seg m (t - m) content = seg c (t - c) content
   \<Longrightarrow> serves I ext content c t (map_option (apfst (map_sum id ((#) chunk))) outcome)"
  by (auto simp: serves_def intro: serves_range_Cons split: option.splits)

lemma length_block_of: "length (block_of p i content) = min p (length content - i * p)"
  by (simp add: block_of_def length_seg)

text \<open>A miss whose page arrives: the chunk is the page's share of the range.\<close>

lemma ext_page:
  assumes "ext_exact ext content" "slots_from f p (length content) t c (slot # slots)"
    and "ext (sl_page_start slot) (sl_page_end slot) e = Some (Inr bytes, e')"
  shows "bytes = block_of p (c div p) content"
proof -
  let ?stop = "page_stop p (length content) c"
  have stop: "c < ?stop" "?stop \<le> length content" using assms(2) by (simp_all add: page_stop_def)
  have "c div p * p \<le> c" by simp
  with stop have "c div p * p \<le> ?stop" by linarith
  then have "case ext (int (c div p * p)) (int ?stop) e of
      Some (Inr bytes, _) \<Rightarrow> bytes = seg (c div p * p) (?stop - c div p * p) content | _ \<Rightarrow> True"
    using assms(1) stop(2) unfolding ext_exact_def by blast
  then show ?thesis
    using assms(2,3) page_window [OF stop(1)] by (simp del: of_nat_mult)
qed

lemma serve_miss:
  assumes "0 < p" "length content < 2 ^ 63" "slots_from f p (length content) t c (slot # slots)"
    and "length bytes \<noteq> unat (sl_want slot)"
    and "ext (sl_page_start slot) (sl_page_end slot) e = Some (Inr (block_of p (c div p) content), e')"
  shows "serve_pages ops ext mode stop ((slot, bytes) # rest) s e
    = map_option (apfst (map_sum id ((#) (seg c (min t (page_stop p (length content) c) - c) content))))
        (serve_pages ops ext mode stop rest
          (back_fill ops mode (sl_page_id slot) (block_of p (c div p) content) s) e')"
proof -
  let ?N = "length content" and ?page = "block_of p (c div p) content"
  let ?stop = "page_stop p ?N c"
  define n where "n = min t ?stop - c"
  from assms(3) have slot: "c < min t ?stop" "sl_page_start slot = int (c div p * p)"
      "sl_page_end slot = int ?stop" "unat (sl_in_page_off slot) = c mod p" "unat (sl_want slot) = n"
    by (simp_all add: n_def)
  have stop: "c < ?stop" "?stop \<le> ?N" using slot(1) by (simp_all add: page_stop_def)
  have le: "c div p * p \<le> ?stop" using stop(1) div_times_less_eq_dividend [of c p] by linarith
  have len: "length ?page = ?stop - c div p * p"
    using page_window [OF stop(1)] stop(2) by (metis length_seg min.absorb1 diff_le_mono)
  have expected: "unat (word_of_int (sl_page_end slot - sl_page_start slot) :: u64) = length ?page"
    unfolding slot(2,3) len using le stop(2) assms(2) by (intro unat_word_diff) linarith+
  have sum: "c mod p + n \<le> length ?page"
    using div_mult_mod_eq [of c p] slot(1) len unfolding n_def by linarith
  then have "c mod p + n \<le> ?N" using len stop(2) by linarith
  then have "c mod p + n < 2 ^ 63" using assms(2) by (rule order_le_less_trans)
  then have "unat (sl_in_page_off slot + sl_want slot) = c mod p + n"
    using unat_add_nowrap [of "sl_in_page_off slot" "sl_want slot"] slot(4,5) by simp
  moreover have "seg (c mod p) n ?page = seg c n content"
    unfolding n_def by (rule page_piece [OF assms(1) min.cobounded2])
  moreover have "0 < n" using slot(1) by (simp add: n_def)
  ultimately have "serve_pages ops ext mode stop ((slot, bytes) # rest) s e
      = map_option (apfst (map_sum id ((#) (seg c n content))))
          (serve_pages ops ext mode stop rest (back_fill ops mode (sl_page_id slot) ?page s) e')"
    using assms(4,5) expected slot(4) sum by (simp add: Let_def)
  then show ?thesis by (simp only: n_def)
qed

locale page_cache =
  fixes ops :: "'s cache_ops" and honest :: "(page_id \<Rightarrow> bytes \<Rightarrow> bool) \<Rightarrow> 's \<Rightarrow> bool"
  assumes batch_honest: "honest T s \<Longrightarrow> honest T (snd (op_get_batch ops rqs s))"
    and batch_reply: "honest T s \<Longrightarrow> list_all2 (honest_reply T) rqs (fst (op_get_batch ops rqs s))"
    and put_honest: "honest T s \<Longrightarrow> T pid page \<Longrightarrow> honest T (snd (op_put ops pid page s))"
    and fill_honest: "honest T s \<Longrightarrow> T pid page \<Longrightarrow> honest T (op_fill ops pid page s)"
    and open_honest: "honest T s \<Longrightarrow> honest T (op_on_file_open ops f len mtime s)"
begin

lemma back_fill_honest: "honest T s \<Longrightarrow> T pid page \<Longrightarrow> honest T (back_fill ops mode pid page s)"
  by (simp add: back_fill_def put_honest fill_honest split: fill_mode.split)

lemma serve_pages_exact:
  assumes "file_pages T f p content" "ext_exact ext content" "0 < p" "length content < 2 ^ 63"
    and "slots_from f p (length content) t c slots" "honest T s"
    and "list_all2 (\<lambda>slot. honest_reply T (slot_request slot)) slots cached"
  shows "serves (honest T) ext content c t (serve_pages ops ext mode stop (zip slots cached) s e)"
  using assms(5-7)
proof (induction slots arbitrary: c cached s e)
  case Nil
  then show ?case by (simp add: serves_def serves_range_def)
next
  case (Cons slot slots)
  let ?N = "length content" and ?page = "block_of p (c div p) content"
  let ?m = "min t (page_stop p ?N c)"
  obtain bytes cached' where cached: "cached = bytes # cached'"
      and reply: "honest_reply T (slot_request slot) bytes"
      and rest: "list_all2 (\<lambda>slot. honest_reply T (slot_request slot)) slots cached'"
    using Cons.prems(3) by (auto simp: list_all2_Cons1)
  from Cons.prems(1) have slot: "c < ?m" "unat (sl_in_page_off slot) = c mod p"
      "unat (sl_want slot) = ?m - c" "slots_from f p ?N t ?m slots"
    by simp_all
  have pages: "T (sl_page_id slot) page \<longleftrightarrow> page = ?page" for page
    using assms(1) Cons.prems(1) by (simp add: file_pages_def)
  have piece: "seg (c mod p) (?m - c) ?page = seg c (?m - c) content"
    by (rule page_piece [OF assms(3) min.cobounded2])
  have join: "seg c (?m - c) content @ seg ?m (t - ?m) content = seg c (t - c) content"
    using slot(1) seg_append_seg [of c "?m - c" content "t - ?m"] by simp
  note IH = Cons.IH [OF slot(4) _ rest]
  let ?ext = "ext (sl_page_start slot) (sl_page_end slot) e"
  consider (hit) "length bytes = unat (sl_want slot)"
    | (silent) "length bytes \<noteq> unat (sl_want slot)" "?ext = None"
    | (failed) err e' where "length bytes \<noteq> unat (sl_want slot)" "?ext = Some (Inl err, e')"
    | (missed) e' where "length bytes \<noteq> unat (sl_want slot)" "?ext = Some (Inr ?page, e')"
    using ext_page [OF assms(2) Cons.prems(1), of e] by (metis old.prod.exhaust option.exhaust sum.exhaust)
  then show ?case
  proof cases
    case hit
    then have "bytes \<noteq> []" using slot(1,3) by auto
    then have "bytes = seg c (?m - c) content"
      using reply pages piece slot(2,3) by (auto simp: honest_reply_def slot_request_def)
    then show ?thesis
      using serves_Cons [OF IH [OF Cons.prems(2)] join] hit cached by simp
  next
    case silent
    then show ?thesis using cached by (auto simp: serves_def)
  next
    case failed
    then show ?thesis using cached Cons.prems(2) by (auto simp: serves_def serves_range_def)
  next
    case missed
    have "honest T (back_fill ops mode (sl_page_id slot) ?page s)"
      by (rule back_fill_honest [OF Cons.prems(2)]) (simp add: pages)
    from serves_Cons [OF IH [OF this, of e'] join] show ?thesis
      unfolding cached zip_Cons_Cons
        serve_miss [where ext = ext and e = e, OF assms(3,4) Cons.prems(1) missed] .
  qed
qed

text \<open>
  Reading through any such cache returns when the miss source does, and returns the bytes of
  the range.
\<close>

lemma read_through_range:
  assumes "file_pages T f (unat (max page_size 1)) content" "ext_exact ext content" "honest T s"
    and "c \<le> t" "t \<le> length content"
    and "int (length content) + int (unat (max page_size 1)) < 2 ^ 63"
  shows "(case read_through_cache ops ext f page_size (int (length content)) (int c) (int t) mode s e of
       None \<Rightarrow> \<exists>a b e. ext a b e = None
     | Some (res, s', _) \<Rightarrow> honest T s' \<and>
         (res = Inr (seg c (t - c) content) \<or> (\<exists>err. res = Inl err \<and> (\<exists>a b e e'. ext a b e = Some (Inl err, e')))))"
proof -
  let ?p = "max page_size 1"
  have p: "0 < unat ?p" by (simp add: unat_max)
  obtain slots where slots: "split_pages f ?p (int (length content)) (int t) (int c) = Some slots"
      "slots_from f (unat ?p) (length content) t c slots"
    using split_pages_slots [OF p assms(5,6,4)] by blast
  obtain cached s1 where got: "op_get_batch ops (map slot_request slots) s = (cached, s1)" by force
  have reply: "list_all2 (\<lambda>slot. honest_reply T (slot_request slot)) slots cached"
    using batch_reply [OF assms(3), of "map slot_request slots"] got by (simp add: list_all2_map1)
  have "int (length content) < 2 ^ 63" using assms(6) by linarith
  then have "length content < 2 ^ 63" by simp
  from serve_pages_exact [OF assms(1,2) p this slots(2) _ reply, of s1 mode "int t" e]
  have "serves (honest T) ext content c t (serve_pages ops ext mode (int t) (zip slots cached) s1 e)"
    using batch_honest [OF assms(3), of "map slot_request slots"] got by simp
  then show ?thesis
    using slots(1) got list_all2_lengthD [OF reply]
    by (auto simp: read_through_cache_def serves_def serves_range_def split: option.splits sum.splits)
qed

end

section \<open>The managers keep the contract\<close>

lemma batch_of_contract:
  assumes "\<And>pid off len s. I s \<Longrightarrow> I (snd (get pid off len s))"
    and "\<And>rq s. I s \<Longrightarrow> honest_reply T rq (fst (get (rq_page_id rq) (rq_page_offset rq) (rq_len rq) s))"
    and "I s"
  shows "I (snd (batch_of get rqs s)) \<and> list_all2 (honest_reply T) rqs (fst (batch_of get rqs s))"
  using assms(3)
proof (induction rqs arbitrary: s)
  case (Cons rq rqs)
  obtain bytes s1 where got: "get (rq_page_id rq) (rq_page_offset rq) (rq_len rq) s = (bytes, s1)" by force
  then have "I s1" "honest_reply T rq bytes"
    using assms(1) [OF Cons.prems] assms(2) [OF Cons.prems, of rq] by (metis snd_conv, simp)
  then show ?case using Cons.IH [of s1] got by (auto simp: split_beta)
qed simp

interpretation disabled: page_cache disabled_ops "\<lambda>_ _. True"
proof unfold_locales
  fix T rqs s
  show "list_all2 (honest_reply T) rqs (fst (op_get_batch disabled_ops rqs s))"
    using batch_of_contract [of "\<lambda>_. True" "default_get_bytes disabled_get" T s rqs]
    by (simp add: disabled_ops_def default_get_bytes_def disabled_get_def honest_reply_def)
qed simp_all

text \<open>The local manager over a well-behaved metadata cache, with ordinary file ids.\<close>

definition local_honest ::
  "'c foyer \<Rightarrow> (string \<Rightarrow> u64) \<Rightarrow> (page_id \<Rightarrow> io_env) \<Rightarrow> (page_id \<Rightarrow> bytes \<Rightarrow> bool) \<Rightarrow> 'c cache_manager
   \<Rightarrow> bool" where
  "local_honest fo xxh3 ios T s \<longleftrightarrow> foyer_ok fo \<and> (\<forall>pid. io_ok (ios pid)) \<and> cache_ok fo xxh3 T s
     \<and> (\<forall>pid page. T pid page \<longrightarrow> plain_name (file_id pid))"

lemma local_honest_get:
  assumes "local_honest fo xxh3 ios T s"
  shows "local_honest fo xxh3 ios T (snd (cm_get_bytes fo xxh3 (ios pid) pid off len s))"
    and "honest_reply T rq (fst (cm_get_bytes fo xxh3 (ios (rq_page_id rq)) (rq_page_id rq)
      (rq_page_offset rq) (rq_len rq) s))"
proof -
  have fo: "foyer_ok fo" and ok: "cache_ok fo xxh3 T s" using assms by (simp_all add: local_honest_def)
  show "local_honest fo xxh3 ios T (snd (cm_get_bytes fo xxh3 (ios pid) pid off len s))"
    using assms shrinks_ok [OF cm_get_bytes_shrinks [OF fo cache_okD(1) [OF ok]] ok]
    by (simp add: local_honest_def)
  show "honest_reply T rq (fst (cm_get_bytes fo xxh3 (ios (rq_page_id rq)) (rq_page_id rq)
      (rq_page_offset rq) (rq_len rq) s))"
    using cm_get_bytes_value [OF fo, of xxh3 "ios (rq_page_id rq)" "rq_page_id rq"]
      cache_okD(2) [OF ok, of "rq_page_id rq"]
    unfolding honest_reply_def by force
qed

interpretation local: page_cache "local_ops fo xxh3 ios" "local_honest fo xxh3 ios"
proof unfold_locales
  fix T s rqs pid page f len mtime
  assume honest: "local_honest fo xxh3 ios T s"
  then have fo: "foyer_ok fo" and ok: "cache_ok fo xxh3 T s" and io: "io_ok (ios pid)"
    by (simp_all add: local_honest_def)
  have "local_honest fo xxh3 ios T (snd (batch_of (\<lambda>pid. cm_get_bytes fo xxh3 (ios pid) pid) rqs s))
      \<and> list_all2 (honest_reply T) rqs (fst (batch_of (\<lambda>pid. cm_get_bytes fo xxh3 (ios pid) pid) rqs s))"
    by (rule batch_of_contract) (rule local_honest_get honest, assumption?)+
  then show "local_honest fo xxh3 ios T (snd (op_get_batch (local_ops fo xxh3 ios) rqs s))"
    and "list_all2 (honest_reply T) rqs (fst (op_get_batch (local_ops fo xxh3 ios) rqs s))"
    by (simp_all add: local_ops_def)
  show "local_honest fo xxh3 ios T (op_on_file_open (local_ops fo xxh3 ios) f len mtime s)"
    using honest shrinks_ok [OF cm_on_file_open_shrinks [OF fo cache_okD(1) [OF ok]] ok]
    by (simp add: local_honest_def local_ops_def)
  assume page: "T pid page"
  then have "plain_name (file_id pid)" using honest unfolding local_honest_def by blast
  then show "local_honest fo xxh3 ios T (snd (op_put (local_ops fo xxh3 ios) pid page s))"
    and "local_honest fo xxh3 ios T (op_fill (local_ops fo xxh3 ios) pid page s)"
    using honest cm_put_ok [OF fo ok io _ page] cm_schedule_fill_ok [OF ok _ page]
    by (simp_all add: local_honest_def local_ops_def)
qed

section \<open>Reads through the local cache\<close>

text \<open>
  (C24) Reading through the local cache is transparent.  In every state the manager can
  reach from empty directories while only pages of the file's content are put for it, for every
  fill mode, every eviction and every file-system fault, a read of a range inside the
  file returns unless the miss source stays silent (the page loop ends), and its result is
  exactly the bytes of the range or an error of the miss source; a cache fault is never an error
  and never a wrong byte.
\<close>

theorem read_through_exact:
  assumes "foyer_ok fo" and "cm_create fo build xxh3 made env options d = Inr s0"
    and "\<And>dir. re_list env dir = None" and "\<And>p c k. fo_entries fo (build p c k) = Map.empty"
    and "length (co_dirs options) < 2 ^ 64" and "cm_steps calm fo xxh3 T s0 s"
    and "\<And>pid. io_ok (ios pid)" and "\<And>pid page. T pid page \<Longrightarrow> plain_name (file_id pid)"
    and "file_pages T f (unat (max page_size 1)) content" and "ext_exact ext content"
    and "c \<le> t" and "t \<le> length content"
    and "int (length content) + int (unat (max page_size 1)) < 2 ^ 63"
  shows "(case read_through_cache (local_ops fo xxh3 ios) ext f page_size (int (length content))
      (int c) (int t) mode s e of
       None \<Rightarrow> \<exists>a b e. ext a b e = None
     | Some (res, s', _) \<Rightarrow> 
         (res = Inr (seg c (t - c) content) \<or> (\<exists>err. res = Inl err \<and> (\<exists>a b e e'. ext a b e = Some (Inl err, e')))))"
proof -
  have "cache_ok fo xxh3 T s0" using cm_create_fresh [OF assms(2-5)] by blast
  then have "local_honest fo xxh3 ios T s"
    using cm_steps_ok [OF assms(1,6)] assms(1,7,8) by (simp add: local_honest_def)
  from local.read_through_range [OF assms(9,10) this assms(11-13), of mode e] show ?thesis
    by (auto split: option.splits)
qed

definition demo_file :: bytes where
  "demo_file = [7, 7, 7, 7, 8, 8, 8, 8, 9]"

definition demo_pages :: "page_id \<Rightarrow> bytes \<Rightarrow> bool" where
  "demo_pages pid page \<longleftrightarrow> file_id pid = ''42'' \<and> page = block_of 4 (unat (page_index pid)) demo_file"

definition demo_ext :: "i64 \<Rightarrow> i64 \<Rightarrow> unit \<Rightarrow> (bytes result \<times> unit) option" where
  "demo_ext a b e = Some (Inr (seg (nat a) (nat (b - a)) demo_file), ())"

lemma demo_file_pages: "file_pages demo_pages ''42'' (unat (max 4 1 :: u64)) demo_file"
  by (simp add: file_pages_def demo_pages_def page_id_of_def max_def word_le_nat_alt)

lemma demo_ext_exact: "ext_exact demo_ext demo_file"
  by (auto simp: ext_exact_def demo_ext_def nat_diff_distrib' simp flip: of_nat_diff)

theorem read_through_exact_witness:
  "\<exists>s' e'. read_through_cache (local_ops (lru_foyer 1) (\<lambda>_. 7) (\<lambda>_. demo_io)) demo_ext ''42'' 4 9 3 9
     FillSync demo_manager () = Some (Inr [7, 8, 8, 8, 8, 9], s', e')"
proof -
  have len: "length demo_file = 9" by (simp add: demo_file_def)
  have plain: "plain_name (file_id pid)" if "demo_pages pid page" for pid page
    using that by (simp add: demo_pages_def plain_name_def)
  have "case read_through_cache (local_ops (lru_foyer 1) (\<lambda>_. 7) (\<lambda>_. demo_io)) demo_ext ''42'' 4
      (int (length demo_file)) (int 3) (int 9) FillSync demo_manager () of
      None \<Rightarrow> \<exists>a b e. demo_ext a b e = None
    | Some (res, s', _) \<Rightarrow> res = Inr (seg 3 (9 - 3) demo_file)
        \<or> (\<exists>err. res = Inl err \<and> (\<exists>a b e e'. demo_ext a b e = Some (Inl err, e')))"
    by (rule read_through_exact [OF lru_foyer_ok demo_create demo_env(4,5,6) cm_steps.refl demo_env(1) plain demo_file_pages demo_ext_exact]) (simp_all add: len)
  then show ?thesis
    by (auto simp: len demo_ext_def demo_file_def seg_def split: option.splits)
qed

end
