(* ===== verification/Metadata_Cache.thy ===== *)
theory Metadata_Cache
  imports Rust_Text Proto_Types
begin

text \<open>
  The client's metadata cache (\<^verbatim>\<open>src/src/metadata_cache.rs\<close>): a bounded, time-limited map from
  normalized paths to what the master last said about them.  The \<open>lru\<close> crate behind it is a
  parameter, a record of its operations with its documented behaviour as \<open>lru_ok\<close>; the clock is
  an argument of every operation that reads it, and the RPC that fills the cache is a function
  on the state of the master.  A path is a string of characters below U+0100.
\<close>

section \<open>Paths\<close>

lemma is_whitespace_code [code]:
  "is_whitespace c \<longleftrightarrow> (let i = int c in (9 \<le> i \<and> i \<le> 13) \<or> i = 32 \<or> i = 0x85 \<or> i = 0xA0 \<or> i = 0x1680
     \<or> (0x2000 \<le> i \<and> i \<le> 0x200A) \<or> i = 0x2028 \<or> i = 0x2029 \<or> i = 0x202F \<or> i = 0x205F \<or> i = 0x3000)"
  by (auto simp: is_whitespace_def Let_def)

definition trim_str :: "string \<Rightarrow> string" where
  "trim_str s = rev (dropWhile (\<lambda>c. is_whitespace (of_char c))
     (rev (dropWhile (\<lambda>c. is_whitespace (of_char c)) s)))"

text \<open>\<open>str::trim_end_matches\<close> and \<open>str::rfind\<close> for one character.\<close>

definition trim_end_matches :: "char \<Rightarrow> string \<Rightarrow> string" where
  "trim_end_matches c s = rev (dropWhile ((=) c) (rev s))"

definition rfind :: "char \<Rightarrow> string \<Rightarrow> nat option" where
  "rfind c s = (let r = length (takeWhile ((\<noteq>) c) (rev s))
     in if r = length s then None else Some (length s - r - 1))"

definition normalize_path :: "string \<Rightarrow> string" where
  "normalize_path path =
     (let trimmed = trim_str path
      in if trimmed = [] \<or> trimmed = ''/'' then ''/''
         else let stripped = trim_end_matches (CHR ''/'') trimmed
              in if stripped = [] then ''/''
                 else if starts_with ''/'' stripped then stripped
                 else CHR ''/'' # stripped)"

definition parent_path :: "string \<Rightarrow> string option" where
  "parent_path path =
     (let normalized = normalize_path path
      in if normalized = ''/'' then None
         else case rfind (CHR ''/'') normalized of
             None \<Rightarrow> None
           | Some last_slash \<Rightarrow> if last_slash = 0 then Some ''/'' else Some (take last_slash normalized))"

section \<open>The cache\<close>

datatype status_lookup = Miss | Present file_info | AbsentPath

datatype status_slot = SlotPresent file_info | SlotNotFound

record cached_item =
  ci_status :: "status_slot option"
  ci_listing :: "file_info list option"
  ci_inserted_at :: nat

text \<open>
  The operations of the crate: \<open>peek\<close> does not touch the recency order, \<open>get\<close> does;
  \<open>lru_update\<close> writes through \<open>get_mut\<close>; \<open>put\<close> of a new key may evict another.
\<close>

record 'c lru =
  lru_new :: "nat \<Rightarrow> 'c"
  lru_peek :: "'c \<Rightarrow> string \<rightharpoonup> cached_item"
  lru_get :: "string \<Rightarrow> 'c \<Rightarrow> cached_item option \<times> 'c"
  lru_update :: "string \<Rightarrow> (cached_item \<Rightarrow> cached_item) \<Rightarrow> 'c \<Rightarrow> 'c option"
  lru_put :: "string \<Rightarrow> cached_item \<Rightarrow> 'c \<Rightarrow> 'c"
  lru_pop :: "string \<Rightarrow> 'c \<Rightarrow> cached_item option \<times> 'c"
  lru_clear :: "'c \<Rightarrow> 'c"
  lru_len :: "'c \<Rightarrow> nat"

definition lru_ok :: "'c lru \<Rightarrow> bool" where
  "lru_ok L \<longleftrightarrow>
     (\<forall>n. lru_peek L (lru_new L n) = Map.empty)
   \<and> (\<forall>k c. fst (lru_get L k c) = lru_peek L c k \<and> lru_peek L (snd (lru_get L k c)) = lru_peek L c)
   \<and> (\<forall>k f c. lru_peek L c k = None \<longrightarrow> lru_update L k f c = None)
   \<and> (\<forall>k f c item. lru_peek L c k = Some item \<longrightarrow>
        (\<exists>c'. lru_update L k f c = Some c' \<and> lru_peek L c' = (lru_peek L c)(k \<mapsto> f item)))
   \<and> (\<forall>k item c. lru_peek L (lru_put L k item c) k = Some item
        \<and> (\<forall>q. q \<noteq> k \<longrightarrow> lru_peek L (lru_put L k item c) q \<in> {None, lru_peek L c q}))
   \<and> (\<forall>k c. fst (lru_pop L k c) = lru_peek L c k \<and> lru_peek L (snd (lru_pop L k c)) = (lru_peek L c)(k := None))
   \<and> (\<forall>c. lru_peek L (lru_clear L c) = Map.empty)"

record 'c metadata_cache =
  mc_lru :: 'c
  mc_hits :: u64
  mc_misses :: u64
  mc_expired :: u64
  mc_invalidations :: u64
  mc_negative_hits :: u64
  mc_ttl :: nat

definition mc_maybe_new :: "'c lru \<Rightarrow> nat \<Rightarrow> nat \<Rightarrow> 'c metadata_cache option" where
  "mc_maybe_new L ttl capacity =
     (if ttl = 0 then None
      else Some \<lparr>mc_lru = lru_new L (max capacity 1), mc_hits = 0, mc_misses = 0, mc_expired = 0,
        mc_invalidations = 0, mc_negative_hits = 0, mc_ttl = ttl\<rparr>)"

definition status_is_completed :: "file_info \<Rightarrow> bool" where
  "status_is_completed info = unwrap_or (fi_completed info) False"

definition bump_hit :: "'c metadata_cache \<Rightarrow> 'c metadata_cache" where
  "bump_hit mc = mc\<lparr>mc_hits := mc_hits mc + 1\<rparr>"

definition bump_miss :: "'c metadata_cache \<Rightarrow> 'c metadata_cache" where
  "bump_miss mc = mc\<lparr>mc_misses := mc_misses mc + 1\<rparr>"

definition retain_fresh :: "'c lru \<Rightarrow> nat \<Rightarrow> string \<Rightarrow> 'c metadata_cache \<Rightarrow> bool \<times> 'c metadata_cache" where
  "retain_fresh L now key mc =
     (case lru_peek L (mc_lru mc) key of
        None \<Rightarrow> (False, mc)
      | Some entry \<Rightarrow>
          if mc_ttl mc \<le> now - ci_inserted_at entry
          then (False, mc\<lparr>mc_lru := snd (lru_pop L key (mc_lru mc)), mc_expired := mc_expired mc + 1\<rparr>)
          else (True, mc))"

definition lookup_status :: "'c lru \<Rightarrow> nat \<Rightarrow> string \<Rightarrow> 'c metadata_cache \<Rightarrow> status_lookup \<times> 'c metadata_cache" where
  "lookup_status L now path mc =
     (let key = normalize_path path;
          (fresh, mc) = retain_fresh L now key mc
      in if \<not> fresh then (Miss, bump_miss mc)
         else let (entry, c) = lru_get L key (mc_lru mc);
                  mc = mc\<lparr>mc_lru := c\<rparr>
              in case Option.bind entry ci_status of
                  Some (SlotPresent info) \<Rightarrow>
                    (Present info, if status_is_completed info then bump_hit mc else bump_miss mc)
                | Some SlotNotFound \<Rightarrow>
                    (AbsentPath, (bump_hit mc)\<lparr>mc_negative_hits := mc_negative_hits mc + 1\<rparr>)
                | None \<Rightarrow> (Miss, bump_miss mc))"

definition get_listing ::
  "'c lru \<Rightarrow> nat \<Rightarrow> string \<Rightarrow> 'c metadata_cache \<Rightarrow> file_info list option \<times> 'c metadata_cache" where
  "get_listing L now path mc =
     (let key = normalize_path path;
          (fresh, mc) = retain_fresh L now key mc
      in if \<not> fresh then (None, bump_miss mc)
         else let (entry, c) = lru_get L key (mc_lru mc);
                  mc = mc\<lparr>mc_lru := c\<rparr>
              in case Option.bind entry ci_listing of
                  Some list \<Rightarrow> (Some list, bump_hit mc)
                | None \<Rightarrow> (None, bump_miss mc))"

definition put_status :: "'c lru \<Rightarrow> nat \<Rightarrow> string \<Rightarrow> status_slot \<Rightarrow> 'c metadata_cache \<Rightarrow> 'c metadata_cache" where
  "put_status L now path slot mc =
     (let key = normalize_path path
      in case lru_update L key (\<lambda>item. item\<lparr>ci_status := Some slot, ci_inserted_at := now\<rparr>) (mc_lru mc) of
          Some c \<Rightarrow> mc\<lparr>mc_lru := c\<rparr>
        | None \<Rightarrow> mc\<lparr>mc_lru := lru_put L key
            \<lparr>ci_status = Some slot, ci_listing = None, ci_inserted_at = now\<rparr> (mc_lru mc)\<rparr>)"

definition mc_insert :: "'c lru \<Rightarrow> nat \<Rightarrow> string \<Rightarrow> file_info \<Rightarrow> 'c metadata_cache \<Rightarrow> 'c metadata_cache" where
  "mc_insert L now path info = put_status L now path (SlotPresent info)"

definition mc_insert_not_found :: "'c lru \<Rightarrow> nat \<Rightarrow> string \<Rightarrow> 'c metadata_cache \<Rightarrow> 'c metadata_cache" where
  "mc_insert_not_found L now path = put_status L now path SlotNotFound"

definition mc_insert_listing ::
  "'c lru \<Rightarrow> nat \<Rightarrow> string \<Rightarrow> file_info list \<Rightarrow> 'c metadata_cache \<Rightarrow> 'c metadata_cache" where
  "mc_insert_listing L now path listing mc =
     (let key = normalize_path path
      in case lru_update L key (\<lambda>item. item\<lparr>ci_listing := Some listing, ci_inserted_at := now\<rparr>) (mc_lru mc) of
          Some c \<Rightarrow> mc\<lparr>mc_lru := c\<rparr>
        | None \<Rightarrow> mc\<lparr>mc_lru := lru_put L key
            \<lparr>ci_status = None, ci_listing = Some listing, ci_inserted_at = now\<rparr> (mc_lru mc)\<rparr>)"

definition mc_invalidate :: "'c lru \<Rightarrow> string \<Rightarrow> 'c metadata_cache \<Rightarrow> 'c metadata_cache" where
  "mc_invalidate L path mc =
     (case lru_pop L (normalize_path path) (mc_lru mc) of
        (Some _, c) \<Rightarrow> mc\<lparr>mc_lru := c, mc_invalidations := mc_invalidations mc + 1\<rparr>
      | (None, c) \<Rightarrow> mc\<lparr>mc_lru := c\<rparr>)"

definition mc_invalidate_with_parent :: "'c lru \<Rightarrow> string \<Rightarrow> 'c metadata_cache \<Rightarrow> 'c metadata_cache" where
  "mc_invalidate_with_parent L path mc =
     mc_invalidate L path
       (case parent_path path of Some parent \<Rightarrow> mc_invalidate L parent mc | None \<Rightarrow> mc)"

definition mc_clear :: "'c lru \<Rightarrow> 'c metadata_cache \<Rightarrow> 'c metadata_cache" where
  "mc_clear L mc = mc\<lparr>mc_lru := lru_clear L (mc_lru mc),
     mc_invalidations := mc_invalidations mc + word_of_nat (lru_len L (mc_lru mc))\<rparr>"

section \<open>Reading and writing around the cache\<close>

datatype load_metadata_type = LoadNever | LoadOnce | LoadAlways

definition should_skip_listing_cache :: "bool \<Rightarrow> load_metadata_type \<Rightarrow> bool \<Rightarrow> i64 \<Rightarrow> bool" where
  "should_skip_listing_cache recursive load_type load_metadata_only sync_interval_ms \<longleftrightarrow>
     recursive \<or> load_type = LoadAlways \<or> load_metadata_only \<or> sync_interval_ms = 0"

definition invalidate_on_success ::
  "'c lru \<Rightarrow> 'c metadata_cache option \<Rightarrow> string \<Rightarrow> 'a result \<Rightarrow> 'a result \<times> 'c metadata_cache option" where
  "invalidate_on_success L cache path result =
     (case result of
        Inl e \<Rightarrow> (Inl e, cache)
      | Inr v \<Rightarrow> (Inr v, map_option (mc_invalidate_with_parent L path) cache))"

definition invalidate_rename_on_success ::
  "'c lru \<Rightarrow> 'c metadata_cache option \<Rightarrow> string \<Rightarrow> string \<Rightarrow> 'a result \<Rightarrow> 'a result \<times> 'c metadata_cache option" where
  "invalidate_rename_on_success L cache src dst result =
     (case result of
        Inl e \<Rightarrow> (Inl e, cache)
      | Inr v \<Rightarrow> (Inr v, map_option
          (\<lambda>mc. mc_invalidate_with_parent L dst (mc_invalidate_with_parent L src mc)) cache))"

text \<open>The clock is read once for the lookup and once, after the RPC, for the insertion.\<close>

definition get_status_through_cache ::
  "'c lru \<Rightarrow> nat \<Rightarrow> nat \<Rightarrow> 'c metadata_cache option \<Rightarrow> string \<Rightarrow> i64 \<Rightarrow> ('m \<Rightarrow> file_info result \<times> 'm) \<Rightarrow> 'm
   \<Rightarrow> file_info result \<times> 'c metadata_cache option \<times> 'm" where
  "get_status_through_cache L now later cache path sync_interval_ms fetch m =
     (let (found, cache) =
            (case cache of
               None \<Rightarrow> (Miss, None)
             | Some mc \<Rightarrow> if sync_interval_ms \<noteq> 0 then apsnd Some (lookup_status L now path mc) else (Miss, Some mc));
          rpc = (case fetch m of
              (Inr info, m) \<Rightarrow> (Inr info, map_option (mc_insert L later path info) cache, m)
            | (Inl e, m) \<Rightarrow>
                (Inl e, if is_not_found e then map_option (mc_insert_not_found L later path) cache else cache, m))
      in case found of
          Present info \<Rightarrow> if status_is_completed info then (Inr info, cache, m) else rpc
        | AbsentPath \<Rightarrow> (Inl (ENotFound path), cache, m)
        | Miss \<Rightarrow> rpc)"

definition list_status_through_cache ::
  "'c lru \<Rightarrow> nat \<Rightarrow> nat \<Rightarrow> 'c metadata_cache option \<Rightarrow> string \<Rightarrow> bool \<Rightarrow> ('m \<Rightarrow> file_info list result \<times> 'm) \<Rightarrow> 'm
   \<Rightarrow> file_info list result \<times> 'c metadata_cache option \<times> 'm" where
  "list_status_through_cache L now later cache path skip fetch m =
     (let (found, cache) =
            (case cache of
               None \<Rightarrow> (None, None)
             | Some mc \<Rightarrow> if \<not> skip then apsnd Some (get_listing L now path mc) else (None, Some mc))
      in case found of
          Some list \<Rightarrow> (Inr list, cache, m)
        | None \<Rightarrow>
            (case fetch m of
               (Inl e, m) \<Rightarrow> (Inl e, cache, m)
             | (Inr list, m) \<Rightarrow>
                 (Inr list, if \<not> skip then map_option (mc_insert_listing L later path list) cache else cache, m)))"

section \<open>Normal paths\<close>

lemma trim_end_matches_last: "trim_end_matches c s \<noteq> [] \<Longrightarrow> last (trim_end_matches c s) \<noteq> c"
  using hd_dropWhile [of "(=) c" "rev s"] by (auto simp: trim_end_matches_def last_rev)

lemma trim_end_matches_id: "s = [] \<or> last s \<noteq> c \<Longrightarrow> trim_end_matches c s = s"
  by (cases s rule: rev_cases) (auto simp: trim_end_matches_def)

lemma trim_end_matches_append: "trim_end_matches c (s @ replicate n c) = trim_end_matches c s"
  by (simp add: trim_end_matches_def dropWhile_append)

lemma starts_with_slash: "starts_with ''/'' s \<longleftrightarrow> s \<noteq> [] \<and> hd s = CHR ''/''"
  by (cases s) auto

lemma trim_str_id:
  "s \<noteq> [] \<Longrightarrow> \<not> is_whitespace (of_char (hd s)) \<Longrightarrow> \<not> is_whitespace (of_char (last s)) \<Longrightarrow> trim_str s = s"
proof -
  assume s: "s \<noteq> []" "\<not> is_whitespace (of_char (hd s))" "\<not> is_whitespace (of_char (last s))"
  have "dropWhile (\<lambda>c. is_whitespace (of_char c)) s = s" using s by (cases s) auto
  moreover have "dropWhile (\<lambda>c. is_whitespace (of_char c)) (rev s) = rev s"
    using s by (cases s rule: rev_cases) auto
  ultimately show "trim_str s = s" by (simp add: trim_str_def)
qed

text \<open>The result is the root, or starts with a slash and ends with another character.\<close>

lemma normalize_path_form:
  "normalize_path path = ''/''
   \<or> (hd (normalize_path path) = CHR ''/'' \<and> last (normalize_path path) \<noteq> CHR ''/''
      \<and> 2 \<le> length (normalize_path path))"
proof -
  let ?s = "trim_end_matches (CHR ''/'') (trim_str path)"
  have "?s \<noteq> [] \<Longrightarrow> last ?s \<noteq> CHR ''/''" by (rule trim_end_matches_last)
  then show ?thesis
    by (cases ?s rule: rev_cases; cases "butlast ?s")
      (auto simp: normalize_path_def Let_def starts_with_slash)
qed

lemma normalize_path_nonempty [simp]: "normalize_path path \<noteq> []"
  using normalize_path_form [of path] by auto

lemma hd_normalize_path: "hd (normalize_path path) = CHR ''/''"
  using normalize_path_form [of path] by auto

lemma normalize_path_id:
  assumes "hd p = CHR ''/''" "last p \<noteq> CHR ''/''" "\<not> is_whitespace (of_char (last p))" "p \<noteq> []"
  shows "normalize_path p = p"
proof -
  have "trim_str p = p" using assms by (intro trim_str_id) (auto simp: is_whitespace_def)
  then show ?thesis
    using assms by (auto simp: normalize_path_def Let_def trim_end_matches_id starts_with_slash)
qed

text \<open>Trailing slashes do not make another key.\<close>

lemma normalize_path_slashes:
  assumes "hd p = CHR ''/''" "last p \<noteq> CHR ''/''" "\<not> is_whitespace (of_char (last p))" "p \<noteq> []"
  shows "normalize_path (p @ replicate n (CHR ''/'')) = p"
proof (cases n)
  case 0
  then show ?thesis using normalize_path_id [OF assms] by simp
next
  case (Suc m)
  let ?q = "p @ replicate n (CHR ''/'')"
  have "hd ?q = CHR ''/''" "last ?q = CHR ''/''" "?q \<noteq> []" using assms(1,4) Suc by auto
  then have "trim_str ?q = ?q" by (intro trim_str_id) (auto simp: is_whitespace_def)
  moreover have "trim_end_matches (CHR ''/'') ?q = p"
    using trim_end_matches_append trim_end_matches_id [of p "CHR ''/''"] assms(2) by metis
  moreover have "?q \<noteq> ''/''" using assms(1,2,4) by (cases p; cases "tl p") auto
  ultimately show ?thesis
    using assms by (auto simp: normalize_path_def Let_def starts_with_slash)
qed

lemma normalize_path_root [simp]: "normalize_path ''/'' = ''/''" by code_simp

section \<open>What the cache holds\<close>

lemma lru_okD:
  assumes "lru_ok L"
  shows "lru_peek L (lru_new L n) = Map.empty"
    and "fst (lru_get L k c) = lru_peek L c k"
    and "lru_peek L (snd (lru_get L k c)) = lru_peek L c"
    and "lru_peek L c k = None \<Longrightarrow> lru_update L k f c = None"
    and "lru_peek L c k = Some item \<Longrightarrow>
      \<exists>c'. lru_update L k f c = Some c' \<and> lru_peek L c' = (lru_peek L c)(k \<mapsto> f item)"
    and "lru_peek L (lru_put L k item c) k = Some item"
    and "q \<noteq> k \<Longrightarrow> lru_peek L (lru_put L k item c) q \<in> {None, lru_peek L c q}"
    and "fst (lru_pop L k c) = lru_peek L c k"
    and "lru_peek L (snd (lru_pop L k c)) = (lru_peek L c)(k := None)"
    and "lru_peek L (lru_clear L c) = Map.empty"
  using assms unfolding lru_ok_def by blast+

definition held :: "'c lru \<Rightarrow> 'c metadata_cache \<Rightarrow> string \<rightharpoonup> cached_item" where
  "held L mc = lru_peek L (mc_lru mc)"

lemma held_bump [simp]:
  "held L (bump_hit mc) = held L mc" "held L (bump_miss mc) = held L mc"
  "held L (mc\<lparr>mc_negative_hits := x\<rparr>) = held L mc"
  "mc_ttl (bump_hit mc) = mc_ttl mc" "mc_ttl (bump_miss mc) = mc_ttl mc"
  by (simp_all add: held_def bump_hit_def bump_miss_def)

text \<open>The live entry of a key: there and younger than the time to live.\<close>

definition live :: "'c lru \<Rightarrow> nat \<Rightarrow> 'c metadata_cache \<Rightarrow> string \<rightharpoonup> cached_item" where
  "live L now mc key = (case held L mc key of
     Some item \<Rightarrow> if now < ci_inserted_at item + mc_ttl mc \<and> mc_ttl mc \<noteq> 0 then Some item else None | None \<Rightarrow> None)"

lemma retain_fresh_spec:
  assumes "lru_ok L"
  shows "fst (retain_fresh L now key mc) \<longleftrightarrow> live L now mc key \<noteq> None"
    and "held L (snd (retain_fresh L now key mc)) = (held L mc)(key := live L now mc key)"
    and "mc_ttl (snd (retain_fresh L now key mc)) = mc_ttl mc"
proof -
  have "mc_ttl mc \<le> now - t \<longleftrightarrow> \<not> (now < t + mc_ttl mc \<and> mc_ttl mc \<noteq> 0)" for t by auto
  then show "fst (retain_fresh L now key mc) \<longleftrightarrow> live L now mc key \<noteq> None"
    and "held L (snd (retain_fresh L now key mc)) = (held L mc)(key := live L now mc key)"
    and "mc_ttl (snd (retain_fresh L now key mc)) = mc_ttl mc"
    using lru_okD(9) [OF assms]
    by (auto simp: retain_fresh_def live_def held_def fun_eq_iff split: option.splits)
qed

definition lookup_of :: "cached_item option \<Rightarrow> status_lookup" where
  "lookup_of entry = (case Option.bind entry ci_status of
     Some (SlotPresent info) \<Rightarrow> Present info | Some SlotNotFound \<Rightarrow> AbsentPath | None \<Rightarrow> Miss)"

lemma lookup_status_spec:
  assumes "lru_ok L"
  shows "fst (lookup_status L now path mc) = lookup_of (live L now mc (normalize_path path))"
    and "held L (snd (lookup_status L now path mc))
      = (held L mc)(normalize_path path := live L now mc (normalize_path path))"
    and "mc_ttl (snd (lookup_status L now path mc)) = mc_ttl mc"
proof -
  let ?k = "normalize_path path"
  obtain b mc' where r: "retain_fresh L now ?k mc = (b, mc')" by fastforce
  have b: "b \<longleftrightarrow> live L now mc ?k \<noteq> None" and h: "held L mc' = (held L mc)(?k := live L now mc ?k)"
    and t: "mc_ttl mc' = mc_ttl mc"
    using retain_fresh_spec [OF assms, of now ?k mc] r by auto
  obtain e c where g: "lru_get L ?k (mc_lru mc') = (e, c)" by fastforce
  have e: "e = live L now mc ?k" and c: "lru_peek L c = lru_peek L (mc_lru mc')"
    using lru_okD(2,3) [OF assms, of ?k "mc_lru mc'"] g h by (auto simp: held_def)
  have "held L (mc'\<lparr>mc_lru := c\<rparr>) = held L mc'" using c by (simp add: held_def)
  note facts = r b h t g e this
  show "fst (lookup_status L now path mc) = lookup_of (live L now mc ?k)"
    using facts by (auto simp: lookup_status_def Let_def lookup_of_def split: option.splits status_slot.splits)
  show "held L (snd (lookup_status L now path mc)) = (held L mc)(?k := live L now mc ?k)"
    using facts by (auto simp: lookup_status_def Let_def split: option.splits status_slot.splits)
  show "mc_ttl (snd (lookup_status L now path mc)) = mc_ttl mc"
    using facts by (auto simp: lookup_status_def Let_def split: option.splits status_slot.splits)
qed

lemma get_listing_spec:
  assumes "lru_ok L"
  shows "fst (get_listing L now path mc) = Option.bind (live L now mc (normalize_path path)) ci_listing"
    and "held L (snd (get_listing L now path mc))
      = (held L mc)(normalize_path path := live L now mc (normalize_path path))"
    and "mc_ttl (snd (get_listing L now path mc)) = mc_ttl mc"
proof -
  let ?k = "normalize_path path"
  obtain b mc' where r: "retain_fresh L now ?k mc = (b, mc')" by fastforce
  have b: "b \<longleftrightarrow> live L now mc ?k \<noteq> None" and h: "held L mc' = (held L mc)(?k := live L now mc ?k)"
    and t: "mc_ttl mc' = mc_ttl mc"
    using retain_fresh_spec [OF assms, of now ?k mc] r by auto
  obtain e c where g: "lru_get L ?k (mc_lru mc') = (e, c)" by fastforce
  have e: "e = live L now mc ?k" and c: "lru_peek L c = lru_peek L (mc_lru mc')"
    using lru_okD(2,3) [OF assms, of ?k "mc_lru mc'"] g h by (auto simp: held_def)
  have "held L (mc'\<lparr>mc_lru := c\<rparr>) = held L mc'" using c by (simp add: held_def)
  note facts = r b h t g e this
  show "fst (get_listing L now path mc) = Option.bind (live L now mc ?k) ci_listing"
    using facts by (auto simp: get_listing_def Let_def split: option.splits)
  show "held L (snd (get_listing L now path mc)) = (held L mc)(?k := live L now mc ?k)"
    using facts by (auto simp: get_listing_def Let_def split: option.splits)
  show "mc_ttl (snd (get_listing L now path mc)) = mc_ttl mc"
    using facts by (auto simp: get_listing_def Let_def split: option.splits)
qed

lemma mc_invalidate_held:
  "lru_ok L \<Longrightarrow> held L (mc_invalidate L path mc) = (held L mc)(normalize_path path := None)"
  "mc_ttl (mc_invalidate L path mc) = mc_ttl mc"
  using lru_okD(9) [of L "normalize_path path" "mc_lru mc"]
  by (auto simp: mc_invalidate_def held_def split: prod.splits option.splits)

lemma mc_invalidate_with_parent_held:
  "lru_ok L \<Longrightarrow> held L (mc_invalidate_with_parent L path mc)
    = (\<lambda>k. if k = normalize_path path \<or> (\<exists>p. parent_path path = Some p \<and> k = normalize_path p) then None
           else held L mc k)"
  "mc_ttl (mc_invalidate_with_parent L path mc) = mc_ttl mc"
  by (auto simp: mc_invalidate_with_parent_def mc_invalidate_held fun_eq_iff split: option.splits)

lemma put_status_held:
  assumes "lru_ok L"
  shows "\<exists>ls \<in> {None, Option.bind (held L mc (normalize_path path)) ci_listing}.
      held L (put_status L now path slot mc) (normalize_path path)
        = Some \<lparr>ci_status = Some slot, ci_listing = ls, ci_inserted_at = now\<rparr>" (is ?G1)
    and "q \<noteq> normalize_path path \<Longrightarrow> held L (put_status L now path slot mc) q \<in> {None, held L mc q}" (is "_ \<Longrightarrow> ?G2")
    and "mc_ttl (put_status L now path slot mc) = mc_ttl mc" (is ?G3)
proof -
  let ?k = "normalize_path path"
  let ?f = "\<lambda>item. item\<lparr>ci_status := Some slot, ci_inserted_at := now\<rparr>"
  have "?G1 \<and> (q \<noteq> ?k \<longrightarrow> ?G2) \<and> ?G3"
  proof (cases "lru_peek L (mc_lru mc) ?k")
    case None
    note u = lru_okD(4) [OF assms None, of ?f]
    show ?thesis using None lru_okD(6,7) [OF assms] by (simp add: put_status_def Let_def held_def u)
  next
    case (Some item)
    then obtain c where "lru_update L ?k ?f (mc_lru mc) = Some c"
      and "lru_peek L c = (lru_peek L (mc_lru mc))(?k \<mapsto> ?f item)"
      using lru_okD(5) [OF assms Some, of ?f] by blast
    then show ?thesis using Some by (cases item) (simp add: put_status_def Let_def held_def)
  qed
  then show ?G1 and "q \<noteq> ?k \<Longrightarrow> ?G2" and ?G3 by blast+
qed

lemma mc_insert_listing_held:
  assumes "lru_ok L"
  shows "\<exists>st \<in> {None, Option.bind (held L mc (normalize_path path)) ci_status}.
      held L (mc_insert_listing L now path list mc) (normalize_path path)
        = Some \<lparr>ci_status = st, ci_listing = Some list, ci_inserted_at = now\<rparr>" (is ?G1)
    and "q \<noteq> normalize_path path \<Longrightarrow> held L (mc_insert_listing L now path list mc) q \<in> {None, held L mc q}" (is "_ \<Longrightarrow> ?G2")
    and "mc_ttl (mc_insert_listing L now path list mc) = mc_ttl mc" (is ?G3)
proof -
  let ?k = "normalize_path path"
  let ?f = "\<lambda>item. item\<lparr>ci_listing := Some list, ci_inserted_at := now\<rparr>"
  have "?G1 \<and> (q \<noteq> ?k \<longrightarrow> ?G2) \<and> ?G3"
  proof (cases "lru_peek L (mc_lru mc) ?k")
    case None
    note u = lru_okD(4) [OF assms None, of ?f]
    show ?thesis using None lru_okD(6,7) [OF assms] by (simp add: mc_insert_listing_def Let_def held_def u)
  next
    case (Some item)
    then obtain c where "lru_update L ?k ?f (mc_lru mc) = Some c"
      and "lru_peek L c = (lru_peek L (mc_lru mc))(?k \<mapsto> ?f item)"
      using lru_okD(5) [OF assms Some, of ?f] by blast
    then show ?thesis using Some by (cases item) (simp add: mc_insert_listing_def Let_def held_def)
  qed
  then show ?G1 and "q \<noteq> ?k \<Longrightarrow> ?G2" and ?G3 by blast+
qed

section \<open>What the master said\<close>

text \<open>
  The specification reads a log of what the client heard from the master and of the paths it
  dropped, newest first.  A listing fetched with the cache bypassed is in the log too, marked.  A
  run is a sequence of the client's operations, each with the clock before and after its RPC and
  with the answer the RPC gives if it is made.
\<close>

datatype meta_event =
    SaidStatus string status_slot
  | SaidListing string bool "file_info list"
  | Dropped "string list"
  | DroppedAll

type_synonym meta_log = "(nat \<times> meta_event) list"

fun drops :: "string \<Rightarrow> meta_event \<Rightarrow> bool" where
  "drops k (Dropped ks) \<longleftrightarrow> k \<in> set ks"
| "drops k DroppedAll \<longleftrightarrow> True"
| "drops k _ \<longleftrightarrow> False"

fun said_status :: "string \<Rightarrow> meta_event \<Rightarrow> status_slot option" where
  "said_status k (SaidStatus q slot) = (if q = k then Some slot else None)"
| "said_status k _ = None"

fun said_listing :: "string \<Rightarrow> meta_event \<Rightarrow> file_info list option" where
  "said_listing k (SaidListing q bypassed list) = (if q = k \<and> \<not> bypassed then Some list else None)"
| "said_listing k _ = None"

text \<open>
  The events since a path was last dropped; the last status and the last listing that was not
  bypassed among them; and the time of the last of either kind.
\<close>

definition since :: "string \<Rightarrow> meta_log \<Rightarrow> meta_log" where
  "since k log = takeWhile (\<lambda>e. \<not> drops k (snd e)) log"

definition newest :: "('a \<Rightarrow> 'b option) \<Rightarrow> 'a list \<Rightarrow> 'b option" where
  "newest f xs = (case List.map_filter f xs of [] \<Rightarrow> None | x # _ \<Rightarrow> Some x)"

definition last_status :: "string \<Rightarrow> meta_log \<Rightarrow> status_slot option" where
  "last_status k log = newest (\<lambda>e. said_status k (snd e)) (since k log)"

definition last_listing :: "string \<Rightarrow> meta_log \<Rightarrow> file_info list option" where
  "last_listing k log = newest (\<lambda>e. said_listing k (snd e)) (since k log)"

definition last_heard :: "string \<Rightarrow> meta_log \<Rightarrow> nat option" where
  "last_heard k log =
     newest (\<lambda>(t, ev). if said_status k ev = None \<and> said_listing k ev = None then None else Some t) (since k log)"

lemma newest_simps [simp]:
  "newest f [] = None" "newest f (x # xs) = (case f x of Some y \<Rightarrow> Some y | None \<Rightarrow> newest f xs)"
  by (simp_all add: newest_def List.map_filter_def split: option.splits)

lemma log_simps [simp]:
  "last_status k ((t, ev) # log) = (if drops k ev then None else case said_status k ev of
     Some slot \<Rightarrow> Some slot | None \<Rightarrow> last_status k log)"
  "last_listing k ((t, ev) # log) = (if drops k ev then None else case said_listing k ev of
     Some list \<Rightarrow> Some list | None \<Rightarrow> last_listing k log)"
  "last_heard k ((t, ev) # log) = (if drops k ev then None
     else if said_status k ev = None \<and> said_listing k ev = None then last_heard k log else Some t)"
  "last_status k [] = None" "last_listing k [] = None" "last_heard k [] = None"
  by (simp_all add: last_status_def last_listing_def last_heard_def since_def split: option.splits)

definition hear_status :: "string \<Rightarrow> file_info result \<Rightarrow> nat \<Rightarrow> meta_log \<Rightarrow> meta_log" where
  "hear_status path answer t log = (case answer of
     Inr info \<Rightarrow> (t, SaidStatus (normalize_path path) (SlotPresent info)) # log
   | Inl e \<Rightarrow> if is_not_found e then (t, SaidStatus (normalize_path path) SlotNotFound) # log else log)"

definition hear_listing :: "string \<Rightarrow> bool \<Rightarrow> file_info list result \<Rightarrow> nat \<Rightarrow> meta_log \<Rightarrow> meta_log" where
  "hear_listing path bypassed answer t log = (case answer of
     Inr list \<Rightarrow> (t, SaidListing (normalize_path path) bypassed list) # log
   | Inl e \<Rightarrow> log)"

definition drop_path :: "string \<Rightarrow> nat \<Rightarrow> meta_log \<Rightarrow> meta_log" where
  "drop_path path t log =
     (t, Dropped (normalize_path path # (case parent_path path of Some q \<Rightarrow> [normalize_path q] | None \<Rightarrow> []))) # log"

datatype meta_op =
    GetStatus string i64 "file_info result"
  | ListStatus string bool "file_info list result"
  | Mutate string "unit result"
  | Rename string string "unit result"
  | ClearAll

fun meta_step ::
  "'c lru \<Rightarrow> nat \<times> nat \<times> meta_op \<Rightarrow> 'c metadata_cache option \<times> meta_log \<Rightarrow> 'c metadata_cache option \<times> meta_log" where
  "meta_step L (now, later, GetStatus path sync answer) (cache, log) =
     (case get_status_through_cache L now later cache path sync (\<lambda>_. (answer, True)) False of
        (_, cache, called) \<Rightarrow> (cache, if called then hear_status path answer later log else log))"
| "meta_step L (now, later, ListStatus path skip answer) (cache, log) =
     (case list_status_through_cache L now later cache path skip (\<lambda>_. (answer, True)) False of
        (_, cache, called) \<Rightarrow> (cache, if called then hear_listing path skip answer later log else log))"
| "meta_step L (_, later, Mutate path answer) (cache, log) =
     (snd (invalidate_on_success L cache path answer),
      case answer of Inr _ \<Rightarrow> drop_path path later log | Inl _ \<Rightarrow> log)"
| "meta_step L (_, later, Rename src dst answer) (cache, log) =
     (snd (invalidate_rename_on_success L cache src dst answer),
      case answer of Inr _ \<Rightarrow> drop_path dst later (drop_path src later log) | Inl _ \<Rightarrow> log)"
| "meta_step L (_, later, ClearAll) (cache, log) = (map_option (mc_clear L) cache, (later, DroppedAll) # log)"

definition meta_run ::
  "'c lru \<Rightarrow> (nat \<times> nat \<times> meta_op) list \<Rightarrow> 'c metadata_cache option \<times> meta_log
   \<Rightarrow> 'c metadata_cache option \<times> meta_log" where
  "meta_run L ops s = fold (meta_step L) ops s"

text \<open>Whatever is held was said, and its time stamp is that of the last event about the path.\<close>

definition item_of :: "string \<Rightarrow> meta_log \<Rightarrow> cached_item \<Rightarrow> bool" where
  "item_of k log item \<longleftrightarrow> ci_status item \<in> {None, last_status k log} \<and> ci_listing item \<in> {None, last_listing k log}
     \<and> last_heard k log = Some (ci_inserted_at item)"

definition knows :: "'c lru \<Rightarrow> nat \<Rightarrow> meta_log \<Rightarrow> 'c metadata_cache \<Rightarrow> bool" where
  "knows L ttl log mc \<longleftrightarrow> mc_ttl mc = ttl \<and> (\<forall>k item. held L mc k = Some item \<longrightarrow> item_of k log item)"

lemma knowsD:
  assumes "knows L ttl log mc"
  shows "mc_ttl mc = ttl" and "held L mc k = Some item \<Longrightarrow> item_of k log item"
  using assms by (auto simp: knows_def)

lemma knows_less:
  assumes "knows L ttl log mc" "mc_ttl mc' = mc_ttl mc" "\<And>k. held L mc' k \<in> {None, held L mc k}"
  shows "knows L ttl log mc'"
  unfolding knows_def
proof (intro conjI allI impI)
  fix k item assume "held L mc' k = Some item"
  then have "held L mc k = Some item" using assms(3) [of k] by auto
  then show "item_of k log item" by (rule knowsD(2) [OF assms(1)])
qed (use assms knowsD(1) in auto)

lemma live_held: "live L now mc k \<in> {None, held L mc k}"
  by (auto simp: live_def split: option.splits)

lemma knows_lookup:
  assumes "lru_ok L" "knows L ttl log mc"
  shows "knows L ttl log (snd (lookup_status L now path mc))"
    and "knows L ttl log (snd (get_listing L now path mc))"
  using live_held [of L now mc "normalize_path path"]
  by (auto intro!: knows_less [OF assms(2)] simp: lookup_status_spec [OF assms(1)] get_listing_spec [OF assms(1)]
      split: if_splits)

lemma knows_put:
  assumes "lru_ok L" "knows L ttl log mc"
  shows "knows L ttl ((t, SaidStatus (normalize_path path) slot) # log) (put_status L t path slot mc)"
  unfolding knows_def
proof (intro conjI allI impI)
  let ?k = "normalize_path path"
  show "mc_ttl (put_status L t path slot mc) = ttl"
    using put_status_held(3) [OF assms(1)] knowsD(1) [OF assms(2)] by simp
  fix k item assume item: "held L (put_status L t path slot mc) k = Some item"
  show "item_of k ((t, SaidStatus ?k slot) # log) item"
  proof (cases "k = ?k")
    case True
    obtain ls where ls: "ls \<in> {None, Option.bind (held L mc ?k) ci_listing}"
      and eq: "item = \<lparr>ci_status = Some slot, ci_listing = ls, ci_inserted_at = t\<rparr>"
      using put_status_held(1) [OF assms(1), of mc path t slot] item True by auto
    then have "ls \<in> {None, last_listing ?k log}"
      using knowsD(2) [OF assms(2), of ?k] by (cases "held L mc ?k") (auto simp: item_of_def)
    then show ?thesis using True eq by (auto simp: item_of_def)
  next
    case False
    then have "held L mc k = Some item" using put_status_held(2) [OF assms(1) False, where now = t and slot = slot and mc = mc] item by simp
    then show ?thesis using knowsD(2) [OF assms(2)] False by (auto simp: item_of_def)
  qed
qed

lemma knows_insert_listing:
  assumes "lru_ok L" "knows L ttl log mc"
  shows "knows L ttl ((t, SaidListing (normalize_path path) False list) # log) (mc_insert_listing L t path list mc)"
  unfolding knows_def
proof (intro conjI allI impI)
  let ?k = "normalize_path path"
  show "mc_ttl (mc_insert_listing L t path list mc) = ttl"
    using mc_insert_listing_held(3) [OF assms(1)] knowsD(1) [OF assms(2)] by simp
  fix k item assume item: "held L (mc_insert_listing L t path list mc) k = Some item"
  show "item_of k ((t, SaidListing ?k False list) # log) item"
  proof (cases "k = ?k")
    case True
    obtain st where st: "st \<in> {None, Option.bind (held L mc ?k) ci_status}"
      and eq: "item = \<lparr>ci_status = st, ci_listing = Some list, ci_inserted_at = t\<rparr>"
      using mc_insert_listing_held(1) [OF assms(1), of mc path t list] item True by auto
    then have "st \<in> {None, last_status ?k log}"
      using knowsD(2) [OF assms(2), of ?k] by (cases "held L mc ?k") (auto simp: item_of_def)
    then show ?thesis using True eq by (auto simp: item_of_def)
  next
    case False
    then have "held L mc k = Some item" using mc_insert_listing_held(2) [OF assms(1) False, where now = t and list = list and mc = mc] item by simp
    then show ?thesis using knowsD(2) [OF assms(2)] False by (auto simp: item_of_def)
  qed
qed

lemma knows_bypassed: "knows L ttl log mc \<Longrightarrow> knows L ttl ((t, SaidListing k True list) # log) mc"
  by (auto simp: knows_def item_of_def)

lemma knows_drop:
  assumes "lru_ok L" "knows L ttl log mc"
  shows "knows L ttl (drop_path path t log) (mc_invalidate_with_parent L path mc)"
  using knowsD [OF assms(2)]
  by (cases "parent_path path") (auto simp: knows_def item_of_def drop_path_def
      mc_invalidate_with_parent_held(1) [OF assms(1)] mc_invalidate_with_parent_held(2) split: if_splits)

section \<open>Hits and misses\<close>

text \<open>What a cached slot answers, and whether it may answer at all: an incomplete file may not.\<close>

definition slot_result :: "string \<Rightarrow> status_slot \<Rightarrow> file_info result" where
  "slot_result path slot = (case slot of SlotPresent info \<Rightarrow> Inr info | SlotNotFound \<Rightarrow> Inl (ENotFound path))"

definition servable :: "status_slot \<Rightarrow> bool" where
  "servable slot \<longleftrightarrow> (case slot of SlotPresent info \<Rightarrow> status_is_completed info | SlotNotFound \<Rightarrow> True)"

definition cached_answer :: "'c lru \<Rightarrow> nat \<Rightarrow> 'c metadata_cache \<Rightarrow> string \<Rightarrow> i64 \<Rightarrow> status_slot option" where
  "cached_answer L now mc path sync =
     (if sync = 0 then None
      else case Option.bind (live L now mc (normalize_path path)) ci_status of
          Some slot \<Rightarrow> if servable slot then Some slot else None
        | None \<Rightarrow> None)"

definition after_lookup :: "'c lru \<Rightarrow> nat \<Rightarrow> 'c metadata_cache \<Rightarrow> string \<Rightarrow> i64 \<Rightarrow> 'c metadata_cache" where
  "after_lookup L now mc path sync = (if sync = 0 then mc else snd (lookup_status L now path mc))"

definition record_answer ::
  "'c lru \<Rightarrow> nat \<Rightarrow> string \<Rightarrow> file_info result \<Rightarrow> 'c metadata_cache \<Rightarrow> 'c metadata_cache" where
  "record_answer L later path answer mc = (case answer of
     Inr info \<Rightarrow> put_status L later path (SlotPresent info) mc
   | Inl e \<Rightarrow> if is_not_found e then put_status L later path SlotNotFound mc else mc)"

lemma get_status_through_cache_eq:
  assumes "lru_ok L"
  shows "get_status_through_cache L now later (Some mc) path sync fetch m =
     (case cached_answer L now mc path sync of
        Some slot \<Rightarrow> (slot_result path slot, Some (after_lookup L now mc path sync), m)
      | None \<Rightarrow> (fst (fetch m), Some (record_answer L later path (fst (fetch m)) (after_lookup L now mc path sync)),
          snd (fetch m)))"
proof -
  have "fst (lookup_status L now path mc) = lookup_of (live L now mc (normalize_path path))"
    by (rule lookup_status_spec(1) [OF assms])
  then show ?thesis
    by (cases "lookup_status L now path mc"; cases "fetch m"; cases "fst (fetch m)";
        cases "Option.bind (live L now mc (normalize_path path)) ci_status")
      (auto simp: get_status_through_cache_def cached_answer_def after_lookup_def record_answer_def slot_result_def
        servable_def lookup_of_def mc_insert_def mc_insert_not_found_def split: status_slot.splits)
qed

definition after_get_listing :: "'c lru \<Rightarrow> nat \<Rightarrow> 'c metadata_cache \<Rightarrow> string \<Rightarrow> bool \<Rightarrow> 'c metadata_cache" where
  "after_get_listing L now mc path skip = (if skip then mc else snd (get_listing L now path mc))"

definition cached_listing :: "'c lru \<Rightarrow> nat \<Rightarrow> 'c metadata_cache \<Rightarrow> string \<Rightarrow> bool \<Rightarrow> file_info list option" where
  "cached_listing L now mc path skip =
     (if skip then None else Option.bind (live L now mc (normalize_path path)) ci_listing)"

lemma list_status_through_cache_eq:
  assumes "lru_ok L"
  shows "list_status_through_cache L now later (Some mc) path skip fetch m =
     (case cached_listing L now mc path skip of
        Some list \<Rightarrow> (Inr list, Some (after_get_listing L now mc path skip), m)
      | None \<Rightarrow> (fst (fetch m),
          Some (case fst (fetch m) of
              Inr list \<Rightarrow> if skip then after_get_listing L now mc path skip
                else mc_insert_listing L later path list (after_get_listing L now mc path skip)
            | Inl e \<Rightarrow> after_get_listing L now mc path skip),
          snd (fetch m)))"
proof -
  have "fst (get_listing L now path mc) = Option.bind (live L now mc (normalize_path path)) ci_listing"
    by (rule get_listing_spec(1) [OF assms])
  then show ?thesis
    by (cases "get_listing L now path mc"; cases "fetch m"; cases "fst (fetch m)";
        cases "Option.bind (live L now mc (normalize_path path)) ci_listing")
      (auto simp: list_status_through_cache_def cached_listing_def after_get_listing_def)
qed

section \<open>Runs of the cache\<close>

definition knows_opt :: "'c lru \<Rightarrow> nat \<Rightarrow> 'c metadata_cache option \<times> meta_log \<Rightarrow> bool" where
  "knows_opt L ttl s \<longleftrightarrow> (case fst s of None \<Rightarrow> False | Some mc \<Rightarrow> knows L ttl (snd s) mc)"

lemma knows_record:
  "lru_ok L \<Longrightarrow> knows L ttl log mc \<Longrightarrow> knows L ttl (hear_status path answer t log) (record_answer L t path answer mc)"
  by (auto simp: hear_status_def record_answer_def knows_put split: sum.splits)

lemma meta_step_knows:
  assumes "lru_ok L" "knows_opt L ttl (cache, log)"
  shows "knows_opt L ttl (meta_step L (now, later, op) (cache, log))"
proof -
  obtain mc where c: "cache = Some mc" and k: "knows L ttl log mc"
    using assms(2) by (auto simp: knows_opt_def split: option.splits)
  have lk: "knows L ttl log (after_lookup L now mc path sync)" for path sync
    using knows_lookup(1) [OF assms(1) k] k by (simp add: after_lookup_def)
  have gl: "knows L ttl log (after_get_listing L now mc path skip)" for path skip
    using knows_lookup(2) [OF assms(1) k] k by (simp add: after_get_listing_def)
  show ?thesis
  proof (cases op)
    case (GetStatus path sync answer)
    then show ?thesis
      using lk knows_record [OF assms(1) lk]
      by (auto simp: c get_status_through_cache_eq [OF assms(1)] knows_opt_def split: option.splits)
  next
    case (ListStatus path skip answer)
    then show ?thesis
      using gl knows_insert_listing [OF assms(1) gl] knows_bypassed [OF gl]
      by (auto simp: c list_status_through_cache_eq [OF assms(1)] knows_opt_def hear_listing_def
          split: option.splits sum.splits)
  next
    case (Mutate path answer)
    then show ?thesis
      using k knows_drop [OF assms(1) k]
      by (auto simp: c invalidate_on_success_def knows_opt_def split: sum.splits)
  next
    case (Rename src dst answer)
    then show ?thesis
      using k knows_drop [OF assms(1) knows_drop [OF assms(1) k]]
      by (auto simp: c invalidate_rename_on_success_def knows_opt_def split: sum.splits)
  next
    case ClearAll
    then show ?thesis
      using knowsD(1) [OF k] lru_okD(10) [OF assms(1)]
      by (simp add: c knows_opt_def knows_def mc_clear_def held_def)
  qed
qed

lemma meta_run_knows:
  assumes "lru_ok L" "knows_opt L ttl s"
  shows "knows_opt L ttl (meta_run L ops s)"
  using assms(2) unfolding meta_run_def
proof (induction ops arbitrary: s)
  case (Cons e ops)
  have "knows_opt L ttl (meta_step L e s)"
    using meta_step_knows [OF assms(1), of ttl "fst s" "snd s"] Cons.prems by (cases e) simp
  then show ?case using Cons.IH by simp
qed simp

lemma mc_maybe_new_knows:
  "lru_ok L \<Longrightarrow> mc_maybe_new L ttl capacity = Some mc \<Longrightarrow> knows_opt L ttl (Some mc, [])"
  by (auto simp: mc_maybe_new_def knows_opt_def knows_def held_def lru_okD(1) split: if_splits)

lemma knows_live:
  assumes "knows L ttl log mc" "live L now mc k = Some item"
  shows "item_of k log item" "now < ci_inserted_at item + ttl"
proof -
  have "held L mc k = Some item" "now < ci_inserted_at item + mc_ttl mc"
    using assms(2) by (auto simp: live_def split: option.splits if_splits)
  then show "item_of k log item" "now < ci_inserted_at item + ttl" using knowsD [OF assms(1)] by auto
qed

lemma knows_status_answer:
  assumes "lru_ok L" "knows L ttl log mc"
    and eq: "get_status_through_cache L now later (Some mc) path sync fetch m = (res, cache, m')"
  shows "(res, m') = fetch m
      \<or> (m' = m \<and> sync \<noteq> 0
         \<and> (\<exists>slot. last_status (normalize_path path) log = Some slot \<and> servable slot \<and> res = slot_result path slot)
         \<and> (\<exists>t. last_heard (normalize_path path) log = Some t \<and> now < t + ttl))"
proof (cases "cached_answer L now mc path sync")
  case None
  then show ?thesis using eq by (auto simp: get_status_through_cache_eq [OF assms(1)])
next
  case (Some slot)
  let ?k = "normalize_path path"
  obtain item where live: "live L now mc ?k = Some item" and st: "ci_status item = Some slot"
    and "servable slot" "sync \<noteq> 0"
    using Some by (cases "live L now mc ?k") (auto simp: cached_answer_def split: if_splits option.splits)
  moreover have "last_status ?k log = Some slot" "last_heard ?k log = Some (ci_inserted_at item)"
    using knows_live(1) [OF assms(2) live] st by (auto simp: item_of_def)
  ultimately show ?thesis
    using knows_live(2) [OF assms(2) live] eq Some by (auto simp: get_status_through_cache_eq [OF assms(1)])
qed

lemma knows_listing_answer:
  assumes "lru_ok L" "knows L ttl log mc"
    and eq: "list_status_through_cache L now later (Some mc) path skip fetch m = (res, cache, m')"
  shows "(res, m') = fetch m
      \<or> (m' = m \<and> \<not> skip
         \<and> (\<exists>list. last_listing (normalize_path path) log = Some list \<and> res = Inr list)
         \<and> (\<exists>t. last_heard (normalize_path path) log = Some t \<and> now < t + ttl))"
proof (cases "cached_listing L now mc path skip")
  case None
  then show ?thesis using eq by (auto simp: list_status_through_cache_eq [OF assms(1)])
next
  case (Some list)
  let ?k = "normalize_path path"
  obtain item where live: "live L now mc ?k = Some item" and ls: "ci_listing item = Some list" and "\<not> skip"
    using Some by (cases "live L now mc ?k") (auto simp: cached_listing_def split: if_splits)
  moreover have "last_listing ?k log = Some list" "last_heard ?k log = Some (ci_inserted_at item)"
    using knows_live(1) [OF assms(2) live] ls by (auto simp: item_of_def)
  ultimately show ?thesis
    using knows_live(2) [OF assms(2) live] eq Some by (auto simp: list_status_through_cache_eq [OF assms(1)])
qed

text \<open>
  (C28) A cached answer was said.  After any sequence of status and listing requests, mutations and
  renames with any answers and any clock, a status request either makes the RPC and returns its
  answer, or makes none and returns the last status the master gave of the path, in any spelling,
  since it was last invalidated: a completed file, or that there is none.  A listing request
  either makes the RPC, or returns the last listing that was fetched through the cache since then;
  a listing fetched with the cache bypassed does not count.  The last of the statuses and listings
  so heard of the path is younger than the time to live; the one returned need not be it.
\<close>

theorem metadata_cache_repeats_master:
  assumes "lru_ok L" and "mc_maybe_new L ttl capacity = Some mc0"
    and "meta_run L ops (Some mc0, []) = (Some mc, log)"
    and "get_status_through_cache L now later (Some mc) path sync fetch m = (res, cache, m1)"
    and "list_status_through_cache L now later (Some mc) path skip fetch_list m = (lres, lcache, m2)"
  shows "((res, m1) = fetch m
      \<or> (m1 = m \<and> sync \<noteq> 0
         \<and> (\<exists>slot. last_status (normalize_path path) log = Some slot \<and> servable slot \<and> res = slot_result path slot)
         \<and> (\<exists>t. last_heard (normalize_path path) log = Some t \<and> now < t + ttl)))
    \<and> ((lres, m2) = fetch_list m
      \<or> (m2 = m \<and> \<not> skip
         \<and> (\<exists>list. last_listing (normalize_path path) log = Some list \<and> lres = Inr list)
         \<and> (\<exists>t. last_heard (normalize_path path) log = Some t \<and> now < t + ttl)))"
proof -
  have k: "knows L ttl log mc"
    using meta_run_knows [OF assms(1) mc_maybe_new_knows [OF assms(1,2)], of ops] assms(3)
    by (simp add: knows_opt_def)
  from knows_status_answer [OF assms(1) k assms(4)] knows_listing_answer [OF assms(1) k assms(5)]
  show ?thesis by blast
qed

section \<open>An instance of the crate\<close>

text \<open>The capacity and the entries, most recent first.\<close>

definition without :: "string \<Rightarrow> (string \<times> cached_item) list \<Rightarrow> (string \<times> cached_item) list" where
  "without k xs = filter (\<lambda>e. fst e \<noteq> k) xs"

definition list_lru :: "(nat \<times> (string \<times> cached_item) list) lru" where
  "list_lru = \<lparr>lru_new = (\<lambda>n. (n, [])), lru_peek = (\<lambda>(n, xs). map_of xs),
     lru_get = (\<lambda>k (n, xs). case map_of xs k of None \<Rightarrow> (None, n, xs) | Some v \<Rightarrow> (Some v, n, (k, v) # without k xs)),
     lru_update = (\<lambda>k f (n, xs). map_option (\<lambda>v. (n, (k, f v) # without k xs)) (map_of xs k)),
     lru_put = (\<lambda>k v (n, xs). (n, (k, v) # take (n - 1) (without k xs))),
     lru_pop = (\<lambda>k (n, xs). (map_of xs k, n, without k xs)),
     lru_clear = (\<lambda>(n, xs). (n, [])), lru_len = (\<lambda>(n, xs). length xs)\<rparr>"

lemma map_of_without: "map_of (without k xs) = (map_of xs)(k := None)"
  by (induction xs) (auto simp: without_def)

lemma map_of_take: "map_of (take n xs) q \<in> {None, map_of xs q}"
proof (cases "map_of (take n xs) q")
  case (Some v)
  have "map_of xs = map_of (drop n xs) ++ map_of (take n xs)"
    by (simp flip: map_of_append)
  then show ?thesis using Some by simp
qed simp

lemma list_lru_ok: "lru_ok list_lru"
  unfolding lru_ok_def
proof (intro conjI allI impI)
  fix q k :: string and item c assume "q \<noteq> k"
  then show "lru_peek list_lru (lru_put list_lru k item c) q \<in> {None, lru_peek list_lru c q}"
    using map_of_take [of "fst c - 1" "without k (snd c)" q]
    by (cases c) (auto simp: list_lru_def map_of_without)
qed (auto simp: list_lru_def map_of_without fun_eq_iff split: option.splits prod.splits)

text \<open>A directory and a file in it, and two listings of the directory.\<close>

definition demo_info :: "i64 \<Rightarrow> bool \<Rightarrow> file_info" where
  "demo_info len folder = default_file_info\<lparr>fi_file_id := Some 7, fi_length := Some len, fi_block_size_bytes := Some 4,
     fi_completed := Some True, fi_folder := Some folder, fi_cacheable := Some True,
     fi_persisted := Some True, fi_last_modification_time_ms := Some 1\<rparr>"

definition demo_meta :: "(nat \<times> nat \<times> meta_op) list" where
  "demo_meta = [(0, 1, GetStatus ''/d/f'' 5 (Inr (demo_info 3 False))), (2, 3, ListStatus ''/d'' False (Inr [demo_info 3 False]))]"

definition demo_meta_run :: "(nat \<times> (string \<times> cached_item) list) metadata_cache option \<times> meta_log" where
  "demo_meta_run = meta_run list_lru demo_meta (mc_maybe_new list_lru 60 8, [])"

lemma demo_meta_facts:
  "fst demo_meta_run = Some (the (fst demo_meta_run))"
  "mc_maybe_new list_lru 60 8 = Some (the (mc_maybe_new list_lru 60 8))"
  "last_status ''/d/f'' (snd demo_meta_run) = Some (SlotPresent (demo_info 3 False))"
  "normalize_path ''d/f/'' = ''/d/f''"
  by code_simp+

theorem metadata_cache_repeats_master_witness:
  "\<exists>cache. get_status_through_cache list_lru 9 9 (fst demo_meta_run) ''d/f/'' 5
     (\<lambda>n. (Inl (EInternal ''down''), Suc n)) 0 = (Inr (demo_info 3 False), cache, 0)"
proof -
  let ?mc = "the (fst demo_meta_run)"
  let ?fetch = "\<lambda>n. (Inl (EInternal ''down'') :: file_info result, Suc n)"
  let ?fetch_list = "\<lambda>n. (Inr [] :: file_info list result, Suc n)"
  have run: "meta_run list_lru demo_meta (Some (the (mc_maybe_new list_lru 60 8)), [])
      = (Some ?mc, snd demo_meta_run)"
    using demo_meta_facts(1) unfolding demo_meta_facts(2) [symmetric]
    by (simp add: prod_eq_iff flip: demo_meta_run_def)
  obtain res cache m1 where g: "get_status_through_cache list_lru 9 9 (Some ?mc) ''d/f/'' 5 ?fetch 0 = (res, cache, m1)"
    by (metis prod_cases3)
  obtain lres lcache m2 where l: "list_status_through_cache list_lru 9 9 (Some ?mc) ''d/f/'' False ?fetch_list 0 = (lres, lcache, m2)"
    by (metis prod_cases3)
  have "snd (snd (get_status_through_cache list_lru 9 9 (Some ?mc) ''d/f/'' 5 ?fetch 0)) = 0" by code_simp
  then have "m1 = 0" by (simp add: g)
  moreover have "res = Inr (demo_info 3 False)"
    using metadata_cache_repeats_master [OF list_lru_ok demo_meta_facts(2) run g l] \<open>m1 = 0\<close> demo_meta_facts(3,4)
    by (auto simp: slot_result_def)
  ultimately show ?thesis using g demo_meta_facts(1) by auto
qed

text \<open>
  (C29) A mutation is seen.  After a successful create, delete or mkdir of a path, the next status
  or listing request for the path or its parent directory, however spelled, goes to the master;
  entries of all other paths stay.  A mutation that failed leaves the cache as it was.
\<close>

theorem mutation_is_seen:
  assumes "lru_ok L"
    and "normalize_path q = normalize_path path
      \<or> (\<exists>parent. parent_path path = Some parent \<and> normalize_path q = normalize_path parent)"
  shows "\<exists>mc'. invalidate_on_success L (Some mc) path (Inr v) = (Inr v, Some mc')
      \<and> (case get_status_through_cache L now later (Some mc') q sync fetch m of (res, _, m') \<Rightarrow> (res, m') = fetch m)
      \<and> (case list_status_through_cache L now later (Some mc') q skip fetch_list m of
           (res, _, m') \<Rightarrow> (res, m') = fetch_list m)
      \<and> (\<forall>k. k = normalize_path path \<or> (\<exists>parent. parent_path path = Some parent \<and> k = normalize_path parent)
           \<or> lru_peek L (mc_lru mc') k = lru_peek L (mc_lru mc) k)
      \<and> invalidate_on_success L (Some mc) path (Inl e :: 'a result) = (Inl e, Some mc)"
proof -
  let ?mc = "mc_invalidate_with_parent L path mc"
  note h = mc_invalidate_with_parent_held(1) [OF assms(1), of path mc]
  have "live L now ?mc (normalize_path q) = None"
    using assms(2) by (auto simp: live_def h)
  moreover have "\<forall>k. k = normalize_path path \<or> (\<exists>parent. parent_path path = Some parent \<and> k = normalize_path parent)
           \<or> lru_peek L (mc_lru ?mc) k = lru_peek L (mc_lru mc) k"
    using h by (auto simp: held_def fun_eq_iff)
  ultimately show ?thesis
    by (intro exI [of _ ?mc])
      (simp add: invalidate_on_success_def get_status_through_cache_eq [OF assms(1)]
        list_status_through_cache_eq [OF assms(1)] cached_answer_def cached_listing_def)
qed

theorem mutation_is_seen_witness:
  "\<exists>mc'. invalidate_on_success list_lru (fst demo_meta_run) ''/d/f'' (Inr ()) = (Inr (), Some mc')
     \<and> (case list_status_through_cache list_lru 9 9 (Some mc') ''/d/'' False (\<lambda>n. (Inr [demo_info 4 False], Suc n)) (0 :: nat)
          of (res, _, n) \<Rightarrow> res = Inr [demo_info 4 False] \<and> n = 1)"
proof -
  have n: "normalize_path ''/d/'' = ''/d''" "parent_path ''/d/f'' = Some ''/d''" "normalize_path ''/d'' = ''/d''"
    by code_simp+
  show ?thesis
    using mutation_is_seen [OF list_lru_ok, where q = "''/d/''" and path = "''/d/f''" and v = "()"
        and mc = "the (fst demo_meta_run)" and now = 9 and later = 9 and m = "0 :: nat" and skip = False
        and sync = 1 and fetch = "\<lambda>n. (Inr (demo_info 4 False), Suc n)" and e = "EInternal ''down''"
        and fetch_list = "\<lambda>n. (Inr [demo_info 4 False], Suc n)"] n
    by (auto simp: demo_meta_facts(1) [symmetric])
qed

lemma put_status_renews:
  assumes "lru_ok L" "held L mc (normalize_path path) = Some item"
  shows "held L (put_status L t path slot mc) (normalize_path path) = Some (item\<lparr>ci_status := Some slot, ci_inserted_at := t\<rparr>)"
proof -
  let ?f = "\<lambda>item. item\<lparr>ci_status := Some slot, ci_inserted_at := t\<rparr>"
  obtain c where "lru_update L (normalize_path path) ?f (mc_lru mc) = Some c"
    and "lru_peek L c = (lru_peek L (mc_lru mc))(normalize_path path \<mapsto> ?f item)"
    using lru_okD(5) [OF assms(1), of "mc_lru mc" "normalize_path path" item ?f] assms(2) by (auto simp: held_def)
  then show ?thesis by (simp add: put_status_def Let_def held_def)
qed

text \<open>
  (C30) A status request revives an expired listing.  Whatever a cache holds, let the entry of a path
  with a listing be expired at some time: a listing request then goes to the master.  But when a
  status request that bypasses the lookup has succeeded less than the time to live before, however
  old the listing was, the same listing request makes no RPC and returns the old listing.
\<close>

theorem expired_listing_revived:
  assumes "lru_ok L" and "lru_peek L (mc_lru mc) (normalize_path path) = Some item" and "ci_listing item = Some list"
    and "ci_inserted_at item + mc_ttl mc \<le> now'" and "later \<le> now'" and "now' < later + mc_ttl mc"
    and "fetch m = (Inr info, m')" and "normalize_path q = normalize_path path"
  shows "\<exists>mc' cache cache'. get_status_through_cache L now later (Some mc) path 0 fetch m = (Inr info, Some mc', m')
    \<and> list_status_through_cache L now' later' (Some mc') q False fetch_list n = (Inr list, cache, n)
    \<and> list_status_through_cache L now' later' (Some mc) q False fetch_list n
        = (fst (fetch_list n), cache', snd (fetch_list n))"
proof -
  let ?k = "normalize_path path" and ?mc = "put_status L later path (SlotPresent info) mc"
  have held: "held L mc ?k = Some item" using assms(2) by (simp add: held_def)
  note put_status_renews [OF assms(1) held, of later "SlotPresent info"]
  then have "cached_listing L now' ?mc q False = Some list"
    using assms(3,5,6,8) put_status_held(3) [OF assms(1)] by (simp add: cached_listing_def live_def)
  moreover have "cached_listing L now' mc q False = None"
    using held assms(4,8) by (simp add: cached_listing_def live_def)
  ultimately show ?thesis
    using assms(7)
    by (intro exI [of _ ?mc]) (simp add: get_status_through_cache_eq [OF assms(1)] list_status_through_cache_eq [OF assms(1)]
        cached_answer_def after_lookup_def record_answer_def)
qed

definition listed_cache :: "(nat \<times> (string \<times> cached_item) list) metadata_cache" where
  "listed_cache = the (fst (meta_run list_lru [(0, 0, ListStatus ''/d'' False (Inr [demo_info 3 False]))]
     (mc_maybe_new list_lru 60 8, [])))"

theorem expired_listing_revived_witness:
  "\<exists>mc' cache. get_status_through_cache list_lru 100 100 (Some listed_cache) ''/d'' 0
       (\<lambda>n. (Inr (demo_info 0 True), Suc n)) (0 :: nat) = (Inr (demo_info 0 True), Some mc', 1)
    \<and> list_status_through_cache list_lru 101 101 (Some mc') ''d/'' False (\<lambda>n. (Inr [], Suc n)) (0 :: nat)
        = (Inr [demo_info 3 False], cache, 0)"
proof -
  have facts: "lru_peek list_lru (mc_lru listed_cache) (normalize_path ''/d'')
      = Some \<lparr>ci_status = None, ci_listing = Some [demo_info 3 False], ci_inserted_at = 0\<rparr>"
    "mc_ttl listed_cache = 60" "normalize_path ''d/'' = normalize_path ''/d''" by code_simp+
  show ?thesis
    using expired_listing_revived [OF list_lru_ok facts(1) _ _ _ _ _ facts(3), where now = 100 and later = 100
        and now' = 101 and later' = 101 and m = 0 and n = "0 :: nat" and m' = 1 and info = "demo_info 0 True"
        and list = "[demo_info 3 False]" and fetch = "\<lambda>n. (Inr (demo_info 0 True), Suc n)"
        and fetch_list = "\<lambda>n. (Inr [], Suc n)"] facts(2) by auto
qed

text \<open>
  A trailing slash hides white space from trimming: the listing of \<open>''/a /''\<close> is kept under a
  key that the mutation of a child does not drop.
\<close>

lemma parent_key_mismatch:
  "normalize_path ''/a /'' = ''/a ''" "parent_path ''/a /b'' = Some ''/a ''" "normalize_path ''/a '' = ''/a''"
  by code_simp+

text \<open>
  Two slots, one counter: a status lookup counts exactly one hit or one miss.
\<close>

lemma lookup_counts_once:
  "mc_hits (snd (lookup_status L now path mc)) + mc_misses (snd (lookup_status L now path mc))
     = mc_hits mc + mc_misses mc + 1"
  by (auto simp: lookup_status_def retain_fresh_def Let_def bump_hit_def bump_miss_def
      split: option.splits status_slot.splits prod.splits)

end
