(* ===== verification/Block_Locations.thy ===== *)
theory Block_Locations
  imports Router_View "HOL-Library.Signed_Division" "HOL-Library.Multiset"
begin

text \<open>
  Where the blocks of a file are (\<^verbatim>\<open>src/src/block/locations.rs\<close>): filling in the block ids the
  master leaves out, asking workers which blocks they hold and merging their answers, and
  the share of the file that is cached.  The \<open>CheckBlocks\<close> RPC, its connection included, is a
  parameter; so are the iteration orders of the hash maps and sets, which the language leaves
  open: \<open>hash_orders_ok\<close> says only that iterating visits every element once.
\<close>

section \<open>Block ids\<close>

definition block_pair :: "file_block_info \<Rightarrow> (i64 \<times> i64) option" where
  "block_pair fbi =
     (let offset = unwrap_or (fbi_offset fbi) 0
      in Option.bind (fbi_block_info fbi) (\<lambda>bi. Option.bind (bi_block_id bi)
           (\<lambda>id. if id > 0 then Some (offset, id) else None)))"

definition ensure_block_ids_from_file_block_infos :: "file_info \<Rightarrow> file_info" where
  "ensure_block_ids_from_file_block_infos fi =
     (if fi_block_ids fi \<noteq> [] \<or> fi_file_block_infos fi = [] then fi
      else fi\<lparr>fi_block_ids := map snd (sort_key fst (List.map_filter block_pair (fi_file_block_infos fi)))\<rparr>)"

section \<open>Asking the workers\<close>

record probed_locations =
  pl_locations :: "i64 \<rightharpoonup> block_location list"
  pl_probed_ok :: "i64 set"

datatype worker_check_outcome = CheckOk worker_info "i64 list" "(i64 \<times> i64) list" | CheckFailed

record hash_orders =
  ho_ids :: "i64 list \<Rightarrow> i64 list"
  ho_keys :: "string list \<Rightarrow> string list"

definition hash_orders_ok :: "hash_orders \<Rightarrow> bool" where
  "hash_orders_ok ho \<longleftrightarrow> (\<forall>xs. mset (ho_ids ho xs) = mset xs) \<and> (\<forall>xs. mset (ho_keys ho xs) = mset xs)"

text \<open>The workers selected for each block; a block for which none is found is skipped.\<close>

fun select_block_workers ::
  "(nat \<Rightarrow> instant) \<Rightarrow> nat \<Rightarrow> nat \<Rightarrow> i64 list \<Rightarrow> (i64 \<rightharpoonup> worker_info list) \<Rightarrow> router_view
   \<Rightarrow> (i64 \<rightharpoonup> worker_info list) \<times> router_view" where
  "select_block_workers clock n check_count [] block_to_workers v = (block_to_workers, v)"
| "select_block_workers clock n check_count (b # bs) block_to_workers v =
     (case view_select_workers (clock n) b check_count v of
        (Inr workers, v) \<Rightarrow> select_block_workers clock (Suc n) check_count bs (block_to_workers(b \<mapsto> workers)) v
      | (Inl _, v) \<Rightarrow> select_block_workers clock (Suc n) check_count bs block_to_workers v)"

type_synonym worker_blocks = "(string \<times> worker_info \<times> i64 list) list"

definition extend_ids :: "string \<Rightarrow> i64 \<Rightarrow> string \<times> worker_info \<times> i64 list \<Rightarrow> string \<times> worker_info \<times> i64 list" where
  "extend_ids key b entry = (case entry of (k, w, ids) \<Rightarrow>
     (k, w, if k = key \<and> b \<notin> set ids then ids @ [b] else ids))"

definition add_block :: "i64 \<Rightarrow> worker_info \<Rightarrow> worker_blocks \<Rightarrow> worker_blocks" where
  "add_block b w wb =
     (case w_address w of
        None \<Rightarrow> wb
      | Some addr \<Rightarrow>
          let key = rpc_endpoint addr
          in if key \<in> fst ` set wb
             then map (extend_ids key b) wb
             else wb @ [(key, w, [b])])"

definition invert_workers ::
  "hash_orders \<Rightarrow> i64 list \<Rightarrow> (i64 \<rightharpoonup> worker_info list) \<Rightarrow> worker_blocks" where
  "invert_workers ho block_ids block_to_workers =
     fold (\<lambda>b. fold (add_block b) (unwrap_or (block_to_workers b) []))
       (ho_ids ho (filter (\<lambda>b. block_to_workers b \<noteq> None) (remdups block_ids))) []"

definition check_worker ::
  "hash_orders \<Rightarrow> (string \<Rightarrow> i64 list \<Rightarrow> (i64 \<times> i64) list result) \<Rightarrow> string \<Rightarrow> worker_info \<times> i64 list
   \<Rightarrow> worker_check_outcome" where
  "check_worker ho check endpoint task =
     (let queried = ho_ids ho (snd task)
      in case check endpoint queried of
          Inr cached_bytes \<Rightarrow> CheckOk (fst task) queried cached_bytes
        | Inl _ \<Rightarrow> CheckFailed)"

definition touch_entry :: "i64 \<Rightarrow> probed_locations \<Rightarrow> probed_locations" where
  "touch_entry b pl = pl\<lparr>pl_probed_ok := insert b (pl_probed_ok pl),
     pl_locations := (pl_locations pl)(b \<mapsto> unwrap_or (pl_locations pl b) [])\<rparr>"

definition push_location :: "worker_info \<Rightarrow> i64 \<times> i64 \<Rightarrow> probed_locations \<Rightarrow> probed_locations" where
  "push_location w e pl =
     (if snd e \<le> 0 then pl
      else pl\<lparr>pl_locations := (pl_locations pl)(fst e \<mapsto> unwrap_or (pl_locations pl (fst e)) []
        @ [\<lparr>bl_worker_id = w_id w, bl_worker_address = w_address w\<rparr>])\<rparr>)"

definition merge_outcome :: "worker_check_outcome \<Rightarrow> probed_locations \<Rightarrow> probed_locations" where
  "merge_outcome outcome pl = (case outcome of
     CheckFailed \<Rightarrow> pl
   | CheckOk w queried cached_bytes \<Rightarrow> fold (push_location w) cached_bytes (fold touch_entry queried pl))"

definition fetch_block_locations ::
  "hash_orders \<Rightarrow> (string \<Rightarrow> i64 list \<Rightarrow> (i64 \<times> i64) list result) \<Rightarrow> (nat \<Rightarrow> instant) \<Rightarrow> i64 list \<Rightarrow> nat
   \<Rightarrow> router_view \<Rightarrow> probed_locations result \<times> router_view" where
  "fetch_block_locations ho check clock block_ids check_count v =
     (let (block_to_workers, v) = select_block_workers clock 0 check_count block_ids Map.empty v;
          worker_to_blocks = invert_workers ho block_ids block_to_workers;
          outcomes = map (\<lambda>k. check_worker ho check k (the (map_of worker_to_blocks k)))
            (ho_keys ho (map fst worker_to_blocks))
      in (Inr (fold merge_outcome outcomes \<lparr>pl_locations = Map.empty, pl_probed_ok = {}\<rparr>), v))"

section \<open>The share of the file in the cache\<close>

definition wrap_i32 :: "int \<Rightarrow> i32" where
  "wrap_i32 i = sint (word_of_int i :: u32)"

definition saturating_i64 :: "int \<Rightarrow> i64" where
  "saturating_i64 i = max (- (2 ^ 63)) (min (2 ^ 63 - 1) i)"

definition cached_length :: "file_block_info \<Rightarrow> i64" where
  "cached_length fbi = (case fbi_block_info fbi of
     None \<Rightarrow> 0
   | Some bi \<Rightarrow> if bi_locations bi = [] then 0 else max (unwrap_or (bi_length bi) 0) 0)"

definition recompute_in_goosefs_percentage :: "file_info \<Rightarrow> file_info" where
  "recompute_in_goosefs_percentage fi =
     (let file_length = unwrap_or (fi_length fi) 0
      in if file_length = 0 then fi\<lparr>fi_in_goose_fs_percentage := Some 100\<rparr>
         else let cache_size = fold (\<lambda>fbi acc. wrap_i64 (acc + cached_length fbi)) (fi_file_block_infos fi) 0;
                  pct = min (saturating_i64 (cache_size * 100) sdiv file_length) 100
              in fi\<lparr>fi_in_goose_fs_percentage := Some (wrap_i32 pct)\<rparr>)"

text \<open>\<open>str::eq_ignore_ascii_case\<close>.\<close>

definition ascii_lower :: "char \<Rightarrow> char" where
  "ascii_lower c = (let n = of_char c :: nat in if 65 \<le> n \<and> n \<le> 90 then char_of (n + 32) else c)"

definition eq_ignore_ascii_case :: "string \<Rightarrow> string \<Rightarrow> bool" where
  "eq_ignore_ascii_case a b \<longleftrightarrow> map ascii_lower a = map ascii_lower b"

definition fill_in_goosefs_percentage_without_probe :: "file_info \<Rightarrow> file_info" where
  "fill_in_goosefs_percentage_without_probe fi =
     (let state = unwrap_or (fi_persistence_state fi) [] in
      if unwrap_or (fi_folder fi) False then fi
      else if unwrap_or (fi_length fi) 0 = 0 then fi\<lparr>fi_in_goose_fs_percentage := Some 100\<rparr>
      else if eq_ignore_ascii_case state ''TO_BE_PERSISTED'' then fi\<lparr>fi_in_goose_fs_percentage := Some 100\<rparr>
      else if unwrap_or (fi_completed fi) False \<and> unwrap_or (fi_cacheable fi) False
        \<and> \<not> unwrap_or (fi_persisted fi) False
        \<and> (state = [] \<or> eq_ignore_ascii_case state ''NOT_PERSISTED'')
      then fi\<lparr>fi_in_goose_fs_percentage := Some 100\<rparr>
      else recompute_in_goosefs_percentage fi)"

section \<open>Merging the answers\<close>

definition apply_to_block :: "probed_locations \<Rightarrow> file_block_info \<Rightarrow> file_block_info" where
  "apply_to_block probed fbi = (case fbi_block_info fbi of
     None \<Rightarrow> fbi
   | Some bi \<Rightarrow> (case bi_block_id bi of
       None \<Rightarrow> fbi
     | Some block_id \<Rightarrow>
         if block_id \<notin> pl_probed_ok probed then fbi
         else fbi\<lparr>fbi_block_info := Some (bi\<lparr>bi_locations := unwrap_or (pl_locations probed block_id) []\<rparr>)\<rparr>))"

definition apply_probed_locations :: "probed_locations \<Rightarrow> file_info \<Rightarrow> file_info" where
  "apply_probed_locations probed fi = recompute_in_goosefs_percentage
     (fi\<lparr>fi_file_block_infos := map (apply_to_block probed) (fi_file_block_infos fi)\<rparr>)"

definition file_block_ids :: "file_info \<Rightarrow> i64 list" where
  "file_block_ids fi = filter (\<lambda>id. id > 0) (List.map_filter
     (\<lambda>fbi. Option.bind (fbi_block_info fbi) bi_block_id) (fi_file_block_infos fi))"

definition enrich_file_block_locations ::
  "hash_orders \<Rightarrow> (string \<Rightarrow> i64 list \<Rightarrow> (i64 \<times> i64) list result) \<Rightarrow> (nat \<Rightarrow> instant) \<Rightarrow> nat
   \<Rightarrow> file_info \<Rightarrow> router_view \<Rightarrow> unit result \<times> file_info \<times> router_view" where
  "enrich_file_block_locations ho check clock check_count fi v =
     (let fi = ensure_block_ids_from_file_block_infos fi
      in if check_count = 0 \<or> fi_file_block_infos fi = [] then (Inr (), fi, v)
         else let block_ids = file_block_ids fi
              in if block_ids = [] then (Inr (), fi, v)
                 else case fetch_block_locations ho check clock block_ids check_count v of
                     (Inr probed, v) \<Rightarrow> (Inr (), apply_probed_locations probed fi, v)
                   | (Inl e, v) \<Rightarrow> (Inl e, fi, v))"

definition enrich_file_block_locations_with_router ::
  "hash_orders \<Rightarrow> (string \<Rightarrow> i64 list \<Rightarrow> (i64 \<times> i64) list result) \<Rightarrow> (nat \<Rightarrow> instant) \<Rightarrow> nat
   \<Rightarrow> file_info \<Rightarrow> worker_router \<Rightarrow> unit result \<times> file_info" where
  "enrich_file_block_locations_with_router ho check clock check_count fi r =
     (case enrich_file_block_locations ho check clock check_count fi (view_from_shared r) of
        (res, fi, _) \<Rightarrow> (res, fi))"

definition maybe_enrich_file_block_locations ::
  "hash_orders \<Rightarrow> (string \<Rightarrow> i64 list \<Rightarrow> (i64 \<times> i64) list result) \<Rightarrow> (nat \<Rightarrow> instant) \<Rightarrow> i32
   \<Rightarrow> file_info \<Rightarrow> router_view \<Rightarrow> file_info \<times> router_view" where
  "maybe_enrich_file_block_locations ho check clock check_count fi v =
     (let count = nat (max check_count 0)
      in if count = 0 then (ensure_block_ids_from_file_block_infos fi, v)
         else case enrich_file_block_locations ho check clock count fi v of
             (Inr _, fi, v) \<Rightarrow> (fi, v)
           | (Inl _, fi, v) \<Rightarrow> (ensure_block_ids_from_file_block_infos fi, v))"

section \<open>Who is asked\<close>

definition endpoint_of :: "worker_info \<Rightarrow> string option" where
  "endpoint_of w = map_option rpc_endpoint (w_address w)"

definition asks :: "worker_blocks \<Rightarrow> string \<Rightarrow> i64 \<Rightarrow> bool" where
  "asks wb e b \<longleftrightarrow> (\<exists>x \<in> set wb. fst x = e \<and> b \<in> set (snd (snd x)))"

definition wb_ok :: "worker_blocks \<Rightarrow> bool" where
  "wb_ok wb \<longleftrightarrow> distinct (map fst wb) \<and> (\<forall>x \<in> set wb. endpoint_of (fst (snd x)) = Some (fst x))"

lemma hash_orders_set:
  assumes "hash_orders_ok ho"
  shows "set (ho_ids ho xs) = set xs" "set (ho_keys ho ys) = set ys" "distinct (ho_keys ho ys) = distinct ys"
proof -
  have *: "mset (ho_ids ho xs) = mset xs" "mset (ho_keys ho ys) = mset ys"
    using assms by (auto simp: hash_orders_ok_def)
  show "set (ho_ids ho xs) = set xs" "set (ho_keys ho ys) = set ys"
    using * [THEN arg_cong, of set_mset] by simp_all
  show "distinct (ho_keys ho ys) = distinct ys" by (rule mset_eq_imp_distinct_iff [OF *(2)])
qed

lemma extend_ids_simps [simp]:
  "fst (extend_ids key b x) = fst x" "fst (snd (extend_ids key b x)) = fst (snd x)"
  "c \<in> set (snd (snd (extend_ids key b x))) \<longleftrightarrow> c \<in> set (snd (snd x)) \<or> (fst x = key \<and> c = b)"
  by (auto simp: extend_ids_def split: prod.splits)

lemma add_block_asks:
  "asks (add_block b w wb) e b' \<longleftrightarrow> asks wb e b' \<or> (b' = b \<and> endpoint_of w = Some e)"
proof (cases "w_address w")
  case None
  then show ?thesis by (simp add: add_block_def endpoint_of_def)
next
  case (Some addr)
  show ?thesis
  proof (cases "rpc_endpoint addr \<in> fst ` set wb")
    case True
    then obtain y where y: "y \<in> set wb" "fst y = rpc_endpoint addr" by auto
    have "asks (add_block b w wb) e b' \<longleftrightarrow> (\<exists>x \<in> set wb. fst x = e
        \<and> (b' \<in> set (snd (snd x)) \<or> (fst x = rpc_endpoint addr \<and> b' = b)))"
      using True Some by (simp add: add_block_def asks_def)
    also have "\<dots> \<longleftrightarrow> asks wb e b' \<or> (b' = b \<and> endpoint_of w = Some e)"
      using y Some unfolding asks_def endpoint_of_def by auto
    finally show ?thesis .
  next
    case False
    then show ?thesis
      using Some by (auto simp: add_block_def endpoint_of_def asks_def)
  qed
qed

lemma add_block_ok: "wb_ok wb \<Longrightarrow> wb_ok (add_block b w wb)"
  by (auto simp: wb_ok_def add_block_def Let_def endpoint_of_def comp_def split: option.splits)

lemma add_blocks_asks:
  "asks (fold (add_block b) ws wb) e b' \<longleftrightarrow> asks wb e b' \<or> (b' = b \<and> (\<exists>w \<in> set ws. endpoint_of w = Some e))"
  by (induction ws arbitrary: wb) (auto simp: add_block_asks)

lemma add_blocks_ok: "wb_ok wb \<Longrightarrow> wb_ok (fold (add_block b) ws wb)"
  by (induction ws arbitrary: wb) (auto simp: add_block_ok)

lemma invert_fold_asks:
  "asks (fold (\<lambda>b. fold (add_block b) (f b)) bs wb) e b'
   \<longleftrightarrow> asks wb e b' \<or> (b' \<in> set bs \<and> (\<exists>w \<in> set (f b'). endpoint_of w = Some e))"
  by (induction bs arbitrary: wb) (auto simp: add_blocks_asks)

lemma invert_workers_asks:
  assumes "hash_orders_ok ho"
  shows "asks (invert_workers ho block_ids m) e b
    \<longleftrightarrow> b \<in> set block_ids \<and> (\<exists>ws w. m b = Some ws \<and> w \<in> set ws \<and> endpoint_of w = Some e)"
  unfolding invert_workers_def invert_fold_asks
  by (auto simp: hash_orders_set [OF assms] asks_def)

lemma invert_workers_ok: "wb_ok (invert_workers ho block_ids m)"
proof -
  have *: "wb_ok wb \<Longrightarrow> wb_ok (fold (\<lambda>b. fold (add_block b) (f b)) bs wb)" for f bs wb
    by (induction bs arbitrary: wb) (auto simp: add_blocks_ok)
  show ?thesis unfolding invert_workers_def by (rule *) (simp add: wb_ok_def)
qed

section \<open>What the answers add up to\<close>

definition location_of :: "worker_info \<Rightarrow> block_location" where
  "location_of w = \<lparr>bl_worker_id = w_id w, bl_worker_address = w_address w\<rparr>"

definition locs_for :: "i64 \<Rightarrow> worker_check_outcome \<Rightarrow> block_location list" where
  "locs_for b outcome = (case outcome of CheckFailed \<Rightarrow> []
     | CheckOk w _ cached_bytes \<Rightarrow> map (\<lambda>_. location_of w) (filter (\<lambda>e. fst e = b \<and> 0 < snd e) cached_bytes))"

definition found :: "probed_locations \<Rightarrow> i64 \<Rightarrow> block_location list" where
  "found pl b = unwrap_or (pl_locations pl b) []"

lemma touch_entries:
  "found (fold touch_entry bs pl) b = found pl b"
  "pl_probed_ok (fold touch_entry bs pl) = set bs \<union> pl_probed_ok pl"
  by (induction bs arbitrary: pl) (auto simp: touch_entry_def found_def)

lemma push_locations:
  "found (fold (push_location w) cb pl) b = found pl b @ locs_for b (CheckOk w q cb)"
  "pl_probed_ok (fold (push_location w) cb pl) = pl_probed_ok pl"
  by (induction cb arbitrary: pl) (auto simp: push_location_def found_def locs_for_def location_of_def)

lemma merge_outcome_found:
  "found (merge_outcome outcome pl) b = found pl b @ locs_for b outcome"
proof (cases outcome)
  case (CheckOk w q cb)
  then show ?thesis by (simp add: merge_outcome_def push_locations(1) [where q = q] touch_entries)
qed (simp add: merge_outcome_def locs_for_def)

lemma merge_outcomes_found:
  "found (fold merge_outcome os pl) b = found pl b @ concat (map (locs_for b) os)"
  by (induction os arbitrary: pl) (auto simp: merge_outcome_found)

lemma merge_outcomes_probed:
  "b \<in> pl_probed_ok (fold merge_outcome os pl)
   \<longleftrightarrow> b \<in> pl_probed_ok pl \<or> (\<exists>w q cb. CheckOk w q cb \<in> set os \<and> b \<in> set q)"
proof (induction os arbitrary: pl)
  case (Cons x os)
  have "pl_probed_ok (merge_outcome x pl) = (case x of CheckOk _ q _ \<Rightarrow> set q | CheckFailed \<Rightarrow> {}) \<union> pl_probed_ok pl"
    by (auto simp: merge_outcome_def push_locations touch_entries split: worker_check_outcome.splits)
  then show ?case by (auto simp: Cons.IH split: worker_check_outcome.splits)
qed simp

text \<open>
  What is relied on in the RPC: a worker that cannot be reached gives an error whatever it is
  asked; one that answers reports, for blocks it was asked about and each at most once, the bytes
  it holds, and leaves out none that it holds.
\<close>

definition check_honest ::
  "(string \<Rightarrow> i64 list \<Rightarrow> (i64 \<times> i64) list result) \<Rightarrow> (string \<Rightarrow> (i64 \<Rightarrow> i64) option) \<Rightarrow> bool" where
  "check_honest check holds \<longleftrightarrow> (\<forall>e ids. case holds e of
     None \<Rightarrow> (\<exists>err. check e ids = Inl err)
   | Some bytes \<Rightarrow> (\<exists>cb. check e ids = Inr cb \<and> distinct (map fst cb)
       \<and> (\<forall>b n. (b, n) \<in> set cb \<longrightarrow> b \<in> set ids \<and> n = bytes b)
       \<and> (\<forall>b \<in> set ids. 0 < bytes b \<longrightarrow> b \<in> fst ` set cb)))"

lemma check_honestD:
  assumes "check_honest check holds"
  shows "holds e = None \<Longrightarrow> \<exists>err. check e ids = Inl err"
    and "holds e = Some bytes \<Longrightarrow> \<exists>cb. check e ids = Inr cb \<and> distinct (map fst cb)
       \<and> (\<forall>b n. (b, n) \<in> set cb \<longrightarrow> b \<in> set ids \<and> n = bytes b)
       \<and> (\<forall>b \<in> set ids. 0 < bytes b \<longrightarrow> b \<in> fst ` set cb)"
  using assms [unfolded check_honest_def, rule_format, of e ids] by simp_all

definition loc_endpoint :: "block_location \<Rightarrow> string option" where
  "loc_endpoint l = map_option rpc_endpoint (bl_worker_address l)"

lemma locs_for_endpoints:
  assumes "hash_orders_ok ho" "check_honest check holds" "endpoint_of w = Some e"
  shows "map loc_endpoint (locs_for b (check_worker ho check e (w, ids)))
    = (if b \<in> set ids \<and> (\<exists>bytes. holds e = Some bytes \<and> 0 < bytes b) then [Some e] else [])"
proof -
  let ?q = "ho_ids ho ids"
  have q: "set ?q = set ids" by (rule hash_orders_set(1) [OF assms(1)])
  have e: "loc_endpoint (location_of w) = Some e"
    using assms(3) by (simp add: loc_endpoint_def location_of_def endpoint_of_def)
  have one: "filter (\<lambda>p. fst p = b \<and> 0 < snd p) cb = (if b \<in> fst ` set cb \<and> 0 < f b then [(b, f b)] else [])"
    if "distinct (map fst cb)" "\<forall>b n. (b, n) \<in> set cb \<longrightarrow> n = f b" for cb :: "(i64 \<times> i64) list" and f
    using that by (induction cb) (auto split: if_splits)
  show ?thesis
  proof (cases "holds e")
    case None
    then obtain err where "check e ?q = Inl err"
      using check_honestD(1) [OF assms(2)] by blast
    then show ?thesis using None by (simp add: check_worker_def locs_for_def)
  next
    case (Some bytes)
    then obtain cb where c: "check e ?q = Inr cb" and d: "distinct (map fst cb)"
      and s: "\<forall>b n. (b, n) \<in> set cb \<longrightarrow> b \<in> set ids \<and> n = bytes b"
      and a: "\<forall>b \<in> set ids. 0 < bytes b \<longrightarrow> b \<in> fst ` set cb"
      using check_honestD(2) [OF assms(2) Some, of ?q] unfolding q by blast
    have "b \<in> fst ` set cb \<and> 0 < bytes b \<longleftrightarrow> b \<in> set ids \<and> 0 < bytes b" using s a by force
    then show ?thesis
      using one [OF d, of bytes] s Some c e by (auto simp: check_worker_def locs_for_def)
  qed
qed

text \<open>The outcomes of one round of probes, and the locations they amount to.\<close>

definition probe_outcomes ::
  "hash_orders \<Rightarrow> (string \<Rightarrow> i64 list \<Rightarrow> (i64 \<times> i64) list result) \<Rightarrow> worker_blocks \<Rightarrow> worker_check_outcome list" where
  "probe_outcomes ho check wb = map (\<lambda>k. check_worker ho check k (the (map_of wb k))) (ho_keys ho (map fst wb))"

lemma wb_okD:
  assumes "wb_ok wb" "k \<in> set (map fst wb)"
  obtains w ids where "map_of wb k = Some (w, ids)" "endpoint_of w = Some k" "\<And>b. b \<in> set ids \<longleftrightarrow> asks wb k b"
proof -
  obtain w ids where x: "(k, w, ids) \<in> set wb" using assms(2) by auto
  then have m: "map_of wb k = Some (w, ids)" using assms(1) by (simp add: wb_ok_def)
  have "b \<in> set ids \<longleftrightarrow> asks wb k b" for b
  proof
    assume "asks wb k b"
    then obtain w' ids' where "(k, w', ids') \<in> set wb" "b \<in> set ids'" by (auto simp: asks_def)
    then show "b \<in> set ids" using m assms(1) by (auto simp: wb_ok_def dest: map_of_is_SomeI)
  qed (use x in \<open>force simp: asks_def\<close>)
  moreover have "endpoint_of w = Some k" using assms(1) x by (force simp: wb_ok_def)
  ultimately show ?thesis using that m by blast
qed

lemma probe_endpoints:
  assumes "hash_orders_ok ho" "check_honest check holds" "wb_ok wb"
  shows "map loc_endpoint (concat (map (locs_for b) (probe_outcomes ho check wb)))
    = map Some (filter (\<lambda>k. asks wb k b \<and> (\<exists>bytes. holds k = Some bytes \<and> 0 < bytes b)) (ho_keys ho (map fst wb)))"
proof -
  have one: "map loc_endpoint (locs_for b (check_worker ho check k (the (map_of wb k))))
      = map Some (filter (\<lambda>k. asks wb k b \<and> (\<exists>bytes. holds k = Some bytes \<and> 0 < bytes b)) [k])"
    if k: "k \<in> set (map fst wb)" for k
  proof -
    obtain w ids where m: "map_of wb k = Some (w, ids)" and e: "endpoint_of w = Some k"
      and a: "\<And>b. b \<in> set ids \<longleftrightarrow> asks wb k b"
      using wb_okD [OF assms(3) k] by metis
    have "map loc_endpoint (locs_for b (check_worker ho check k (the (map_of wb k))))
        = map loc_endpoint (locs_for b (check_worker ho check k (w, ids)))" by (simp add: m)
    also have "\<dots> = (if asks wb k b \<and> (\<exists>bytes. holds k = Some bytes \<and> 0 < bytes b) then [Some k] else [])"
      unfolding locs_for_endpoints [OF assms(1,2) e] a ..
    finally show ?thesis by simp
  qed
  have "map loc_endpoint (concat (map (locs_for b) (map (\<lambda>k. check_worker ho check k (the (map_of wb k))) ks)))
      = map Some (filter (\<lambda>k. asks wb k b \<and> (\<exists>bytes. holds k = Some bytes \<and> 0 < bytes b)) ks)"
    if "set ks \<subseteq> set (map fst wb)" for ks
    using that one by (induction ks) auto
  then show ?thesis unfolding probe_outcomes_def by (simp add: hash_orders_set(2) [OF assms(1)])
qed

lemma probe_reached:
  assumes "hash_orders_ok ho" "check_honest check holds" "wb_ok wb"
  shows "(\<exists>w q cb. CheckOk w q cb \<in> set (probe_outcomes ho check wb) \<and> b \<in> set q)
    \<longleftrightarrow> (\<exists>k. asks wb k b \<and> holds k \<noteq> None)" (is "?L \<longleftrightarrow> ?R")
proof
  have keys: "set (ho_keys ho (map fst wb)) = set (map fst wb)" by (rule hash_orders_set(2) [OF assms(1)])
  { assume ?L
    then obtain w q cb where "CheckOk w q cb \<in> set (probe_outcomes ho check wb)" and b: "b \<in> set q" by blast
    then obtain k where k: "k \<in> set (map fst wb)" and c: "CheckOk w q cb = check_worker ho check k (the (map_of wb k))"
      using keys by (auto simp: probe_outcomes_def)
    obtain w' ids where m: "map_of wb k = Some (w', ids)" and a: "\<And>b. b \<in> set ids \<longleftrightarrow> asks wb k b"
      using wb_okD [OF assms(3) k] by metis
    have q: "q = ho_ids ho ids" and "check k q = Inr cb"
      using c by (auto simp: m check_worker_def Let_def split: sum.splits)
    then have "holds k \<noteq> None" using check_honestD(1) [OF assms(2), of k q] by auto
    moreover have "asks wb k b" using a b q hash_orders_set(1) [OF assms(1)] by simp
    ultimately show ?R by blast }
  { assume ?R
    then obtain k where r: "asks wb k b" "holds k \<noteq> None" by blast
    then have k: "k \<in> set (map fst wb)" by (auto simp: asks_def)
    obtain w ids where m: "map_of wb k = Some (w, ids)" and a: "\<And>b. b \<in> set ids \<longleftrightarrow> asks wb k b"
      using wb_okD [OF assms(3) k] by metis
    obtain bytes where "holds k = Some bytes" using r(2) by blast
    then obtain cb where "check k (ho_ids ho ids) = Inr cb"
      using check_honestD(2) [OF assms(2)] by blast
    then have "check_worker ho check k (the (map_of wb k)) = CheckOk w (ho_ids ho ids) cb"
      by (simp add: check_worker_def m)
    then have "CheckOk w (ho_ids ho ids) cb \<in> set (probe_outcomes ho check wb)"
      using k keys by (force simp: probe_outcomes_def)
    moreover have "b \<in> set (ho_ids ho ids)" using r(1) a hash_orders_set(1) [OF assms(1)] by simp
    ultimately show ?L by blast }
qed

lemma ensure_block_ids_infos [simp]:
  "fi_file_block_infos (ensure_block_ids_from_file_block_infos fi) = fi_file_block_infos fi"
  "file_block_ids (ensure_block_ids_from_file_block_infos fi) = file_block_ids fi"
  by (simp_all add: ensure_block_ids_from_file_block_infos_def file_block_ids_def)

lemma recompute_infos [simp]:
  "fi_file_block_infos (recompute_in_goosefs_percentage fi) = fi_file_block_infos fi"
  by (simp add: recompute_in_goosefs_percentage_def Let_def)

lemma file_block_idsI:
  assumes "i < length (fi_file_block_infos fi)" "fbi_block_info (fi_file_block_infos fi ! i) = Some bi"
    and "bi_block_id bi = Some b" "0 < b"
  shows "b \<in> set (file_block_ids fi)"
proof -
  have "fi_file_block_infos fi ! i \<in> set (fi_file_block_infos fi)" using assms(1) by (rule nth_mem)
  then show ?thesis using assms(2-4) by (force simp: file_block_ids_def List.map_filter_def image_iff)
qed

lemma fetch_block_locations_found:
  assumes "hash_orders_ok ho" "check_honest check holds"
    and "select_block_workers clock 0 n block_ids Map.empty v = (m, v')" and "b \<in> set block_ids"
  obtains pl where "fetch_block_locations ho check clock block_ids n v = (Inr pl, v')"
    and "b \<in> pl_probed_ok pl
      \<longleftrightarrow> (\<exists>w \<in> set (unwrap_or (m b) []). \<exists>e. endpoint_of w = Some e \<and> holds e \<noteq> None)"
    and "distinct (map loc_endpoint (found pl b))"
    and "set (map loc_endpoint (found pl b))
      = {Some e | e. (\<exists>w \<in> set (unwrap_or (m b) []). endpoint_of w = Some e)
           \<and> (\<exists>bytes. holds e = Some bytes \<and> 0 < bytes b)}"
proof -
  define wb where "wb = invert_workers ho block_ids m"
  define pl where "pl = fold merge_outcome (probe_outcomes ho check wb) \<lparr>pl_locations = Map.empty, pl_probed_ok = {}\<rparr>"
  have ok: "wb_ok wb" unfolding wb_def by (rule invert_workers_ok)
  have asks: "asks wb e b \<longleftrightarrow> (\<exists>w \<in> set (unwrap_or (m b) []). endpoint_of w = Some e)" for e
    using assms(4) by (cases "m b") (auto simp: wb_def invert_workers_asks [OF assms(1)])
  have "found pl b = concat (map (locs_for b) (probe_outcomes ho check wb))"
    by (simp add: pl_def merge_outcomes_found) (simp add: found_def)
  then have ends: "map loc_endpoint (found pl b) = map Some (filter (\<lambda>k. asks wb k b
        \<and> (\<exists>bytes. holds k = Some bytes \<and> 0 < bytes b)) (ho_keys ho (map fst wb)))"
    using probe_endpoints [OF assms(1,2) ok] by simp
  have known: "asks wb k b \<Longrightarrow> k \<in> set (ho_keys ho (map fst wb))" for k
    by (auto simp: hash_orders_set(2) [OF assms(1)] asks_def)
  show ?thesis
  proof (rule that [of pl])
    show "fetch_block_locations ho check clock block_ids n v = (Inr pl, v')"
      using assms(3) by (simp add: fetch_block_locations_def pl_def wb_def probe_outcomes_def Let_def)
    show "b \<in> pl_probed_ok pl
      \<longleftrightarrow> (\<exists>w \<in> set (unwrap_or (m b) []). \<exists>e. endpoint_of w = Some e \<and> holds e \<noteq> None)"
      unfolding pl_def merge_outcomes_probed probe_reached [OF assms(1,2) ok] asks by auto
    show "distinct (map loc_endpoint (found pl b))"
      using ok by (simp add: ends distinct_map hash_orders_set(3) [OF assms(1)] wb_ok_def)
    show "set (map loc_endpoint (found pl b))
      = {Some e | e. (\<exists>w \<in> set (unwrap_or (m b) []). endpoint_of w = Some e)
           \<and> (\<exists>bytes. holds e = Some bytes \<and> 0 < bytes b)}"
      unfolding ends using known asks by auto
  qed
qed

text \<open>
  (C19) Block locations after probing the workers.  Whatever the iteration orders of the hash maps,
  enrichment succeeds and changes only locations: a block for which a selected worker could be
  reached gets exactly the reachable selected workers that hold bytes of it, each once;
  a block for which none could be reached keeps the master's locations.
\<close>

theorem enrich_block_locations:
  assumes "hash_orders_ok ho" and "check_honest check holds" and "0 < check_count"
    and "select_block_workers clock 0 check_count (file_block_ids fi) Map.empty v = (m, v')"
    and "enrich_file_block_locations ho check clock check_count fi v = (res, fi', v'')"
    and "i < length (fi_file_block_infos fi)" and "fbi_block_info (fi_file_block_infos fi ! i) = Some bi"
    and "bi_block_id bi = Some b" and "0 < b"
  shows "res = Inr () \<and> v'' = v' \<and> length (fi_file_block_infos fi') = length (fi_file_block_infos fi)
    \<and> (\<exists>locations. fi_file_block_infos fi' ! i
         = (fi_file_block_infos fi ! i)\<lparr>fbi_block_info := Some (bi\<lparr>bi_locations := locations\<rparr>)\<rparr>
       \<and> (if \<exists>w \<in> set (unwrap_or (m b) []). \<exists>e. endpoint_of w = Some e \<and> holds e \<noteq> None
          then distinct (map loc_endpoint locations)
            \<and> set (map loc_endpoint locations)
              = {Some e | e. (\<exists>w \<in> set (unwrap_or (m b) []). endpoint_of w = Some e)
                   \<and> (\<exists>bytes. holds e = Some bytes \<and> 0 < bytes b)}
          else locations = bi_locations bi))"
proof -
  have b: "b \<in> set (file_block_ids fi)" by (rule file_block_idsI [OF assms(6-9)])
  obtain pl where f: "fetch_block_locations ho check clock (file_block_ids fi) check_count v = (Inr pl, v')"
    and probed: "b \<in> pl_probed_ok pl
      \<longleftrightarrow> (\<exists>w \<in> set (unwrap_or (m b) []). \<exists>e. endpoint_of w = Some e \<and> holds e \<noteq> None)"
    and locs: "distinct (map loc_endpoint (found pl b))" "set (map loc_endpoint (found pl b))
      = {Some e | e. (\<exists>w \<in> set (unwrap_or (m b) []). endpoint_of w = Some e)
           \<and> (\<exists>bytes. holds e = Some bytes \<and> 0 < bytes b)}"
    by (rule fetch_block_locations_found [OF assms(1,2,4) b])
  have "fi_file_block_infos fi \<noteq> []" "file_block_ids fi \<noteq> []" using assms(6) b by auto
  then have r: "res = Inr ()" "v'' = v'" "fi' = apply_probed_locations pl (ensure_block_ids_from_file_block_infos fi)"
    using assms(3,5) f by (auto simp: enrich_file_block_locations_def Let_def)
  have "fi_file_block_infos fi' ! i = apply_to_block pl (fi_file_block_infos fi ! i)"
    using assms(6) by (simp add: r apply_probed_locations_def)
  also have "\<dots> = (fi_file_block_infos fi ! i)\<lparr>fbi_block_info := Some (bi\<lparr>bi_locations :=
      if b \<in> pl_probed_ok pl then found pl b else bi_locations bi\<rparr>)\<rparr>"
    using assms(7,8) by (simp add: apply_to_block_def found_def)
  finally have i: "fi_file_block_infos fi' ! i = (fi_file_block_infos fi ! i)\<lparr>fbi_block_info := Some (bi\<lparr>bi_locations :=
      if b \<in> pl_probed_ok pl then found pl b else bi_locations bi\<rparr>)\<rparr>" .
  have "length (fi_file_block_infos fi') = length (fi_file_block_infos fi)"
    by (simp add: r apply_probed_locations_def)
  with r i locs show ?thesis unfolding probed [symmetric]
    by (intro conjI exI [of _ "if b \<in> pl_probed_ok pl then found pl b else bi_locations bi"]) simp_all
qed

section \<open>The ids in file order\<close>

text \<open>
  (C20) Block ids are in file order.  When the master leaves out the id list and lists the blocks
  of a file in any order, the \<open>i\<close>-th id is that of the block at offset \<open>i * block_size\<close>.
\<close>

theorem block_ids_in_file_order:
  assumes "fi_block_ids fi = []" and "0 < block_size"
    and "mset (List.map_filter block_pair (fi_file_block_infos fi))
      = mset (map (\<lambda>i. (int i * block_size, ids ! i)) [0..<length ids])"
  shows "fi_block_ids (ensure_block_ids_from_file_block_infos fi) = ids"
proof -
  let ?ys = "map (\<lambda>i. (int i * block_size, ids ! i)) [0..<length ids]"
  have "sorted (map fst ?ys)"
    using assms(2) by (auto simp: sorted_iff_nth_mono intro!: mult_right_mono)
  moreover have "inj_on fst (set (List.map_filter block_pair (fi_file_block_infos fi)))"
    using assms(2) mset_eq_setD [OF assms(3)] by (auto simp: inj_on_def)
  ultimately have "sort_key fst (List.map_filter block_pair (fi_file_block_infos fi)) = ?ys"
    by (intro sort_key_inj_key_eq [OF assms(3)])
  moreover have "map snd ?ys = ids" by (simp add: comp_def map_nth)
  moreover have "fi_file_block_infos fi = [] \<Longrightarrow> ids = []"
    using mset_eq_length [OF assms(3)] by (simp add: List.map_filter_def)
  ultimately show ?thesis
    using assms(1) by (auto simp: ensure_block_ids_from_file_block_infos_def)
qed

section \<open>The percentage\<close>

lemma cached_length_nonneg: "0 \<le> cached_length fbi"
  by (simp add: cached_length_def split: option.splits)

lemma cached_sum_fold:
  assumes "0 \<le> acc" "acc + sum_list (map cached_length fbis) < 2 ^ 63"
  shows "fold (\<lambda>fbi acc. wrap_i64 (acc + cached_length fbi)) fbis acc = acc + sum_list (map cached_length fbis)"
  using assms
proof (induction fbis arbitrary: acc)
  case (Cons x xs)
  have "0 \<le> sum_list (map cached_length xs)" by (intro sum_list_nonneg) (auto simp: cached_length_nonneg)
  then have "wrap_i64 (acc + cached_length x) = acc + cached_length x"
    using Cons.prems cached_length_nonneg [of x] by (intro wrap_i64_id) auto
  then show ?case using Cons.IH [of "acc + cached_length x"] Cons.prems cached_length_nonneg [of x] by simp
qed simp

text \<open>
  As long as the cached bytes fit the arithmetic, the percentage is the floor of their share
  of the file, at most 100.
\<close>

lemma percentage_is_share:
  assumes "fi_length fi = Some n" "0 < n" "100 * sum_list (map cached_length (fi_file_block_infos fi)) < 2 ^ 63"
  shows "fi_in_goose_fs_percentage (recompute_in_goosefs_percentage fi)
    = Some (min (100 * sum_list (map cached_length (fi_file_block_infos fi)) div n) 100)"
proof -
  let ?c = "sum_list (map cached_length (fi_file_block_infos fi))"
  have c: "0 \<le> ?c" by (intro sum_list_nonneg) (auto simp: cached_length_nonneg)
  then have "fold (\<lambda>fbi acc. wrap_i64 (acc + cached_length fbi)) (fi_file_block_infos fi) 0 = ?c"
    using cached_sum_fold [of 0 "fi_file_block_infos fi"] assms(3) by simp
  moreover have "saturating_i64 (?c * 100) = 100 * ?c" using c assms(3) by (simp add: saturating_i64_def)
  moreover have "100 * ?c sdiv n = 100 * ?c div n"
    using c assms(2) by (simp add: signed_divide_int_def sgn_if)
  moreover have "wrap_i32 (min (100 * ?c div n) 100) = min (100 * ?c div n) 100"
  proof -
    have "0 \<le> min (100 * ?c div n) 100" using c assms(2) by (simp add: pos_imp_zdiv_nonneg_iff)
    then show ?thesis by (simp add: wrap_i32_def int_word_sint)
  qed
  ultimately show ?thesis using assms(1,2) by (simp add: recompute_in_goosefs_percentage_def Let_def)
qed

section \<open>A file of two blocks and one worker\<close>

definition demo_view :: router_view where
  "demo_view = \<lparr>wv_workers = [sample_worker 2 ''b''], wv_hash_ring = [(0, 0)],
     wv_local_worker_id = None, wv_failed = failed_new, wv_failure_ttl = 5\<rparr>"

definition demo_block :: "i64 \<Rightarrow> i64 \<Rightarrow> file_block_info" where
  "demo_block bid offset = \<lparr>fbi_block_info = Some \<lparr>bi_block_id = Some bid, bi_length = Some 4, bi_locations = []\<rparr>,
     fbi_offset = Some offset\<rparr>"

definition demo_status :: file_info where
  "demo_status = default_file_info\<lparr>fi_file_id := Some 7, fi_length := Some 8, fi_block_size_bytes := Some 4,
     fi_completed := Some True, fi_folder := Some False, fi_cacheable := Some True,
     fi_persisted := Some True, fi_last_modification_time_ms := Some 1,
     fi_file_block_infos := [demo_block 12 4, demo_block 11 0]\<rparr>"

definition demo_holds :: "string \<Rightarrow> (i64 \<Rightarrow> i64) option" where
  "demo_holds e = Some (\<lambda>b. if b = 12 then 4 else 0)"

definition demo_check :: "string \<Rightarrow> i64 list \<Rightarrow> (i64 \<times> i64) list result" where
  "demo_check e ids = Inr (if 12 \<in> set ids then [(12, 4)] else [])"

definition demo_orders :: hash_orders where
  "demo_orders = \<lparr>ho_ids = rev, ho_keys = rev\<rparr>"

lemma demo_select_one: "view_select_workers now b 1 demo_view = (Inr [sample_worker 2 ''b''], demo_view)"
proof -
  have "ring_ceiling_worker_index [(0, 0)] t = Some 0" for t
    by (simp add: ring_ceiling_worker_index_def binary_search.simps Let_def)
  then show ?thesis
    by (simp add: view_select_workers_def demo_view_def view_cleanup_def view_is_failed_def failed_new_def
        consistent_hash_select_n_from_ring_def DEFAULT_HASH_POLICY_MAX_ATTEMPTS_def numeral_eq_Suc Let_def
        consider_worker_def take_worker_def sample_worker_def failed_check_def failed_cleanup_def)
qed

lemma demo_select:
  "select_block_workers (\<lambda>_. 0) 0 1 (file_block_ids demo_status) Map.empty demo_view
   = ([12 \<mapsto> [sample_worker 2 ''b''], 11 \<mapsto> [sample_worker 2 ''b'']], demo_view)"
  by (simp add: demo_select_one [unfolded One_nat_def] file_block_ids_def demo_status_def List.map_filter_def demo_block_def)

theorem enrich_block_locations_witness:
  "\<exists>locations fi. enrich_file_block_locations demo_orders demo_check (\<lambda>_. 0) 1 demo_status demo_view = (Inr (), fi, demo_view)
     \<and> fi_file_block_infos fi ! 0 = (demo_block 12 4)\<lparr>fbi_block_info
          := Some \<lparr>bi_block_id = Some 12, bi_length = Some 4, bi_locations = locations\<rparr>\<rparr>
     \<and> map loc_endpoint locations = [endpoint_of (sample_worker 2 ''b'')]"
proof -
  obtain res fi v where e: "enrich_file_block_locations demo_orders demo_check (\<lambda>_. 0) 1 demo_status demo_view = (res, fi, v)"
    by (metis prod_cases3)
  have ho: "hash_orders_ok demo_orders" by (simp add: hash_orders_ok_def demo_orders_def)
  have ch: "check_honest demo_check demo_holds" by (auto simp: check_honest_def demo_check_def demo_holds_def)
  obtain ep where ep: "endpoint_of (sample_worker 2 ''b'') = Some ep" by (simp add: endpoint_of_def sample_worker_def)
  have len: "0 < length (fi_file_block_infos demo_status)" by (simp add: demo_status_def)
  have bi: "fbi_block_info (fi_file_block_infos demo_status ! 0)
      = Some \<lparr>bi_block_id = Some 12, bi_length = Some 4, bi_locations = []\<rparr>"
    by (simp add: demo_status_def demo_block_def)
  from enrich_block_locations [OF ho ch _ demo_select e len bi, of 12]
  obtain locations where l: "res = Inr ()" "v = demo_view" "fi_file_block_infos fi ! 0 = (demo_block 12 4)\<lparr>fbi_block_info
          := Some \<lparr>bi_block_id = Some 12, bi_length = Some 4, bi_locations = locations\<rparr>\<rparr>"
    and d: "distinct (map loc_endpoint locations)" and s: "set (map loc_endpoint locations) = {Some ep}"
    by (auto simp: ep demo_holds_def demo_status_def)
  from d s have "map loc_endpoint locations = [Some ep]"
    by (cases "map loc_endpoint locations"; cases "tl (map loc_endpoint locations)") auto
  with e l ep show ?thesis by auto
qed

theorem block_ids_in_file_order_witness:
  "fi_block_ids (ensure_block_ids_from_file_block_infos demo_status) = [11, 12]"
  by (rule block_ids_in_file_order [where block_size = 4])
    (simp_all add: demo_status_def default_file_info_def demo_block_def List.map_filter_def block_pair_def upt_rec)

end
