(* ===== verification/Block_Reader.thy ===== *)
theory Block_Reader
  imports Client_Error Proto_Types "HOL-Library.Sublist"
begin

text \<open>
  The reader of one block (\<^verbatim>\<open>src/src/io/reader.rs\<close>).  The response stream of the worker is the list of
  what arrives on it; running out of items is a stream that stays silent, and a read that waits
  for it does not return (\<open>None\<close>).  The buffered source of the sequential path is the same list
  behind the background task, with a flag for a channel that was closed without the end mark.  What
  \<open>try_send\<close> answers to each acknowledgement is a function of the bytes received until then.
  Byte counts are integers: they are sums of lengths of buffers in memory.
\<close>

section \<open>Frames and acknowledgements\<close>

datatype stream_item = Data "bytes option" | End | Failed client_error

datatype chunk_action = Eof | KeepReading | Deliver bytes

definition classify_response :: "bytes option option \<Rightarrow> chunk_action" where
  "classify_response resp = (case resp of
     None \<Rightarrow> Eof
   | Some r \<Rightarrow> (let data = unwrap_or r [] in if data = [] then KeepReading else Deliver data))"

definition check_positioned_read_complete :: "i64 \<Rightarrow> i64 \<Rightarrow> i64 \<Rightarrow> unit result" where
  "check_positioned_read_complete block_id bytes_received len =
     (if bytes_received < len
      then Inl (EInternal (''short positioned read on block '' @ show_int block_id @ '': received ''
        @ show_int bytes_received @ '' of '' @ show_int len @ '' bytes (server half-closed early)''))
      else Inr ())"

definition should_send_ack :: "i64 \<Rightarrow> u32 \<Rightarrow> i64 \<Rightarrow> u32 \<Rightarrow> i64 \<Rightarrow> i64 \<Rightarrow> bool" where
  "should_send_ack bytes_since chunks_since interval_bytes interval_chunks bytes_received len \<longleftrightarrow>
     interval_bytes \<le> bytes_since \<or> interval_chunks \<le> chunks_since \<or> len \<le> bytes_received"

datatype send_outcome = Sent | ChannelFull | ChannelClosed

record read_tuning =
  rt_prefetch_window :: i32
  rt_buffer_messages :: nat
  rt_ack_interval_bytes :: i64
  rt_ack_interval_chunks :: u32

text \<open>The four settings of the configuration.\<close>

definition tuning_from_config :: "i32 \<Rightarrow> nat \<Rightarrow> i64 \<Rightarrow> u32 \<Rightarrow> read_tuning" where
  "tuning_from_config prefetch buffers ack_bytes ack_chunks =
     \<lparr>rt_prefetch_window = prefetch, rt_buffer_messages = max buffers 1,
      rt_ack_interval_bytes = max ack_bytes 0, rt_ack_interval_chunks = max ack_chunks 1\<rparr>"

section \<open>The reader\<close>

text \<open>
  \<open>br_items\<close> and \<open>br_closed\<close> are the source; \<open>br_tx\<close> says whether the request half is open and
  \<open>br_acks\<close> holds the offsets acknowledged on it, oldest first.
\<close>

record block_reader =
  br_block_id :: i64
  br_offset :: i64
  br_length :: i64
  br_bytes_received :: i64
  br_tx :: bool
  br_acks :: "i64 list"
  br_items :: "stream_item list"
  br_closed :: bool
  br_bytes_since_ack :: i64
  br_chunks_since_ack :: u32
  br_ack_interval_bytes :: i64
  br_ack_interval_chunks :: u32

definition open_direct :: "i64 \<Rightarrow> i64 \<Rightarrow> i64 \<Rightarrow> stream_item list \<Rightarrow> block_reader" where
  "open_direct block_id offset len items =
     \<lparr>br_block_id = block_id, br_offset = offset, br_length = len, br_bytes_received = 0, br_tx = True,
      br_acks = [], br_items = items, br_closed = False, br_bytes_since_ack = 0, br_chunks_since_ack = 0,
      br_ack_interval_bytes = 0, br_ack_interval_chunks = 1\<rparr>"

text \<open>
  The background task forwards items up to the end of the stream; \<open>died\<close> is the number it forwarded
  when it was aborted, if it was.
\<close>

fun drain :: "stream_item list \<Rightarrow> stream_item list" where
  "drain [] = []"
| "drain (Data r # items) = Data r # drain items"
| "drain (End # items) = [End]"
| "drain (Failed e # items) = [Failed e]"

definition open_sequential ::
  "i64 \<Rightarrow> i64 \<Rightarrow> i64 \<Rightarrow> read_tuning \<Rightarrow> nat option \<Rightarrow> stream_item list \<Rightarrow> block_reader" where
  "open_sequential block_id offset len tuning died items =
     \<lparr>br_block_id = block_id, br_offset = offset, br_length = len, br_bytes_received = 0, br_tx = True,
      br_acks = [],
      br_items = (case died of None \<Rightarrow> drain items | Some n \<Rightarrow> take n (drain items)),
      br_closed = (died \<noteq> None), br_bytes_since_ack = 0, br_chunks_since_ack = 0,
      br_ack_interval_bytes = rt_ack_interval_bytes tuning,
      br_ack_interval_chunks = rt_ack_interval_chunks tuning\<rparr>"

definition half_close :: "block_reader \<Rightarrow> block_reader" where
  "half_close br = br\<lparr>br_tx := False\<rparr>"

definition maybe_send_ack :: "(i64 \<Rightarrow> send_outcome) \<Rightarrow> i64 \<Rightarrow> block_reader \<Rightarrow> block_reader" where
  "maybe_send_ack send delta br =
     (let br = br\<lparr>br_bytes_since_ack := br_bytes_since_ack br + delta,
                 br_chunks_since_ack := br_chunks_since_ack br + 1\<rparr>
      in if \<not> should_send_ack (br_bytes_since_ack br) (br_chunks_since_ack br) (br_ack_interval_bytes br)
               (br_ack_interval_chunks br) (br_bytes_received br) (br_length br) then br
         else if \<not> br_tx br then br
         else case send (br_bytes_received br) of
             Sent \<Rightarrow> br\<lparr>br_bytes_since_ack := 0, br_chunks_since_ack := 0,
               br_acks := br_acks br @ [br_offset br + br_bytes_received br]\<rparr>
           | ChannelFull \<Rightarrow> br
           | ChannelClosed \<Rightarrow> br)"

text \<open>The loop of \<open>read_chunk\<close>: frames without data are passed over.\<close>

fun await_frame :: "stream_item list \<Rightarrow> bool \<Rightarrow> (bytes option + client_error option) option \<times> stream_item list" where
  "await_frame [] closed = (if closed then Some (Inr None) else None, [])"
| "await_frame (End # items) closed = (Some (Inl None), items)"
| "await_frame (Failed e # items) closed = (Some (Inr (Some e)), items)"
| "await_frame (Data r # items) closed =
     (case classify_response (Some r) of
        Deliver data \<Rightarrow> (Some (Inl (Some data)), items)
      | _ \<Rightarrow> await_frame items closed)"

definition gone_error :: "block_reader \<Rightarrow> client_error" where
  "gone_error br = EInternal (''read stream drain task ended unexpectedly on block '' @ show_int (br_block_id br)
     @ '' ('' @ show_int (br_bytes_received br) @ '' of '' @ show_int (br_length br) @ '' bytes received)'')"

definition read_chunk ::
  "(i64 \<Rightarrow> send_outcome) \<Rightarrow> block_reader \<Rightarrow> (bytes option result \<times> block_reader) option" where
  "read_chunk send br =
     (if br_length br \<le> br_bytes_received br then Some (Inr None, half_close br)
      else case await_frame (br_items br) (br_closed br) of
          (None, _) \<Rightarrow> None
        | (Some (Inl None), items) \<Rightarrow> Some (Inr None, br\<lparr>br_items := items\<rparr>)
        | (Some (Inr None), items) \<Rightarrow> Some (Inl (gone_error br), br\<lparr>br_items := items\<rparr>)
        | (Some (Inr (Some e)), items) \<Rightarrow> Some (Inl e, br\<lparr>br_items := items\<rparr>)
        | (Some (Inl (Some data)), items) \<Rightarrow>
            let len = int (length data);
                br = br\<lparr>br_items := items, br_bytes_received := br_bytes_received br + len\<rparr>;
                br = maybe_send_ack send len br
            in Some (Inr (Some data), if br_length br \<le> br_bytes_received br then half_close br else br))"

lemma await_frame_shrinks: "fst (await_frame items closed) = Some (Inl (Some d)) \<Longrightarrow> length (snd (await_frame items closed)) < length items"
  by (induction items closed rule: await_frame.induct) (auto split: chunk_action.splits if_splits)

lemma maybe_send_ack_fields [simp]:
  "br_items (maybe_send_ack send n br) = br_items br"
  "br_bytes_received (maybe_send_ack send n br) = br_bytes_received br"
  "br_length (maybe_send_ack send n br) = br_length br"
  "br_offset (maybe_send_ack send n br) = br_offset br"
  "br_closed (maybe_send_ack send n br) = br_closed br"
  "br_block_id (maybe_send_ack send n br) = br_block_id br"
  by (simp_all add: maybe_send_ack_def Let_def split: send_outcome.splits)

lemma half_close_fields [simp]:
  "br_items (half_close br) = br_items br" "br_bytes_received (half_close br) = br_bytes_received br"
  "br_length (half_close br) = br_length br" "br_offset (half_close br) = br_offset br"
  "br_closed (half_close br) = br_closed br" "br_block_id (half_close br) = br_block_id br"
  "br_acks (half_close br) = br_acks br"
  by (simp_all add: half_close_def)

lemma read_chunk_cases:
  assumes "read_chunk send br = Some (Inr (Some data), br')"
  shows "br_bytes_received br < br_length br"
    and "await_frame (br_items br) (br_closed br) = (Some (Inl (Some data)), br_items br')"
    and "br_bytes_received br' = br_bytes_received br + int (length data)"
    and "br_length br' = br_length br" "br_offset br' = br_offset br" "br_closed br' = br_closed br"
    and "br_block_id br' = br_block_id br"
  using assms
  by (auto simp: read_chunk_def Let_def split: if_splits prod.splits option.splits sum.splits)

function (sequential) read_all_loop ::
  "(i64 \<Rightarrow> send_outcome) \<Rightarrow> block_reader \<Rightarrow> bytes \<Rightarrow> (bytes result \<times> block_reader) option" where
  "read_all_loop send br buf =
     (case read_chunk send br of
        None \<Rightarrow> None
      | Some (Inl e, br) \<Rightarrow> Some (Inl e, br)
      | Some (Inr None, br) \<Rightarrow> Some (Inr buf, br)
      | Some (Inr (Some chunk), br) \<Rightarrow> read_all_loop send br (buf @ chunk))"
  by pat_completeness auto
termination
proof (relation "measure (\<lambda>(_, br, _). length (br_items br))")
  fix send :: "i64 \<Rightarrow> send_outcome" and br buf x y z br' w chunk
  assume "read_chunk send br = Some x" "(y, br') = x" "y = Inr z" "z = Some chunk"
  then have "read_chunk send br = Some (Inr (Some chunk), br')" by auto
  from read_chunk_cases(2) [OF this] await_frame_shrinks [of "br_items br" "br_closed br" chunk]
  show "((send, br', buf @ chunk), send, br, buf) \<in> measure (\<lambda>(_, br, _). length (br_items br))"
    by simp
qed simp

declare read_all_loop.simps [simp del]

definition block_read_all ::
  "(i64 \<Rightarrow> send_outcome) \<Rightarrow> block_reader \<Rightarrow> (bytes result \<times> block_reader) option" where
  "block_read_all send br = map_option (\<lambda>(res, br).
     (case res of
        Inl e \<Rightarrow> Inl e
      | Inr buf \<Rightarrow> (case check_positioned_read_complete (br_block_id br) (br_bytes_received br) (br_length br) of
          Inl e \<Rightarrow> Inl e | Inr _ \<Rightarrow> Inr buf), br))
     (read_all_loop send br [])"

section \<open>What a stream delivers\<close>

fun arriving :: "stream_item list \<Rightarrow> bytes" where
  "arriving [] = []"
| "arriving (Data r # items) = unwrap_or r [] @ arriving items"
| "arriving (End # items) = []"
| "arriving (Failed e # items) = []"

definition settles :: "stream_item list \<Rightarrow> bool" where
  "settles items \<longleftrightarrow> (\<exists>x \<in> set items. case x of Data _ \<Rightarrow> False | _ \<Rightarrow> True)"

lemma classify_response_Some:
  "classify_response (Some r) = (if unwrap_or r [] = [] then KeepReading else Deliver (unwrap_or r []))"
  by (simp add: classify_response_def Let_def)

lemma await_frame_data:
  "await_frame items closed = (Some (Inl (Some d)), rest) \<Longrightarrow>
     d \<noteq> [] \<and> arriving items = d @ arriving rest \<and> (settles items \<longrightarrow> settles rest)"
  by (induction items closed rule: await_frame.induct)
    (auto simp: classify_response_Some settles_def split: if_splits)

lemma await_frame_end: "await_frame items closed = (Some (Inl None), rest) \<Longrightarrow> arriving items = []"
  by (induction items closed rule: await_frame.induct)
    (auto simp: classify_response_Some split: if_splits)

lemma await_frame_settles: "settles items \<Longrightarrow> fst (await_frame items closed) \<noteq> None"
  by (induction items closed rule: await_frame.induct)
    (auto simp: classify_response_Some settles_def split: if_splits)

lemma await_frame_arriving:
  "arriving items \<noteq> [] \<Longrightarrow> \<exists>d rest. await_frame items closed = (Some (Inl (Some d)), rest)"
  by (induction items closed rule: await_frame.induct) (auto simp: classify_response_Some)

lemma drain_arriving: "arriving (drain items) = arriving items"
  by (induction items rule: drain.induct) auto

text \<open>The loop appends what arrives and stops once the length is reached or the stream ends.\<close>

lemma read_all_loop_data:
  assumes "read_all_loop send br buf = Some (Inr data, br')"
  shows "\<exists>got rest. data = buf @ got \<and> arriving (br_items br) = got @ rest
      \<and> br_bytes_received br' = br_bytes_received br + int (length got)
      \<and> br_length br' = br_length br \<and> br_block_id br' = br_block_id br
      \<and> (br_length br \<le> br_bytes_received br' \<or> rest = [])"
  using assms
proof (induction send br buf rule: read_all_loop.induct)
  case (1 send br buf)
  show ?case
  proof (cases "\<exists>chunk br1. read_chunk send br = Some (Inr (Some chunk), br1)")
    case True
    then obtain chunk br1 where c: "read_chunk send br = Some (Inr (Some chunk), br1)" by blast
    note f = read_chunk_cases [OF c]
    have a: "arriving (br_items br) = chunk @ arriving (br_items br1)"
      using await_frame_data [OF f(2)] by simp
    have "read_all_loop send br1 (buf @ chunk) = Some (Inr data, br')"
      using 1(2) c by (simp add: read_all_loop.simps [of send br])
    then obtain got rest where "data = (buf @ chunk) @ got" "arriving (br_items br1) = got @ rest"
      "br_bytes_received br' = br_bytes_received br1 + int (length got)"
      "br_length br' = br_length br1" "br_block_id br' = br_block_id br1"
      "br_length br1 \<le> br_bytes_received br' \<or> rest = []"
      using 1(1) [OF c refl refl refl] by blast
    then show ?thesis using a f by (intro exI [of _ "chunk @ got"] exI [of _ rest]) auto
  next
    case False
    then have n: "read_chunk send br = Some (Inr None, br')" "data = buf"
      using 1(2) by (auto simp: read_all_loop.simps [of send br] split: option.splits prod.splits sum.splits)
    then have "br_length br \<le> br_bytes_received br' \<or> arriving (br_items br) = []"
      "br_bytes_received br' = br_bytes_received br" "br_length br' = br_length br" "br_block_id br' = br_block_id br"
      by (auto simp: read_chunk_def Let_def dest: await_frame_end split: if_splits prod.splits option.splits sum.splits)
    then show ?thesis using n(2) by (intro exI [of _ "[]"] exI [of _ "arriving (br_items br)"]) auto
  qed
qed

lemma read_all_loop_returns:
  assumes "settles (br_items br) \<or> br_length br \<le> br_bytes_received br + int (length (arriving (br_items br)))"
  shows "read_all_loop send br buf \<noteq> None"
  using assms
proof (induction send br buf rule: read_all_loop.induct)
  case (1 send br buf)
  have "read_chunk send br \<noteq> None"
    using 1(2) await_frame_settles [of "br_items br" "br_closed br"]
      await_frame_arriving [of "br_items br" "br_closed br"]
    by (cases "arriving (br_items br) = []")
      (auto simp: read_chunk_def Let_def split: prod.splits option.splits sum.splits)
  moreover have "read_all_loop send br1 (buf @ chunk) \<noteq> None"
    if c: "read_chunk send br = Some (Inr (Some chunk), br1)" for chunk br1
    using 1(1) [OF c refl refl refl] 1(2) read_chunk_cases [OF c] await_frame_data [OF read_chunk_cases(2) [OF c]]
    by auto
  ultimately show ?case
    by (auto simp: read_all_loop.simps [of send br] split: option.splits sum.splits)
qed

text \<open>No error while data that was asked for is still to come.\<close>

lemma read_all_loop_complete:
  assumes "br_length br \<le> br_bytes_received br + int (length (arriving (br_items br)))"
  shows "\<exists>data br'. read_all_loop send br buf = Some (Inr data, br')"
  using assms
proof (induction send br buf rule: read_all_loop.induct)
  case (1 send br buf)
  show ?case
  proof (cases "br_length br \<le> br_bytes_received br")
    case True
    then show ?thesis by (simp add: read_all_loop.simps [of send br] read_chunk_def)
  next
    case False
    then have "arriving (br_items br) \<noteq> []" using 1(2) by auto
    then obtain d rest where "await_frame (br_items br) (br_closed br) = (Some (Inl (Some d)), rest)"
      using await_frame_arriving by blast
    then obtain br1 where c: "read_chunk send br = Some (Inr (Some d), br1)"
      using False by (simp add: read_chunk_def Let_def)
    have "\<exists>data br'. read_all_loop send br1 (buf @ d) = Some (Inr data, br')"
      using 1(1) [OF c refl refl refl] 1(2) read_chunk_cases [OF c] await_frame_data [OF read_chunk_cases(2) [OF c]]
      by auto
    then show ?thesis by (simp add: read_all_loop.simps [of send br] c)
  qed
qed

lemma block_read_all_exact:
  assumes "prefix (arriving items) content" and "int (length content) = len"
  shows "block_read_all send (open_direct b off len items) = Some (res, br)
      \<Longrightarrow> res = Inr content \<or> (\<exists>e. res = Inl e)"
    and "arriving items = content
      \<Longrightarrow> \<exists>br. block_read_all send (open_direct b off len items) = Some (Inr content, br)"
proof -
  let ?br = "open_direct b off len items"
  have br: "br_items ?br = items" "br_bytes_received ?br = 0" "br_length ?br = len"
    by (simp_all add: open_direct_def)
  have data: "data = content \<and> len \<le> br_bytes_received br'"
    if l: "read_all_loop send ?br [] = Some (Inr data, br')" and n: "\<not> br_bytes_received br' < len" for data br'
  proof -
    obtain rest where r: "arriving items = data @ rest" "br_bytes_received br' = int (length data)"
      using read_all_loop_data [OF l] br by auto
    then have "prefix data content" using assms(1) by (metis append_prefixD)
    moreover have "length content \<le> length data" using r(2) n assms(2) by simp
    ultimately show ?thesis using n by (auto simp: prefix_def)
  qed
  have len: "br_length br' = len" if "read_all_loop send ?br [] = Some (Inr data, br')" for data br'
    using read_all_loop_data [OF that] br by auto
  have 1: "res = Inr content \<or> (\<exists>e. res = Inl e)" if eq: "block_read_all send ?br = Some (res, br')" for res br'
  proof -
    obtain r where l: "read_all_loop send ?br [] = Some (r, br')" using eq by (auto simp: block_read_all_def)
    show ?thesis
    proof (cases r)
      case (Inr d)
      then show ?thesis
        using eq l data [of d br'] len [of d br']
        by (cases "br_bytes_received br' < len") (auto simp: block_read_all_def check_positioned_read_complete_def)
    qed (use eq l in \<open>auto simp: block_read_all_def\<close>)
  qed
  have 2: "\<exists>br'. block_read_all send ?br = Some (Inr content, br')" if all: "arriving items = content"
  proof -
    obtain d br' where l: "read_all_loop send ?br [] = Some (Inr d, br')"
      using read_all_loop_complete [of ?br send "[]"] all assms(2) br by auto
    then obtain rest where "arriving items = d @ rest" "br_bytes_received br' = int (length d)" "len \<le> br_bytes_received br' \<or> rest = []"
      using read_all_loop_data [OF l] br by auto
    then have "\<not> br_bytes_received br' < len" using all assms(2) by auto
    then show ?thesis
      using l data [OF l] len [OF l] by (simp add: block_read_all_def check_positioned_read_complete_def)
  qed
  from 1 show "block_read_all send (open_direct b off len items) = Some (res, br)
      \<Longrightarrow> res = Inr content \<or> (\<exists>e. res = Inl e)" .
  from 2 show "arriving items = content
      \<Longrightarrow> \<exists>br. block_read_all send (open_direct b off len items) = Some (Inr content, br)" .
qed

lemma block_read_all_returns:
  "settles items \<Longrightarrow> block_read_all send (open_direct b off len items) \<noteq> None"
  using read_all_loop_returns [of "open_direct b off len items" send "[]"]
  by (simp add: block_read_all_def open_direct_def)

text \<open>
  (C4) A block read is exact or an error.  When what arrives on the stream is a part of the
  requested range from its start on, a read that returns data returns the whole range,
  whatever empty frames are in between and whatever happens to the acknowledgements; if all of it
  arrives the read succeeds, and if the stream ends or fails the read returns.
\<close>

theorem block_read_exact:
  assumes "prefix (arriving items) content" and "int (length content) = len"
  shows "(\<forall>res br. block_read_all send (open_direct b off len items) = Some (res, br)
          \<longrightarrow> res = Inr content \<or> (\<exists>e. res = Inl e))
    \<and> (arriving items = content \<longrightarrow> (\<exists>br. block_read_all send (open_direct b off len items) = Some (Inr content, br)))
    \<and> (settles items \<longrightarrow> block_read_all send (open_direct b off len items) \<noteq> None)"
  using block_read_all_exact [OF assms] block_read_all_returns by blast

theorem block_read_exact_witness:
  "\<exists>br. block_read_all (\<lambda>_. ChannelFull) (open_direct 9 4 3 [Data None, Data (Some [1, 2]), Data (Some []), Data (Some [3])])
     = Some (Inr [1, 2, 3], br)"
  using block_read_exact [of "[Data None, Data (Some [1, 2]), Data (Some []), Data (Some [3])]" "[1, 2, 3]" 3
      "\<lambda>_. ChannelFull" 9 4]
  by auto

section \<open>Acknowledgements\<close>

text \<open>
  The acknowledged offsets grow strictly and never run ahead of what was received, however many
  are dropped because the channel is full.
\<close>

definition acks_ok :: "block_reader \<Rightarrow> bool" where
  "acks_ok br \<longleftrightarrow> sorted_wrt (<) (br_acks br) \<and> (\<forall>a \<in> set (br_acks br). br_offset br < a \<and> a \<le> br_offset br + br_bytes_received br)"

lemma strict_sorted_snoc: "sorted_wrt (<) (xs @ [y :: int]) \<longleftrightarrow> sorted_wrt (<) xs \<and> (\<forall>x \<in> set xs. x < y)"
  by (simp add: sorted_wrt_append)

lemma read_chunk_next:
  assumes "read_chunk send br = Some (Inr (Some data), br')"
  obtains br1 where "br1 = br\<lparr>br_items := br_items br', br_bytes_received := br_bytes_received br + int (length data)\<rparr>"
    and "br' = maybe_send_ack send (int (length data)) br1 \<or> br' = half_close (maybe_send_ack send (int (length data)) br1)"
    and "br_length br \<le> br_bytes_received br' \<Longrightarrow> br' = half_close (maybe_send_ack send (int (length data)) br1)"
proof -
  note f = read_chunk_cases [OF assms]
  define br1 where "br1 = br\<lparr>br_items := br_items br', br_bytes_received := br_bytes_received br + int (length data)\<rparr>"
  have "br' = (if br_length br \<le> br_bytes_received br + int (length data)
      then half_close (maybe_send_ack send (int (length data)) br1) else maybe_send_ack send (int (length data)) br1)"
    using assms f(1,2) unfolding br1_def read_chunk_def Let_def by simp
  then show ?thesis using that [OF br1_def] f(3) by (auto split: if_splits)
qed

lemma read_chunk_acks:
  assumes "acks_ok br" "0 \<le> br_bytes_received br" "read_chunk send br = Some (Inr (Some data), br')"
  shows "acks_ok br' \<and> 0 \<le> br_bytes_received br'"
proof -
  note f = read_chunk_cases [OF assms(3)]
  have d: "data \<noteq> []" using await_frame_data [OF f(2)] by simp
  obtain br1 where br1: "br1 = br\<lparr>br_items := br_items br', br_bytes_received := br_bytes_received br + int (length data)\<rparr>"
    and b: "br' = maybe_send_ack send (int (length data)) br1 \<or> br' = half_close (maybe_send_ack send (int (length data)) br1)"
    using read_chunk_next [OF assms(3)] by metis
  have "br_acks br' = br_acks (maybe_send_ack send (int (length data)) br1)"
    using arg_cong [of _ _ br_acks] b by fastforce
  also have "\<dots> \<in> {br_acks br, br_acks br @ [br_offset br + br_bytes_received br']}"
    by (simp add: maybe_send_ack_def Let_def br1 f(3) split: send_outcome.splits)
  finally have acks: "br_acks br' \<in> {br_acks br, br_acks br @ [br_offset br + br_bytes_received br']}" .
  define k where "k = br_bytes_received br' - br_bytes_received br"
  have k: "0 < k" "br_bytes_received br' = br_bytes_received br + k" using d f(3) by (simp_all add: k_def)
  have old: "br_offset br < a" "a < br_offset br + (br_bytes_received br + k)" if "a \<in> set (br_acks br)" for a
    using assms(1) k(1) that by (force simp: acks_ok_def)+
  have s: "sorted_wrt (<) (br_acks br)" using assms(1) by (simp add: acks_ok_def)
  from acks show ?thesis
    using k assms(2) f(5) old s by (auto simp: acks_ok_def strict_sorted_snoc less_imp_le)
qed

text \<open>With acknowledgements that always go out, the last one acknowledges everything received.\<close>

lemma read_chunk_final_ack:
  assumes "\<And>n. send n = Sent" "br_tx br" "read_chunk send br = Some (Inr (Some data), br')"
    and "br_length br \<le> br_bytes_received br'"
  shows "last (br_acks br') = br_offset br + br_bytes_received br' \<and> \<not> br_tx br'"
proof -
  note f = read_chunk_cases [OF assms(3)]
  obtain br1 where br1: "br1 = br\<lparr>br_items := br_items br', br_bytes_received := br_bytes_received br + int (length data)\<rparr>"
    and b: "br' = half_close (maybe_send_ack send (int (length data)) br1)"
    using read_chunk_next [OF assms(3)] assms(4) by metis
  have "br_acks br' = br_acks (maybe_send_ack send (int (length data)) br1)" "\<not> br_tx br'"
    using b [THEN arg_cong, of br_acks] b [THEN arg_cong, of br_tx] by (simp_all add: half_close_def)
  moreover have "br_acks (maybe_send_ack send (int (length data)) br1) = br_acks br @ [br_offset br + br_bytes_received br']"
    using assms(1,2,4) f(3) by (simp add: maybe_send_ack_def should_send_ack_def Let_def br1)
  ultimately show ?thesis by simp
qed

end
