(* ===== verification/Worker_Pool.thy ===== *)
theory Worker_Pool
  imports Client_Error Proto_Types Rust_Text
begin

text \<open>
  The pool of worker connections (\<^verbatim>\<open>src/src/client/worker.rs\<close>).  A client is the handle of its
  connection, the address it was dialled at and the generation the pool gave it.  Dialling,
  authentication included, is a parameter that fails or returns a handle: both have deadlines.
  An operation that runs alone is a function on the pool; callers that race for one channel
  are a step relation, in which each takes the channel's mutex before it looks.
\<close>

section \<open>The pool\<close>

record 'h worker_client =
  wc_inner :: 'h
  wc_addr :: string
  wc_generation :: u64

text \<open>A mutex is its identity: dropping it from the map does not release its holder.\<close>

record 'h worker_pool =
  wp_clients :: "string \<rightharpoonup> 'h worker_client"
  wp_reconnect_locks :: "string \<rightharpoonup> nat"
  wp_next_lock :: nat
  wp_addr_rr :: "string \<rightharpoonup> u64"
  wp_pool_size :: nat
  wp_next_generation :: u64

definition worker_connect ::
  "(string \<Rightarrow> 'e \<Rightarrow> 'h result \<times> 'e) \<Rightarrow> string \<Rightarrow> 'e \<Rightarrow> 'h worker_client result \<times> 'e" where
  "worker_connect dial addr e =
     apfst (map_sum id (\<lambda>h. \<lparr>wc_inner = h, wc_addr = addr, wc_generation = 0\<rparr>)) (dial addr e)"

definition pool_new :: "nat \<Rightarrow> 'h worker_pool" where
  "pool_new worker_connection_pool_size =
     \<lparr>wp_clients = Map.empty, wp_reconnect_locks = Map.empty, wp_next_lock = 0, wp_addr_rr = Map.empty,
      wp_pool_size = max worker_connection_pool_size 1, wp_next_generation = 1\<rparr>"

definition slot_key :: "nat \<Rightarrow> string \<Rightarrow> nat \<Rightarrow> string" where
  "slot_key pool_size addr slot =
     (if pool_size \<le> 1 then addr else addr @ ''#'' @ show_nat slot)"

definition next_slot :: "string \<Rightarrow> 'h worker_pool \<Rightarrow> nat \<times> 'h worker_pool" where
  "next_slot addr p =
     (if wp_pool_size p \<le> 1 then (0, p)
      else let c = unwrap_or (wp_addr_rr p addr) 0
           in (unat (c mod of_nat (wp_pool_size p)), p\<lparr>wp_addr_rr := (wp_addr_rr p)(addr \<mapsto> c + 1)\<rparr>))"

definition insert_client :: "string \<Rightarrow> 'h worker_client \<Rightarrow> 'h worker_pool \<Rightarrow> 'h worker_pool" where
  "insert_client key client p = p\<lparr>wp_clients := (wp_clients p)(key \<mapsto> client)\<rparr>"

definition remove_client :: "string \<Rightarrow> 'h worker_pool \<Rightarrow> 'h worker_pool" where
  "remove_client key p = p\<lparr>wp_clients := (wp_clients p)(key := None)\<rparr>"

definition reconnect_lock_for :: "string \<Rightarrow> 'h worker_pool \<Rightarrow> nat \<times> 'h worker_pool" where
  "reconnect_lock_for key p =
     (case wp_reconnect_locks p key of
        Some m \<Rightarrow> (m, p)
      | None \<Rightarrow> (wp_next_lock p, p\<lparr>wp_reconnect_locks := (wp_reconnect_locks p)(key \<mapsto> wp_next_lock p),
                    wp_next_lock := wp_next_lock p + 1\<rparr>))"

text \<open>A fresh client takes the next generation and enters the map.\<close>

definition dial_into ::
  "(string \<Rightarrow> 'e \<Rightarrow> 'h result \<times> 'e) \<Rightarrow> string \<Rightarrow> string \<Rightarrow> 'h worker_pool \<Rightarrow> 'e
   \<Rightarrow> 'h worker_client result \<times> 'h worker_pool \<times> 'e" where
  "dial_into dial key connect_addr p e =
     (case worker_connect dial connect_addr e of
        (Inl err, e) \<Rightarrow> (Inl err, p, e)
      | (Inr client, e) \<Rightarrow>
          let client = client\<lparr>wc_generation := wp_next_generation p\<rparr>;
              p = p\<lparr>wp_next_generation := wp_next_generation p + 1\<rparr>
          in (Inr client, insert_client key client p, e))"

definition acquire_by_key ::
  "(string \<Rightarrow> 'e \<Rightarrow> 'h result \<times> 'e) \<Rightarrow> string \<Rightarrow> string \<Rightarrow> 'h worker_pool \<Rightarrow> 'e
   \<Rightarrow> 'h worker_client result \<times> 'h worker_pool \<times> 'e" where
  "acquire_by_key dial key connect_addr p e =
     (case wp_clients p key of
        Some client \<Rightarrow> (Inr client, p, e)
      | None \<Rightarrow> dial_into dial key connect_addr (snd (reconnect_lock_for key p)) e)"

definition pool_acquire ::
  "(string \<Rightarrow> 'e \<Rightarrow> 'h result \<times> 'e) \<Rightarrow> string \<Rightarrow> 'h worker_pool \<Rightarrow> 'e
   \<Rightarrow> 'h worker_client result \<times> 'h worker_pool \<times> 'e" where
  "pool_acquire dial addr p e =
     (let (slot, p) = next_slot addr p
      in acquire_by_key dial (slot_key (wp_pool_size p) addr slot) addr p e)"

definition pool_invalidate :: "string \<Rightarrow> 'h worker_pool \<Rightarrow> 'h worker_pool" where
  "pool_invalidate addr p =
     (let keys = map (slot_key (wp_pool_size p) addr) [0 ..< wp_pool_size p];
          p = p\<lparr>wp_clients := (\<lambda>k. if k \<in> set keys then None else wp_clients p k)\<rparr>;
          p = p\<lparr>wp_reconnect_locks := (\<lambda>k. if k \<in> set keys then None else wp_reconnect_locks p k)\<rparr>
      in if 1 < wp_pool_size p then p\<lparr>wp_addr_rr := (wp_addr_rr p)(addr := None)\<rparr> else p)"

definition refreshed :: "string \<Rightarrow> u64 \<Rightarrow> 'h worker_pool \<Rightarrow> 'h worker_client option" where
  "refreshed map_key stale_generation p =
     (case wp_clients p map_key of
        Some client \<Rightarrow> if stale_generation < wc_generation client then Some client else None
      | None \<Rightarrow> None)"

definition reconnect_by_key ::
  "(string \<Rightarrow> 'e \<Rightarrow> 'h result \<times> 'e) \<Rightarrow> string \<Rightarrow> string \<Rightarrow> u64 \<Rightarrow> 'h worker_pool \<Rightarrow> 'e
   \<Rightarrow> 'h worker_client result \<times> 'h worker_pool \<times> 'e" where
  "reconnect_by_key dial map_key connect_addr stale_generation p e =
     (let p = snd (reconnect_lock_for map_key p)
      in case refreshed map_key stale_generation p of
           Some client \<Rightarrow> (Inr client, p, e)
         | None \<Rightarrow> dial_into dial map_key connect_addr (remove_client map_key p) e)"

definition holds_generation :: "'h worker_pool \<Rightarrow> u64 \<Rightarrow> string \<Rightarrow> bool" where
  "holds_generation p g key = (case wp_clients p key of Some c \<Rightarrow> wc_generation c = g | None \<Rightarrow> False)"

definition reconnect_if_stale ::
  "(string \<Rightarrow> 'e \<Rightarrow> 'h result \<times> 'e) \<Rightarrow> string \<Rightarrow> u64 \<Rightarrow> 'h worker_pool \<Rightarrow> 'e
   \<Rightarrow> 'h worker_client result \<times> 'h worker_pool \<times> 'e" where
  "reconnect_if_stale dial addr stale_generation p e =
     (if wp_pool_size p \<le> 1 then reconnect_by_key dial addr addr stale_generation p e
      else case find (holds_generation p stale_generation)
                  (map (slot_key (wp_pool_size p) addr) [0 ..< wp_pool_size p]) of
          Some key \<Rightarrow> reconnect_by_key dial key addr stale_generation p e
        | None \<Rightarrow> pool_acquire dial addr p e)"

definition pool_reconnect ::
  "(string \<Rightarrow> 'e \<Rightarrow> 'h result \<times> 'e) \<Rightarrow> string \<Rightarrow> 'h worker_pool \<Rightarrow> 'e
   \<Rightarrow> 'h worker_client result \<times> 'h worker_pool \<times> 'e" where
  "pool_reconnect dial addr p e =
     (let (slot, p) = next_slot addr p
      in reconnect_by_key dial (slot_key (wp_pool_size p) addr slot) addr (- 1) p e)"

section \<open>What the pool keeps\<close>

lemma show_nat_no_hash: "CHR ''#'' \<notin> set (show_nat n)"
  using show_nat_digits [of "CHR ''#''" n] by (auto simp: digit_code_def)

lemma append_last_inject:
  "x \<notin> set ys \<Longrightarrow> x \<notin> set ys' \<Longrightarrow> xs @ x # ys = xs' @ x # ys' \<Longrightarrow> xs = xs' \<and> ys = ys'"
proof (induction xs arbitrary: xs')
  case Nil
  then show ?case by (cases xs') auto
next
  case (Cons y xs)
  then show ?case by (cases xs') auto
qed

lemma slot_key_inject:
  assumes "slot_key n a s = slot_key n a' s'" "s < n" "s' < n"
  shows "a = a' \<and> s = s'"
proof (cases "n \<le> 1")
  case False
  then have "a @ CHR ''#'' # show_nat s = a' @ CHR ''#'' # show_nat s'"
    using assms(1) by (simp add: slot_key_def)
  then show ?thesis
    using append_last_inject [OF show_nat_no_hash show_nat_no_hash] by (metis show_nat_inject)
qed (use assms in \<open>auto simp: slot_key_def\<close>)

text \<open>
  Every cached client sits at a slot of its own address and carries a generation that was handed
  out and that no other cached client carries.
\<close>

definition pool_ok :: "'h worker_pool \<Rightarrow> bool" where
  "pool_ok p \<longleftrightarrow> 1 \<le> wp_pool_size p \<and> wp_pool_size p < 2 ^ 64 \<and> 0 < wp_next_generation p
     \<and> (\<forall>key c. wp_clients p key = Some c \<longrightarrow>
          0 < wc_generation c \<and> wc_generation c < wp_next_generation p
          \<and> (\<exists>slot < wp_pool_size p. key = slot_key (wp_pool_size p) (wc_addr c) slot))
     \<and> (\<forall>key key' c c'. wp_clients p key = Some c \<longrightarrow> wp_clients p key' = Some c'
          \<longrightarrow> wc_generation c = wc_generation c' \<longrightarrow> key = key')"

lemma pool_okD:
  assumes "pool_ok p"
  shows "1 \<le> wp_pool_size p" "wp_pool_size p < 2 ^ 64" "0 < wp_next_generation p"
    and "wp_clients p key = Some c \<Longrightarrow> 0 < wc_generation c \<and> wc_generation c < wp_next_generation p"
    and "wp_clients p key = Some c \<Longrightarrow> \<exists>slot < wp_pool_size p. key = slot_key (wp_pool_size p) (wc_addr c) slot"
    and "wp_clients p key = Some c \<Longrightarrow> wp_clients p key' = Some c' \<Longrightarrow>
           wc_generation c = wc_generation c' \<Longrightarrow> key = key'"
  using assms by (auto simp: pool_ok_def)

lemma pool_new_ok: "n < 2 ^ 64 \<Longrightarrow> pool_ok (pool_new n)"
  by (simp add: pool_ok_def pool_new_def)

text \<open>Fewer clients, and any locks and counters, keep it.\<close>

lemma pool_ok_shrink:
  assumes "pool_ok p" "wp_pool_size p' = wp_pool_size p" "wp_next_generation p' = wp_next_generation p"
    and "\<And>k c. wp_clients p' k = Some c \<Longrightarrow> wp_clients p k = Some c"
  shows "pool_ok p'"
  using assms unfolding pool_ok_def by metis

lemma next_slot_fields [simp]:
  "wp_clients (snd (next_slot addr p)) = wp_clients p"
  "wp_pool_size (snd (next_slot addr p)) = wp_pool_size p"
  "wp_next_generation (snd (next_slot addr p)) = wp_next_generation p"
  by (simp_all add: next_slot_def Let_def)

lemma lock_fields [simp]:
  "wp_clients (snd (reconnect_lock_for key p)) = wp_clients p"
  "wp_pool_size (snd (reconnect_lock_for key p)) = wp_pool_size p"
  "wp_next_generation (snd (reconnect_lock_for key p)) = wp_next_generation p"
  by (simp_all add: reconnect_lock_for_def split: option.splits)

lemma next_slot_bound: "pool_ok p \<Longrightarrow> fst (next_slot addr p) < wp_pool_size p"
proof -
  assume ok: "pool_ok p"
  have "0 < unat (of_nat (wp_pool_size p) :: u64)"
    using pool_okD(1,2) [OF ok] by (simp add: unat_of_nat)
  then show ?thesis
    using pool_okD(1,2) [OF ok] by (auto simp: next_slot_def Let_def unat_mod_distrib unat_of_nat)
qed

lemma next_slot_ok: "pool_ok p \<Longrightarrow> pool_ok (snd (next_slot addr p))"
  by (rule pool_ok_shrink) simp_all

lemma lock_ok: "pool_ok p \<Longrightarrow> pool_ok (snd (reconnect_lock_for key p))"
  by (rule pool_ok_shrink) simp_all

lemma remove_client_ok: "pool_ok p \<Longrightarrow> pool_ok (remove_client key p)"
  by (rule pool_ok_shrink) (auto simp: remove_client_def split: if_splits)

lemma pool_invalidate_ok: "pool_ok p \<Longrightarrow> pool_ok (pool_invalidate addr p)"
  by (rule pool_ok_shrink [of p]) (auto simp: pool_invalidate_def Let_def split: if_splits)

text \<open>Every operation hands out a client of the address, keeps the invariant and dials at most once.\<close>

definition pool_result ::
  "string \<Rightarrow> 'h worker_pool \<Rightarrow> 'h worker_client result \<times> 'h worker_pool \<times> 'e \<Rightarrow> bool" where
  "pool_result addr p = (\<lambda>(res, p', _). pool_ok p' \<and> wp_pool_size p' = wp_pool_size p
     \<and> wp_next_generation p \<le> wp_next_generation p'
     \<and> unat (wp_next_generation p') \<le> unat (wp_next_generation p) + 1
     \<and> (\<forall>c. res = Inr c \<longrightarrow> wc_addr c = addr \<and> wc_generation c < wp_next_generation p'
          \<and> (\<exists>key. wp_clients p' key = Some c)))"

lemma next_generation_grows:
  "unat (g :: u64) + 1 < 2 ^ 64 \<Longrightarrow> g < g + 1 \<and> unat (g + 1) = unat g + 1"
  using unat_add_nowrap [of g 1] by (simp add: word_less_nat_alt)

lemma dial_into_result:
  assumes "pool_ok p" "unat (wp_next_generation p) + 1 < 2 ^ 64" "wp_clients p key = None"
    and "slot < wp_pool_size p" "key = slot_key (wp_pool_size p) addr slot"
  shows "pool_result addr p (dial_into dial key addr p e)"
    and "fst (dial_into dial key addr p e) = Inr c \<Longrightarrow> wc_generation c = wp_next_generation p"
proof -
  note grow = next_generation_grows [OF assms(2)]
  have old: "wc_generation c < wp_next_generation p + 1" "wc_generation c \<noteq> wp_next_generation p"
    "wp_next_generation p \<noteq> wc_generation c" if "wp_clients p k = Some c" for k c
    using pool_okD(4) [OF assms(1) that] grow by auto
  have ok: "pool_ok (insert_client key \<lparr>wc_inner = h, wc_addr = addr, wc_generation = wp_next_generation p\<rparr>
      (p\<lparr>wp_next_generation := wp_next_generation p + 1\<rparr>))" for h
    using assms(1,4,5) conjunct1 [OF grow] old unfolding pool_ok_def insert_client_def
    by (auto dest: order.strict_trans)
  then show "pool_result addr p (dial_into dial key addr p e)"
    using assms(1) grow
    by (cases "dial addr e"; cases "fst (dial addr e)")
      (auto simp: pool_result_def dial_into_def worker_connect_def insert_client_def Let_def less_imp_le)
  show "fst (dial_into dial key addr p e) = Inr c \<Longrightarrow> wc_generation c = wp_next_generation p"
    by (auto simp: dial_into_def worker_connect_def Let_def split: prod.splits sum.splits)
qed

lemma hit_result:
  assumes "pool_ok p" "wp_clients p key = Some c" "slot < wp_pool_size p"
    and "key = slot_key (wp_pool_size p) addr slot"
  shows "pool_result addr p (Inr c, p, e)"
proof -
  have "wc_addr c = addr"
    using pool_okD(5) [OF assms(1,2)] assms(3,4) slot_key_inject by blast
  then show ?thesis using pool_okD(4) [OF assms(1,2)] assms(1,2) by (auto simp: pool_result_def)
qed

lemma pool_result_cong:
  "pool_result addr p r \<Longrightarrow> wp_pool_size p = wp_pool_size q
   \<Longrightarrow> wp_next_generation p = wp_next_generation q \<Longrightarrow> pool_result addr q r"
  by (auto simp: pool_result_def)

lemma acquire_by_key_result:
  assumes "pool_ok p" "unat (wp_next_generation p) + 1 < 2 ^ 64"
    and "slot < wp_pool_size p" "key = slot_key (wp_pool_size p) addr slot"
  shows "pool_result addr p (acquire_by_key dial key addr p e)"
proof (cases "wp_clients p key")
  case None
  have "pool_result addr (snd (reconnect_lock_for key p)) (acquire_by_key dial key addr p e)"
    unfolding acquire_by_key_def None option.case
    by (rule dial_into_result(1) [where slot = slot]) (use assms lock_ok None in auto)
  then show ?thesis by (rule pool_result_cong) simp_all
next
  case (Some c)
  then show ?thesis using hit_result [OF assms(1) Some assms(3,4)] by (simp add: acquire_by_key_def)
qed

lemma pool_acquire_result:
  assumes "pool_ok p" "unat (wp_next_generation p) + 1 < 2 ^ 64"
  shows "pool_result addr p (pool_acquire dial addr p e)"
proof -
  have "pool_result addr (snd (next_slot addr p)) (pool_acquire dial addr p e)"
    unfolding pool_acquire_def Let_def case_prod_beta
    by (rule acquire_by_key_result [where slot = "fst (next_slot addr p)"])
      (use assms next_slot_ok next_slot_bound in auto)
  then show ?thesis by (rule pool_result_cong) simp_all
qed

lemma reconnect_by_key_result:
  assumes "pool_ok p" "unat (wp_next_generation p) + 1 < 2 ^ 64"
    and "slot < wp_pool_size p" "key = slot_key (wp_pool_size p) addr slot"
  shows "pool_result addr p (reconnect_by_key dial key addr stale p e)"
    and "stale < wp_next_generation p \<Longrightarrow> fst (reconnect_by_key dial key addr stale p e) = Inr c
           \<Longrightarrow> stale < wc_generation c"
proof -
  let ?p = "snd (reconnect_lock_for key p)"
  let ?q = "remove_client key ?p"
  have q: "wp_clients ?q key = None" "wp_pool_size ?q = wp_pool_size p"
    "wp_next_generation ?q = wp_next_generation p" by (simp_all add: remove_client_def)
  have dial: "pool_result addr ?q (dial_into dial key addr ?q e)"
    "fst (dial_into dial key addr ?q e) = Inr c \<Longrightarrow> wc_generation c = wp_next_generation ?q" for c
    by (rule dial_into_result [where slot = slot];
        use assms q lock_ok remove_client_ok in \<open>auto simp: lock_ok\<close>)+
  show "pool_result addr p (reconnect_by_key dial key addr stale p e)"
  proof (cases "refreshed key stale ?p")
    case None
    then show ?thesis using pool_result_cong [OF dial(1)] q by (simp add: reconnect_by_key_def Let_def)
  next
    case (Some c)
    then have "wp_clients ?p key = Some c" by (simp add: refreshed_def split: option.splits if_splits)
    then have "pool_result addr ?p (Inr c, ?p, e)"
      using hit_result [OF lock_ok [OF assms(1)]] assms(3,4) by simp
    then have "pool_result addr p (Inr c, ?p, e)" by (rule pool_result_cong) simp_all
    with Some show ?thesis by (simp add: reconnect_by_key_def Let_def)
  qed
  show "stale < wp_next_generation p \<Longrightarrow> fst (reconnect_by_key dial key addr stale p e) = Inr c
      \<Longrightarrow> stale < wc_generation c"
    using dial(2) q(3)
    by (auto simp: reconnect_by_key_def Let_def refreshed_def split: option.splits if_splits)
qed


lemma reconnect_if_stale_result:
  assumes "pool_ok p" "unat (wp_next_generation p) + 1 < 2 ^ 64"
  shows "pool_result addr p (reconnect_if_stale dial addr stale p e)"
    and "stale < wp_next_generation p \<Longrightarrow> fst (reconnect_if_stale dial addr stale p e) = Inr c
           \<Longrightarrow> wc_generation c \<noteq> stale"
proof -
  let ?keys = "map (slot_key (wp_pool_size p) addr) [0 ..< wp_pool_size p]"
  have 1: "pool_result addr p (reconnect_if_stale dial addr stale p e)
      \<and> (stale < wp_next_generation p \<longrightarrow> fst (reconnect_if_stale dial addr stale p e) = Inr c
           \<longrightarrow> wc_generation c \<noteq> stale)" for c
  proof (cases "wp_pool_size p \<le> 1")
    case True
    then show ?thesis
      using reconnect_by_key_result(1) [OF assms, of 0 addr addr dial stale e] pool_okD(1) [OF assms(1)]
        reconnect_by_key_result(2) [OF assms, of 0 addr addr stale dial e c]
      by (auto simp: reconnect_if_stale_def slot_key_def)
  next
    case False
    show ?thesis
    proof (cases "find (holds_generation p stale) ?keys")
      case None
      have eq: "reconnect_if_stale dial addr stale p e = pool_acquire dial addr p e"
        using False None by (simp add: reconnect_if_stale_def)
      have free: "\<not> holds_generation p stale (slot_key (wp_pool_size p) addr s)" if "s < wp_pool_size p" for s
        using None that by (auto simp: find_None_iff)
      have "wc_generation c \<noteq> stale" if "stale < wp_next_generation p" "fst (pool_acquire dial addr p e) = Inr c"
      proof -
        let ?s = "fst (next_slot addr p)" and ?q = "snd (next_slot addr p)"
        let ?k = "slot_key (wp_pool_size p) addr ?s"
        have "fst (acquire_by_key dial ?k addr ?q e) = Inr c"
          using that(2) by (simp add: pool_acquire_def Let_def case_prod_beta)
        then show ?thesis
          using free [OF next_slot_bound [OF assms(1), of addr]] that(1)
          by (cases "dial addr e"; cases "fst (dial addr e)")
            (auto simp: acquire_by_key_def dial_into_def worker_connect_def holds_generation_def Let_def
              split: option.splits)
      qed
      then show ?thesis using eq pool_acquire_result [OF assms] by simp
    next
      case (Some key)
      then obtain s where "s < wp_pool_size p" "key = slot_key (wp_pool_size p) addr s"
        by (auto simp: find_Some_iff)
      then show ?thesis
        using reconnect_by_key_result(1) [OF assms, of s key addr dial stale e] False Some
          reconnect_by_key_result(2) [OF assms, of s key addr stale dial e c]
        by (auto simp: reconnect_if_stale_def)
    qed
  qed
  from 1 show "pool_result addr p (reconnect_if_stale dial addr stale p e)" by blast
  from 1 show "stale < wp_next_generation p \<Longrightarrow> fst (reconnect_if_stale dial addr stale p e) = Inr c
      \<Longrightarrow> wc_generation c \<noteq> stale" by blast
qed

lemma pool_reconnect_result:
  assumes "pool_ok p" "unat (wp_next_generation p) + 1 < 2 ^ 64"
  shows "pool_result addr p (pool_reconnect dial addr p e)"
proof -
  have "pool_result addr (snd (next_slot addr p)) (pool_reconnect dial addr p e)"
    unfolding pool_reconnect_def Let_def case_prod_beta
    by (rule reconnect_by_key_result(1) [where slot = "fst (next_slot addr p)"])
      (use assms next_slot_ok next_slot_bound in auto)
  then show ?thesis by (rule pool_result_cong) simp_all
qed

text \<open>The pools that a sequence of operations makes, with the number of operations.\<close>

inductive pool_reachable :: "(string \<Rightarrow> 'e \<Rightarrow> 'h result \<times> 'e) \<Rightarrow> 'h worker_pool \<Rightarrow> nat \<Rightarrow> bool" for dial where
  new: "k < 2 ^ 64 \<Longrightarrow> pool_reachable dial (pool_new k) 0"
| acquire: "pool_reachable dial p n \<Longrightarrow> pool_reachable dial (fst (snd (pool_acquire dial addr p e))) (n + 1)"
| if_stale: "pool_reachable dial p n \<Longrightarrow>
    pool_reachable dial (fst (snd (reconnect_if_stale dial addr g p e))) (n + 1)"
| reconnect: "pool_reachable dial p n \<Longrightarrow> pool_reachable dial (fst (snd (pool_reconnect dial addr p e))) (n + 1)"
| invalidate: "pool_reachable dial p n \<Longrightarrow> pool_reachable dial (pool_invalidate addr p) (n + 1)"

lemma pool_result_next:
  "pool_result addr p r \<Longrightarrow> unat (wp_next_generation p) \<le> n
   \<Longrightarrow> pool_ok (fst (snd r)) \<and> unat (wp_next_generation (fst (snd r))) \<le> n + 1"
  by (auto simp: pool_result_def)

lemma pool_reachable_ok:
  "pool_reachable dial p n \<Longrightarrow> n < 2 ^ 64 - 1 \<Longrightarrow> pool_ok p \<and> unat (wp_next_generation p) \<le> n + 1"
proof (induction rule: pool_reachable.induct)
  case (new k)
  then show ?case using pool_new_ok by (simp add: pool_new_def)
next
  case (acquire p n addr e)
  then show ?case by (intro pool_result_next [OF pool_acquire_result]) auto
next
  case (if_stale p n addr g e)
  then show ?case by (intro pool_result_next [OF reconnect_if_stale_result(1)]) auto
next
  case (reconnect p n addr e)
  then show ?case by (intro pool_result_next [OF pool_reconnect_result]) auto
next
  case (invalidate p n addr)
  then show ?case
    using pool_invalidate_ok [of p addr] by (simp add: pool_invalidate_def Let_def)
qed


text \<open>
  (C11) The pool never mixes connections up.  After any sequence of fewer than \<open>2 ^ 64 - 2\<close>
  operations, whatever the dialling answers, a client acquired for an address is connected to
  that address, and so is one from a reconnect; a reconnect that names the generation of a client
  the pool has handed out never returns that client again.
\<close>

theorem pool_hands_out:
  assumes "pool_reachable dial p n" and "n < 2 ^ 64 - 2"
  shows "(\<forall>c p' e'. pool_acquire dial addr p e = (Inr c, p', e') \<longrightarrow> wc_addr c = addr)
    \<and> (\<forall>c p' e'. reconnect_if_stale dial addr g p e = (Inr c, p', e') \<longrightarrow> wc_addr c = addr
          \<and> (g < wp_next_generation p \<longrightarrow> wc_generation c \<noteq> g))
    \<and> (\<forall>c p' e'. pool_reconnect dial addr p e = (Inr c, p', e') \<longrightarrow> wc_addr c = addr)"
proof -
  have ok: "pool_ok p" "unat (wp_next_generation p) + 1 < 2 ^ 64"
    using pool_reachable_ok [OF assms(1)] assms(2) by auto
  show ?thesis
    using pool_acquire_result [OF ok, of addr dial e] reconnect_if_stale_result(1) [OF ok, of addr dial g e]
      reconnect_if_stale_result(2) [OF ok, where dial = dial and addr = addr and stale = g and e = e]
      pool_reconnect_result [OF ok, of addr dial e]
    by (auto simp: pool_result_def)
qed

section \<open>Callers that race for one channel\<close>

text \<open>
  One call of \<open>reconnect_by_key\<close> per task, cut at its awaits and at each access to the shared maps:
  fetching the channel's mutex, locking it, looking for a newer client, dropping the old one,
  dialling, entering the new one.  \<open>rc_held\<close> holds the locked mutexes; \<open>rc_dials\<close> and
  \<open>rc_failures\<close> count the handshakes and those that failed.  An invalidation of the address by a
  bystander is a step too, if \<open>racy\<close>.
\<close>

datatype 'h reconnect_phase =
    Waiting | Queued nat | Checking nat | Removing nat | Dialing nat
  | Installing nat "'h worker_client" | Finished "'h worker_client result"

record 'h reconnects =
  rc_pool :: "'h worker_pool"
  rc_held :: "nat set"
  rc_phases :: "'h reconnect_phase list"
  rc_dials :: nat
  rc_failures :: nat

definition set_phase :: "nat \<Rightarrow> 'h reconnect_phase \<Rightarrow> 'h reconnects \<Rightarrow> 'h reconnects" where
  "set_phase i ph s = s\<lparr>rc_phases := (rc_phases s)[i := ph]\<rparr>"

inductive reconnect_step :: "bool \<Rightarrow> string \<Rightarrow> string \<Rightarrow> u64 \<Rightarrow> 'h reconnects \<Rightarrow> 'h reconnects \<Rightarrow> bool"
  for racy key addr stale where
  lock_for: "i < length (rc_phases s) \<Longrightarrow> rc_phases s ! i = Waiting \<Longrightarrow>
    reconnect_lock_for key (rc_pool s) = (m, p) \<Longrightarrow>
    reconnect_step racy key addr stale s (set_phase i (Queued m) (s\<lparr>rc_pool := p\<rparr>))"
| locked: "i < length (rc_phases s) \<Longrightarrow> rc_phases s ! i = Queued m \<Longrightarrow> m \<notin> rc_held s \<Longrightarrow>
    reconnect_step racy key addr stale s (set_phase i (Checking m) (s\<lparr>rc_held := insert m (rc_held s)\<rparr>))"
| coalesced: "i < length (rc_phases s) \<Longrightarrow> rc_phases s ! i = Checking m \<Longrightarrow>
    refreshed key stale (rc_pool s) = Some c \<Longrightarrow>
    reconnect_step racy key addr stale s (set_phase i (Finished (Inr c)) (s\<lparr>rc_held := rc_held s - {m}\<rparr>))"
| chosen: "i < length (rc_phases s) \<Longrightarrow> rc_phases s ! i = Checking m \<Longrightarrow>
    refreshed key stale (rc_pool s) = None \<Longrightarrow>
    reconnect_step racy key addr stale s (set_phase i (Removing m) s)"
| removed: "i < length (rc_phases s) \<Longrightarrow> rc_phases s ! i = Removing m \<Longrightarrow>
    reconnect_step racy key addr stale s
      (set_phase i (Dialing m) (s\<lparr>rc_pool := remove_client key (rc_pool s)\<rparr>))"
| refused: "i < length (rc_phases s) \<Longrightarrow> rc_phases s ! i = Dialing m \<Longrightarrow>
    reconnect_step racy key addr stale s
      (set_phase i (Finished (Inl err)) (s\<lparr>rc_held := rc_held s - {m}, rc_dials := rc_dials s + 1,
         rc_failures := rc_failures s + 1\<rparr>))"
| dialled: "i < length (rc_phases s) \<Longrightarrow> rc_phases s ! i = Dialing m \<Longrightarrow>
    c = \<lparr>wc_inner = h, wc_addr = addr, wc_generation = wp_next_generation (rc_pool s)\<rparr> \<Longrightarrow>
    reconnect_step racy key addr stale s
      (set_phase i (Installing m c) (s\<lparr>rc_dials := rc_dials s + 1,
         rc_pool := (rc_pool s)\<lparr>wp_next_generation := wp_next_generation (rc_pool s) + 1\<rparr>\<rparr>))"
| installed: "i < length (rc_phases s) \<Longrightarrow> rc_phases s ! i = Installing m c \<Longrightarrow>
    reconnect_step racy key addr stale s
      (set_phase i (Finished (Inr c)) (s\<lparr>rc_held := rc_held s - {m},
         rc_pool := insert_client key c (rc_pool s)\<rparr>))"
| invalidated: "racy \<Longrightarrow> reconnect_step racy key addr stale s (s\<lparr>rc_pool := pool_invalidate addr (rc_pool s)\<rparr>)"

inductive reconnect_steps :: "bool \<Rightarrow> string \<Rightarrow> string \<Rightarrow> u64 \<Rightarrow> 'h reconnects \<Rightarrow> 'h reconnects \<Rightarrow> bool"
  for racy key addr stale where
  start: "reconnect_steps racy key addr stale s s"
| step: "reconnect_steps racy key addr stale s t \<Longrightarrow> reconnect_step racy key addr stale t u
    \<Longrightarrow> reconnect_steps racy key addr stale s u"

definition observers :: "nat \<Rightarrow> 'h worker_pool \<Rightarrow> 'h reconnects" where
  "observers n p = \<lparr>rc_pool = p, rc_held = {}, rc_phases = replicate n Waiting, rc_dials = 0, rc_failures = 0\<rparr>"

text \<open>The mutex a task waits for or holds, and whether it holds it.\<close>

fun mutex_of :: "'h reconnect_phase \<Rightarrow> nat option" where
  "mutex_of (Queued m) = Some m"
| "mutex_of (Checking m) = Some m"
| "mutex_of (Removing m) = Some m"
| "mutex_of (Dialing m) = Some m"
| "mutex_of (Installing m c) = Some m"
| "mutex_of _ = None"

fun inside :: "'h reconnect_phase \<Rightarrow> bool" where
  "inside (Checking m) = True"
| "inside (Removing m) = True"
| "inside (Dialing m) = True"
| "inside (Installing m c) = True"
| "inside _ = False"

text \<open>One mutex for the channel, and at most one task inside.\<close>

definition exclusive :: "string \<Rightarrow> 'h reconnects \<Rightarrow> bool" where
  "exclusive key s \<longleftrightarrow>
     (\<forall>i < length (rc_phases s). \<forall>m. mutex_of (rc_phases s ! i) = Some m
        \<longrightarrow> wp_reconnect_locks (rc_pool s) key = Some m)
   \<and> (\<forall>i < length (rc_phases s). \<forall>m. inside (rc_phases s ! i) \<longrightarrow> mutex_of (rc_phases s ! i) = Some m \<longrightarrow> m \<in> rc_held s)
   \<and> (\<forall>i < length (rc_phases s). \<forall>j < length (rc_phases s).
        inside (rc_phases s ! i) \<longrightarrow> inside (rc_phases s ! j) \<longrightarrow> i = j)"

lemma exclusiveD:
  assumes "exclusive key s" "i < length (rc_phases s)"
  shows "mutex_of (rc_phases s ! i) = Some m \<Longrightarrow> wp_reconnect_locks (rc_pool s) key = Some m"
    and "inside (rc_phases s ! i) \<Longrightarrow> mutex_of (rc_phases s ! i) = Some m \<Longrightarrow> m \<in> rc_held s"
    and "inside (rc_phases s ! i) \<Longrightarrow> j < length (rc_phases s) \<Longrightarrow> inside (rc_phases s ! j) \<Longrightarrow> i = j"
  using assms by (auto simp: exclusive_def)

lemma exclusiveI:
  assumes "\<And>i m. i < length (rc_phases s) \<Longrightarrow> mutex_of (rc_phases s ! i) = Some m
      \<Longrightarrow> wp_reconnect_locks (rc_pool s) key = Some m"
    and "\<And>i m. i < length (rc_phases s) \<Longrightarrow> mutex_of (rc_phases s ! i) = Some m
      \<Longrightarrow> inside (rc_phases s ! i) \<Longrightarrow> m \<in> rc_held s"
    and "\<And>i j. i < length (rc_phases s) \<Longrightarrow> j < length (rc_phases s) \<Longrightarrow> inside (rc_phases s ! i)
      \<Longrightarrow> inside (rc_phases s ! j) \<Longrightarrow> i = j"
  shows "exclusive key s"
  using assms unfolding exclusive_def by blast

lemma set_phase_simps [simp]:
  "rc_pool (set_phase i ph s) = rc_pool s" "rc_held (set_phase i ph s) = rc_held s"
  "rc_phases (set_phase i ph s) = (rc_phases s)[i := ph]" "rc_dials (set_phase i ph s) = rc_dials s"
  "rc_failures (set_phase i ph s) = rc_failures s"
  by (simp_all add: set_phase_def)

lemma inside_mutex: "inside ph \<Longrightarrow> \<exists>m. mutex_of ph = Some m"
  by (cases ph) auto

text \<open>A task that stays inside or leaves changes nothing for the others.\<close>

lemma exclusive_move:
  assumes "exclusive key s" "i < length (rc_phases s)" "inside (rc_phases s ! i)"
    and "mutex_of (rc_phases s ! i) = Some m" "wp_reconnect_locks (rc_pool s') key = wp_reconnect_locks (rc_pool s) key"
    and "rc_phases s' = (rc_phases s)[i := ph]"
    and "inside ph \<and> mutex_of ph = Some m \<and> rc_held s' = rc_held s
       \<or> mutex_of ph = None \<and> rc_held s' = rc_held s - {m}"
  shows "exclusive key s'"
proof -
  have alone: "j = i" if "j < length (rc_phases s)" "inside (rc_phases s ! j)" for j
    using exclusiveD(3) [OF assms(1) that(1) that(2) assms(2,3)] .
  have only: "j = i" if "j < length (rc_phases s')" "inside (rc_phases s' ! j)" for j
    using that alone assms(2,6) by (cases "j = i") auto
  have ph: "mutex_of ph = Some m' \<Longrightarrow> m' = m" for m' using assms(7) by auto
  show ?thesis
  proof (rule exclusiveI)
    fix j m'
    assume j: "j < length (rc_phases s')" "mutex_of (rc_phases s' ! j) = Some m'"
    then show "wp_reconnect_locks (rc_pool s') key = Some m'"
      using exclusiveD(1) [OF assms(1), of j m'] exclusiveD(1) [OF assms(1,2,4)] ph assms(2,5,6)
      by (cases "j = i") auto
    show "m' \<in> rc_held s'" if "inside (rc_phases s' ! j)"
    proof -
      have "j = i" by (rule only [OF j(1) that])
      then have "inside ph" "mutex_of ph = Some m'" using that j(2) assms(2,6) by simp_all
      then show ?thesis using assms(7) exclusiveD(2) [OF assms(1-4)] by auto
    qed
  next
    fix j k
    assume "j < length (rc_phases s')" "k < length (rc_phases s')" "inside (rc_phases s' ! j)" "inside (rc_phases s' ! k)"
    then show "j = k" using only by metis
  qed
qed

lemma reconnect_step_exclusive:
  assumes "reconnect_step False key addr stale s t" "exclusive key s"
  shows "exclusive key t"
  using assms(1)
proof (cases rule: reconnect_step.cases)
  case (lock_for i m p)
  have m: "wp_reconnect_locks p key = Some m"
    "\<And>m'. wp_reconnect_locks (rc_pool s) key = Some m' \<Longrightarrow> m' = m"
    using lock_for(4) by (auto simp: reconnect_lock_for_def split: option.splits)
  show ?thesis
    using exclusiveD [OF assms(2)] m lock_for(1-3)
    by (intro exclusiveI) (auto simp: nth_list_update split: if_splits)
next
  case (locked i m)
  have same: "m' = m" if "j < length (rc_phases s)" "mutex_of (rc_phases s ! j) = Some m'" for j m'
    using exclusiveD(1) [OF assms(2) that] exclusiveD(1) [OF assms(2) locked(2), of m] locked(3) by simp
  have none: "\<not> inside (rc_phases s ! j)" if j: "j < length (rc_phases s)" for j
    using same [OF j] exclusiveD(2) [OF assms(2) j] locked(4) inside_mutex by metis
  have key: "wp_reconnect_locks (rc_pool s) key = Some m"
    using exclusiveD(1) [OF assms(2) locked(2), of m] locked(3) by simp
  have t: "rc_phases t = (rc_phases s)[i := Checking m]" "rc_pool t = rc_pool s" "m \<in> rc_held t"
    using locked(1) by simp_all
  have only: "j = i" if "j < length (rc_phases t)" "inside (rc_phases t ! j)" for j
    using that none [of j] t(1) by (cases "j = i") auto
  have one: "m' = m" if "j < length (rc_phases t)" "mutex_of (rc_phases t ! j) = Some m'" for j m'
    using that same [of j m'] t(1) by (cases "j = i") auto
  show ?thesis
    by (rule exclusiveI) (use one only key t(2,3) in metis)+
next
  case (coalesced i m c)
  then show ?thesis by (intro exclusive_move [OF assms(2), of i m]) auto
next
  case (chosen i m)
  then show ?thesis by (intro exclusive_move [OF assms(2), of i m]) auto
next
  case (removed i m)
  then show ?thesis by (intro exclusive_move [OF assms(2), of i m]) (auto simp: remove_client_def)
next
  case (refused i m err)
  then show ?thesis by (intro exclusive_move [OF assms(2), of i m]) auto
next
  case (dialled i m c h)
  then show ?thesis by (intro exclusive_move [OF assms(2), of i m]) auto
next
  case (installed i m c)
  then show ?thesis by (intro exclusive_move [OF assms(2), of i m]) (auto simp: insert_client_def)
qed simp

text \<open>
  The three stages of a reconnect: nobody has dialled successfully, one task has and is about to
  enter its client, the new client is in the map.
\<close>

fun unsettled :: "'h reconnect_phase \<Rightarrow> bool" where
  "unsettled (Installing m c) = False"
| "unsettled (Finished (Inr c)) = False"
| "unsettled _ = True"

fun landing :: "'h worker_client \<Rightarrow> 'h reconnect_phase \<Rightarrow> bool" where
  "landing c (Installing m c') = (c' = c)"
| "landing c (Finished (Inr c')) = False"
| "landing c _ = True"

fun landed :: "'h worker_client \<Rightarrow> 'h reconnect_phase \<Rightarrow> bool" where
  "landed c (Removing m) = False"
| "landed c (Dialing m) = False"
| "landed c (Installing m c') = False"
| "landed c (Finished (Inr c')) = (c' = c)"
| "landed c _ = True"

fun refusal_counted :: "nat \<Rightarrow> 'h reconnect_phase \<Rightarrow> bool" where
  "refusal_counted n (Finished (Inl err)) = (0 < n)"
| "refusal_counted n _ = True"

definition grounded :: "string \<Rightarrow> u64 \<Rightarrow> 'h reconnects \<Rightarrow> bool" where
  "grounded key g s \<longleftrightarrow> rc_dials s = rc_failures s \<and> refreshed key g (rc_pool s) = None
     \<and> g < wp_next_generation (rc_pool s) \<and> list_all unsettled (rc_phases s)"

definition airborne :: "string \<Rightarrow> u64 \<Rightarrow> 'h worker_client \<Rightarrow> 'h reconnects \<Rightarrow> bool" where
  "airborne key g c s \<longleftrightarrow> rc_dials s = rc_failures s + 1 \<and> refreshed key g (rc_pool s) = None
     \<and> g < wc_generation c \<and> list_all (landing c) (rc_phases s)
     \<and> (\<exists>i m. i < length (rc_phases s) \<and> rc_phases s ! i = Installing m c)"

definition arrived :: "string \<Rightarrow> u64 \<Rightarrow> 'h worker_client \<Rightarrow> 'h reconnects \<Rightarrow> bool" where
  "arrived key g c s \<longleftrightarrow> rc_dials s = rc_failures s + 1 \<and> refreshed key g (rc_pool s) = Some c
     \<and> list_all (landed c) (rc_phases s)"

definition one_flight :: "string \<Rightarrow> u64 \<Rightarrow> 'h reconnects \<Rightarrow> bool" where
  "one_flight key g s \<longleftrightarrow> exclusive key s \<and> list_all (refusal_counted (rc_failures s)) (rc_phases s)
     \<and> (grounded key g s \<or> (\<exists>c. airborne key g c s) \<or> (\<exists>c. arrived key g c s))"

lemma list_all_update: "list_all P xs \<Longrightarrow> P y \<Longrightarrow> list_all P (xs[i := y])"
  using set_update_subset_insert [of xs i y] by (auto simp: list_all_iff)

lemma list_all_update_others:
  "(\<And>k. k < length xs \<Longrightarrow> k \<noteq> i \<Longrightarrow> P (xs ! k)) \<Longrightarrow> P y \<Longrightarrow> list_all P (xs[i := y])"
  unfolding list_all_length by (metis length_list_update nth_list_update_eq nth_list_update_neq)

lemma list_all_nth: "list_all P xs \<Longrightarrow> i < length xs \<Longrightarrow> P (xs ! i)"
  by (simp add: list_all_length)

lemma refreshed_cong: "wp_clients p = wp_clients q \<Longrightarrow> refreshed key g p = refreshed key g q"
  by (simp add: refreshed_def)

lemma refreshed_removed [simp]: "refreshed key g (remove_client key p) = None"
  by (simp add: refreshed_def remove_client_def)

lemma refreshed_inserted: "g < wc_generation c \<Longrightarrow> refreshed key g (insert_client key c p) = Some c"
  by (simp add: refreshed_def insert_client_def)

lemma refusal_counted_mono: "refusal_counted n ph \<Longrightarrow> refusal_counted (Suc n) ph"
  by (induction n ph rule: refusal_counted.induct) auto

lemma grounded_step:
  assumes "reconnect_step False key addr g s t" "grounded key g s"
  shows "grounded key g t \<or> (\<exists>c. airborne key g c t)"
  using assms(1)
proof (cases rule: reconnect_step.cases)
  case (lock_for i m p)
  have "wp_clients p = wp_clients (rc_pool s)" "wp_next_generation p = wp_next_generation (rc_pool s)"
    using lock_fields(1,3) [of key "rc_pool s"] lock_for(4) by simp_all
  then show ?thesis
    using assms(2) lock_for(1) refreshed_cong [of p "rc_pool s"]
    by (simp add: grounded_def list_all_update)
next
  case (dialled i m c h)
  then have "airborne key g c t"
    using assms(2) list_all_nth [of unsettled "rc_phases s"]
    by (auto simp: grounded_def airborne_def refreshed_def list_all_length nth_list_update
        elim!: unsettled.elims)
  then show ?thesis by blast
next
  case (installed i m c)
  then show ?thesis using assms(2) list_all_nth [of unsettled "rc_phases s" i] by (simp add: grounded_def)
qed (use assms(2) in \<open>auto simp: grounded_def list_all_update remove_client_def refreshed_def\<close>)

lemma airborne_step:
  assumes "reconnect_step False key addr g s t" "airborne key g c s" "exclusive key s"
  shows "airborne key g c t \<or> arrived key g c t"
proof -
  obtain j m where j: "j < length (rc_phases s)" "rc_phases s ! j = Installing m c"
    using assms(2) by (auto simp: airborne_def)
  have pilot: "i = j" if "i < length (rc_phases s)" "inside (rc_phases s ! i)" for i
    using exclusiveD(3) [OF assms(3) that j(1)] j(2) by simp
  have stays: "\<exists>i m. i < length (rc_phases s) \<and> (rc_phases s)[k := ph] ! i = Installing m c"
    if "rc_phases s ! k \<noteq> Installing m c" for k ph
  proof -
    have "k \<noteq> j" using j(2) that by auto
    then have "(rc_phases s)[k := ph] ! j = Installing m c" using j by simp
    then show ?thesis using j(1) by blast
  qed
  from assms(1) show ?thesis
  proof (cases rule: reconnect_step.cases)
    case (lock_for i m' p)
    have "wp_clients p = wp_clients (rc_pool s)"
      using lock_fields(1) [of key "rc_pool s"] lock_for(4) by simp
    then show ?thesis
      using assms(2) lock_for(1,3) refreshed_cong [of p "rc_pool s"] stays [of i]
      by (simp add: airborne_def list_all_update)
  next
    case (locked i m')
    then show ?thesis using assms(2) stays [of i] by (simp add: airborne_def list_all_update)
  next
    case (installed i m' c')
    then have c: "i = j" "c' = c" using pilot [of i] j by auto
    have "landed c (rc_phases s ! k)" if "k < length (rc_phases s)" "k \<noteq> j" for k
      using list_all_nth [of "landing c" "rc_phases s" k] assms(2) pilot [of k] that
      by (cases "rc_phases s ! k" rule: inside.cases; cases "rc_phases s ! k" rule: landing.cases [of "(c, _)"])
        (auto simp: airborne_def)
    then have "list_all (landed c) ((rc_phases s)[j := Finished (Inr c)])"
      by (rule list_all_update_others) auto
    then have "arrived key g c t"
      using assms(2) installed(1) c refreshed_inserted by (auto simp: arrived_def airborne_def)
    then show ?thesis by blast
  qed (use assms(2) pilot j in \<open>force simp: airborne_def\<close>)+
qed

lemma arrived_step:
  assumes "reconnect_step False key addr g s t" "arrived key g c s"
  shows "arrived key g c t"
  using assms(1)
proof (cases rule: reconnect_step.cases)
  case (lock_for i m p)
  have "wp_clients p = wp_clients (rc_pool s)"
    using lock_fields(1) [of key "rc_pool s"] lock_for(4) by simp
  then show ?thesis
    using assms(2) lock_for(1) refreshed_cong [of p "rc_pool s"] by (simp add: arrived_def list_all_update)
qed (use assms(2) list_all_nth [of "landed c" "rc_phases s"] in \<open>force simp: arrived_def list_all_update\<close>)+

lemma reconnect_step_refusals:
  assumes "reconnect_step False key addr g s t" "list_all (refusal_counted (rc_failures s)) (rc_phases s)"
  shows "list_all (refusal_counted (rc_failures t)) (rc_phases t)"
  using assms(1)
proof (cases rule: reconnect_step.cases)
  case (refused i m err)
  have "list_all (refusal_counted (Suc (rc_failures s))) (rc_phases s)"
    using assms(2) refusal_counted_mono by (auto simp: list_all_iff)
  then show ?thesis using refused(1) by (simp add: list_all_update)
qed (use assms(2) in \<open>simp_all add: list_all_update\<close>)

lemma reconnect_steps_one_flight:
  "reconnect_steps False key addr g s t \<Longrightarrow> one_flight key g s
   \<Longrightarrow> one_flight key g t \<and> length (rc_phases t) = length (rc_phases s)"
proof (induction rule: reconnect_steps.induct)
  case (step s t u)
  then have t: "one_flight key g t" "length (rc_phases t) = length (rc_phases s)" by simp_all
  have "length (rc_phases u) = length (rc_phases t)"
    using step.hyps(2) by (cases rule: reconnect_step.cases) simp_all
  moreover have "one_flight key g u"
    using t(1) reconnect_step_exclusive [OF step.hyps(2)] reconnect_step_refusals [OF step.hyps(2)]
      grounded_step [OF step.hyps(2)] airborne_step [OF step.hyps(2)] arrived_step [OF step.hyps(2)]
    unfolding one_flight_def by blast
  ultimately show ?case using t(2) by simp
qed simp

text \<open>
  (C9) Racing reconnects share one handshake.  Any number of callers that saw the same client fail
  ask for a reconnect of its channel, in any interleaving: there is never more than one handshake
  that does not fail, all callers that succeed get the same client, and when none failed and all
  have returned, exactly one handshake was made and every caller has its client, with a newer
  generation.
\<close>

theorem reconnects_share_handshake:
  assumes "wp_clients p key = Some c0" and "wc_generation c0 < wp_next_generation p"
    and "reconnect_steps False key addr (wc_generation c0) (observers n p) s"
  shows "rc_dials s \<le> rc_failures s + 1
    \<and> (\<forall>c c'. Finished (Inr c) \<in> set (rc_phases s) \<longrightarrow> Finished (Inr c') \<in> set (rc_phases s) \<longrightarrow> c = c')
    \<and> (rc_failures s = 0 \<longrightarrow> 0 < n \<longrightarrow> (\<forall>ph \<in> set (rc_phases s). \<exists>r. ph = Finished r) \<longrightarrow>
        rc_dials s = 1 \<and> (\<exists>c. wc_generation c0 < wc_generation c \<and> rc_phases s = replicate n (Finished (Inr c))))"
proof -
  let ?g = "wc_generation c0"
  have "one_flight key ?g (observers n p)"
    using assms(1,2)
    by (auto simp: one_flight_def exclusive_def grounded_def observers_def refreshed_def list_all_length)
  then have s: "one_flight key ?g s" "length (rc_phases s) = n"
    using reconnect_steps_one_flight [OF assms(3)] by (simp_all add: observers_def)
  have refusals: "refusal_counted (rc_failures s) ph" if "ph \<in> set (rc_phases s)" for ph
    using s(1) that by (auto simp: one_flight_def list_all_iff)
  from s(1) consider "grounded key ?g s" | c where "airborne key ?g c s" | c where "arrived key ?g c s"
    by (auto simp: one_flight_def)
  then show ?thesis
  proof cases
    case 1
    have "False" if none: "rc_failures s = 0" "0 < n" and fin: "\<forall>ph \<in> set (rc_phases s). \<exists>r. ph = Finished r"
    proof -
      have "rc_phases s ! 0 \<in> set (rc_phases s)" using none(2) s(2) by simp
      then obtain r where r: "Finished r \<in> set (rc_phases s)" using fin by metis
      then show ?thesis
        using 1 refusals [OF r] none(1) by (cases r) (auto simp: grounded_def list_all_iff)
    qed
    then show ?thesis using 1 by (auto simp: grounded_def list_all_iff)
  next
    case 2
    then have "\<exists>m. Installing m c \<in> set (rc_phases s)" by (auto simp: airborne_def) (metis nth_mem)
    then show ?thesis using 2 by (auto simp: airborne_def list_all_iff)
  next
    case 3
    have all: "landed c ph" if "ph \<in> set (rc_phases s)" for ph
      using 3 that by (auto simp: arrived_def list_all_iff)
    have "rc_phases s = replicate n (Finished (Inr c))"
      if none: "rc_failures s = 0" and fin: "\<forall>ph \<in> set (rc_phases s). \<exists>r. ph = Finished r"
    proof -
      have "ph = Finished (Inr c)" if ph: "ph \<in> set (rc_phases s)" for ph
      proof -
        obtain r where "ph = Finished r" using ph fin by blast
        then show ?thesis
          using all [OF ph] refusals [OF ph] none by (cases r) auto
      qed
      then show ?thesis using s(2) by (metis replicate_eqI)
    qed
    moreover have "?g < wc_generation c"
      using 3 by (auto simp: arrived_def refreshed_def split: option.splits if_splits)
    moreover have "c' = c" if "Finished (Inr c') \<in> set (rc_phases s)" for c' using all [OF that] by simp
    ultimately show ?thesis using 3 by (auto simp: arrived_def)
  qed
qed

text \<open>The next step of one task, as a function of the answer its dialling gets.\<close>

definition advance ::
  "string \<Rightarrow> string \<Rightarrow> u64 \<Rightarrow> 'h reconnects \<Rightarrow> nat \<times> 'h result \<Rightarrow> 'h reconnects" where
  "advance key addr stale s = (\<lambda>(i, answer).
     if i < length (rc_phases s) then
       (case rc_phases s ! i of
          Waiting \<Rightarrow> (let (m, p) = reconnect_lock_for key (rc_pool s) in set_phase i (Queued m) (s\<lparr>rc_pool := p\<rparr>))
        | Queued m \<Rightarrow> if m \<in> rc_held s then s
                      else set_phase i (Checking m) (s\<lparr>rc_held := insert m (rc_held s)\<rparr>)
        | Checking m \<Rightarrow> (case refreshed key stale (rc_pool s) of
              Some c \<Rightarrow> set_phase i (Finished (Inr c)) (s\<lparr>rc_held := rc_held s - {m}\<rparr>)
            | None \<Rightarrow> set_phase i (Removing m) s)
        | Removing m \<Rightarrow> set_phase i (Dialing m) (s\<lparr>rc_pool := remove_client key (rc_pool s)\<rparr>)
        | Dialing m \<Rightarrow> (case answer of
              Inl err \<Rightarrow> set_phase i (Finished (Inl err)) (s\<lparr>rc_held := rc_held s - {m},
                 rc_dials := rc_dials s + 1, rc_failures := rc_failures s + 1\<rparr>)
            | Inr h \<Rightarrow> set_phase i
                (Installing m \<lparr>wc_inner = h, wc_addr = addr, wc_generation = wp_next_generation (rc_pool s)\<rparr>)
                (s\<lparr>rc_dials := rc_dials s + 1,
                  rc_pool := (rc_pool s)\<lparr>wp_next_generation := wp_next_generation (rc_pool s) + 1\<rparr>\<rparr>))
        | Installing m c \<Rightarrow> set_phase i (Finished (Inr c)) (s\<lparr>rc_held := rc_held s - {m},
             rc_pool := insert_client key c (rc_pool s)\<rparr>)
        | Finished r \<Rightarrow> s)
     else s)"

lemma advance_steps:
  assumes "reconnect_steps racy key addr stale s t"
  shows "reconnect_steps racy key addr stale s (advance key addr stale t a)"
proof -
  obtain i answer where a: "a = (i, answer)" by fastforce
  have "advance key addr stale t a = t \<or> reconnect_step racy key addr stale t (advance key addr stale t a)"
    unfolding a advance_def
    by (auto split: reconnect_phase.splits prod.splits option.splits sum.splits
        intro: reconnect_step.intros reconnect_step.refused [simplified] reconnect_step.dialled [OF _ _ refl, simplified])
  then show ?thesis using assms reconnect_steps.step [OF assms] by metis
qed

lemma advances_steps:
  "reconnect_steps racy key addr stale s t
   \<Longrightarrow> reconnect_steps racy key addr stale s (foldl (advance key addr stale) t schedule)"
  by (induction schedule arbitrary: t) (auto intro: advance_steps)

definition demo_pool :: "nat worker_pool" where
  "demo_pool = insert_client ''w'' \<lparr>wc_inner = 0, wc_addr = ''w'', wc_generation = 1\<rparr>
     ((pool_new 1)\<lparr>wp_next_generation := 2\<rparr>)"

definition demo_race :: "nat reconnects" where
  "demo_race = foldl (advance ''w'' ''w'' 1) (observers 2 demo_pool)
     (map (\<lambda>i. (i, Inr 7)) [0, 0, 1, 0, 1, 0, 0, 0, 1, 1])"

theorem reconnects_share_handshake_witness:
  "rc_dials demo_race = 1
   \<and> rc_phases demo_race = replicate 2 (Finished (Inr \<lparr>wc_inner = 7, wc_addr = ''w'', wc_generation = 2\<rparr>))"
proof -
  have p: "wp_clients demo_pool ''w'' = Some \<lparr>wc_inner = 0, wc_addr = ''w'', wc_generation = 1\<rparr>"
    "wp_next_generation demo_pool = 2"
    by (simp_all add: demo_pool_def insert_client_def)
  have run: "reconnect_steps False ''w'' ''w'' 1 (observers 2 demo_pool) demo_race"
    unfolding demo_race_def by (intro advances_steps reconnect_steps.start)
  have s: "rc_failures demo_race = 0"
    "rc_phases demo_race = replicate 2 (Finished (Inr \<lparr>wc_inner = 7, wc_addr = ''w'', wc_generation = 2\<rparr>))"
    by code_simp+
  show ?thesis
    using reconnects_share_handshake [OF p(1), where addr = "''w''" and n = 2 and s = demo_race] run p(2) s
    by simp
qed

text \<open>
  (C10) An invalidation between two reconnects of one channel lets both dial: it drops the mutex
  from the map, the second caller takes a new one and finds no client to share, so two
  handshakes succeed and the callers end with different clients.
\<close>

theorem invalidation_splits_reconnects:
  "\<exists>s c c'. reconnect_steps True ''w'' ''w'' 1 (observers 2 demo_pool) s \<and> rc_failures s = 0 \<and> rc_dials s = 2
     \<and> rc_phases s = [Finished (Inr c), Finished (Inr c')] \<and> c \<noteq> c'"
proof -
  let ?go = "advance ''w'' ''w'' 1"
  let ?s = "foldl ?go (observers 2 demo_pool) (map (\<lambda>i. (i, Inr 7)) [0, 0, 0, 0])"
  let ?t = "?s\<lparr>rc_pool := pool_invalidate ''w'' (rc_pool ?s)\<rparr>"
  let ?u = "foldl ?go ?t (map (\<lambda>i. (i, Inr 7)) [1, 1, 1, 1, 0, 1, 0, 1])"
  have "reconnect_steps True ''w'' ''w'' 1 (observers 2 demo_pool) ?t"
    by (intro reconnect_steps.step [OF advances_steps reconnect_step.invalidated] reconnect_steps.start) simp
  then have "reconnect_steps True ''w'' ''w'' 1 (observers 2 demo_pool) ?u"
    by (intro advances_steps)
  moreover have "rc_failures ?u = 0" "rc_dials ?u = 2"
    "rc_phases ?u = [Finished (Inr \<lparr>wc_inner = 7, wc_addr = ''w'', wc_generation = 2\<rparr>),
       Finished (Inr \<lparr>wc_inner = 7, wc_addr = ''w'', wc_generation = 3\<rparr>)]"
    by code_simp+
  ultimately show ?thesis by (intro exI [of _ ?u]) auto
qed

text \<open>An unconditional reconnect never finds a newer client.\<close>

lemma unconditional_never_coalesces: "refreshed key (- 1) p = None"
  by (simp add: refreshed_def not_less split: option.splits)

text \<open>A pool with two channels per worker, after two clients were handed out.\<close>

definition demo_dial :: "string \<Rightarrow> nat \<Rightarrow> nat result \<times> nat" where
  "demo_dial addr e = (Inr e, e + 1)"

definition demo_pool2 :: "nat worker_pool" where
  "demo_pool2 = fst (snd (pool_acquire demo_dial ''w'' (fst (snd (pool_acquire demo_dial ''w'' (pool_new 2) 0))) 1))"

theorem pool_hands_out_witness:
  "\<exists>c p' e'. reconnect_if_stale demo_dial ''w'' 1 demo_pool2 5 = (Inr c, p', e')
     \<and> wc_addr c = ''w'' \<and> wc_generation c \<noteq> 1"
proof -
  have run: "pool_reachable demo_dial demo_pool2 (0 + 1 + 1)"
    unfolding demo_pool2_def by (intro pool_reachable.acquire pool_reachable.new) simp
  have "1 < wp_next_generation demo_pool2" "case fst (reconnect_if_stale demo_dial ''w'' 1 demo_pool2 5) of Inr _ \<Rightarrow> True | Inl _ \<Rightarrow> False"
    by code_simp+
  then show ?thesis
    using pool_hands_out [OF run, of "''w''" 5 1] by (cases "reconnect_if_stale demo_dial ''w'' 1 demo_pool2 5")
      (auto split: sum.splits)
qed

end
