(* ===== verification/File_Reader.thy ===== *)
theory File_Reader
  imports Block_Mapper Block_Locations Block_Reader Worker_Pool Caching_Reader
begin

text \<open>
  The file reader (\<^verbatim>\<open>src/src/io/file_reader.rs\<close>): a byte range is planned into block segments, each
  segment is read from a worker chosen by the routing view over a pooled connection, with one
  change of worker on a failed connection and one reconnect on an authentication failure, either
  directly or as the miss source of the page cache.  The network is a record of parameters over
  an environment: dialling, opening a read stream and what arrives on it, the answers of the
  acknowledgement channel, the clock.  \<open>None\<close> is a read that waits on a silent stream for ever.
\<close>

section \<open>Requests to a worker\<close>

record open_ufs_block_options =
  uo_ufs_path :: "string option"
  uo_offset_in_file :: "i64 option"
  uo_block_size :: "i64 option"
  uo_max_ufs_read_concurrency :: "i32 option"
  uo_mount_id :: "i64 option"
  uo_no_cache :: "bool option"
  uo_user :: "string option"
  uo_caller_type :: "i32 option"
  uo_file_length :: "i64 option"

text \<open>The fields of \<open>ReadRequest\<close> that the client sets.\<close>

record read_request =
  rr_block_id :: "i64 option"
  rr_offset :: "i64 option"
  rr_length :: "i64 option"
  rr_chunk_size :: "i64 option"
  rr_open_ufs_block_options :: "open_ufs_block_options option"
  rr_position_short :: "bool option"
  rr_prefetch_window :: "i32 option"

definition read_block_request ::
  "i64 \<Rightarrow> i64 \<Rightarrow> i64 \<Rightarrow> i64 \<Rightarrow> i32 option \<Rightarrow> open_ufs_block_options option \<Rightarrow> read_request" where
  "read_block_request block_id offset len chunk_size prefetch_window ufs =
     \<lparr>rr_block_id = Some block_id, rr_offset = Some offset, rr_length = Some len,
      rr_chunk_size = Some chunk_size, rr_open_ufs_block_options = ufs, rr_position_short = None,
      rr_prefetch_window = prefetch_window\<rparr>"

definition read_block_positioned_request ::
  "i64 \<Rightarrow> i64 \<Rightarrow> i64 \<Rightarrow> i64 \<Rightarrow> open_ufs_block_options option \<Rightarrow> read_request" where
  "read_block_positioned_request block_id offset len chunk_size ufs =
     \<lparr>rr_block_id = Some block_id, rr_offset = Some offset, rr_length = Some len,
      rr_chunk_size = Some chunk_size, rr_open_ufs_block_options = ufs, rr_position_short = Some True,
      rr_prefetch_window = None\<rparr>"

text \<open>What the reader asks of the world; the connection handles are \<open>'h\<close>, the environment is \<open>'e\<close>.\<close>

record ('h, 'e) net =
  nt_now :: "'e \<Rightarrow> instant"
  nt_dial :: "string \<Rightarrow> 'e \<Rightarrow> 'h result \<times> 'e"
  nt_read :: "'h \<Rightarrow> read_request \<Rightarrow> 'e \<Rightarrow> stream_item list result \<times> 'e"
  nt_ack :: "'h \<Rightarrow> read_request \<Rightarrow> i64 \<Rightarrow> send_outcome"

text \<open>The settings the reader uses.\<close>

record reader_config =
  fc_chunk_size :: u64
  fc_file_replication_number :: i32
  fc_file_read_max_node_retry :: i32
  fc_check_block_replicas :: i32
  fc_client_cache_page_size :: u64
  fc_client_cache_async_write_enabled :: bool
  fc_file_metadata_sync_interval :: i64
  fc_range_coalesce_enabled :: bool
  fc_range_coalesce_gap_bytes :: u64
  fc_range_coalesce_max_bytes :: u64

text \<open>The parts of a reader that a read changes: the shared pool, its own view, the environment.\<close>

record ('h, 'e) link =
  lk_pool :: "'h worker_pool option"
  lk_view :: router_view
  lk_env :: 'e

record file_reader =
  fr_path :: string
  fr_info :: file_info
  fr_plans :: "block_read_plan list"
  fr_current_plan_index :: nat
  fr_total_bytes_read :: u64
  fr_offset :: u64
  fr_length :: u64
  fr_cached :: bool
  fr_cache_file_id :: string
  fr_cache_page_size :: u64
  fr_cache_fill :: bool
  fr_cache_async_write :: bool
  fr_ufs_read_options :: "open_ufs_block_options option"

section \<open>Building a reader\<close>

definition ufs_block_length :: "i64 \<Rightarrow> i64 \<Rightarrow> u64 \<Rightarrow> i64" where
  "ufs_block_length file_length block_size_bytes block_index =
     (if block_size_bytes \<le> 0 then 0
      else let start = int (unat block_index) * block_size_bytes;
               block_start = (if unat block_index < 2 ^ 63 \<and> start < 2 ^ 63 then start else 2 ^ 63 - 1)
           in min (max (saturating_i64 (file_length - block_start)) 0) block_size_bytes)"

definition ufs_template :: "file_info \<Rightarrow> open_ufs_block_options option" where
  "ufs_template fi =
     (if (case fi_ufs_path fi of None \<Rightarrow> True | Some p \<Rightarrow> p = []) then None
      else Some \<lparr>uo_ufs_path = fi_ufs_path fi, uo_offset_in_file = Some 0, uo_block_size = Some 0,
        uo_max_ufs_read_concurrency = Some 8, uo_mount_id = fi_mount_id fi,
        uo_no_cache = Some (\<not> unwrap_or (fi_cacheable fi) True), uo_user = None, uo_caller_type = None,
        uo_file_length = fi_length fi\<rparr>)"

definition file_reader_build :: "reader_config \<Rightarrow> string \<Rightarrow> file_info \<Rightarrow> u64 \<Rightarrow> u64 \<Rightarrow> file_reader" where
  "file_reader_build cfg path fi offset len =
     \<lparr>fr_path = path, fr_info = fi, fr_plans = plan_read fi offset len, fr_current_plan_index = 0,
      fr_total_bytes_read = 0, fr_offset = offset, fr_length = len, fr_cached = False,
      fr_cache_file_id = [], fr_cache_page_size = fc_client_cache_page_size cfg, fr_cache_fill = False,
      fr_cache_async_write = False, fr_ufs_read_options = ufs_template fi\<rparr>"

definition build_ufs_read_options :: "file_reader \<Rightarrow> block_read_plan \<Rightarrow> open_ufs_block_options option" where
  "build_ufs_read_options fr plan =
     (case fr_ufs_read_options fr of
        None \<Rightarrow> None
      | Some template \<Rightarrow>
          let nominal_block_size = unwrap_or (fi_block_size_bytes (fr_info fr)) (64 * 1024 * 1024);
              offset_in_file = saturating_i64 (sint (rp_block_index plan) * nominal_block_size)
          in Some (template\<lparr>uo_offset_in_file := Some offset_in_file,
               uo_block_size := Some (case fi_length (fr_info fr) of
                   Some len \<Rightarrow> ufs_block_length len nominal_block_size (rp_block_index plan)
                 | None \<Rightarrow> nominal_block_size)\<rparr>))"

section \<open>Choosing a block and a worker\<close>

definition assigned_id :: "file_block_info \<Rightarrow> i64 option" where
  "assigned_id fbi = Option.bind (fbi_block_info fbi) (\<lambda>bi. Option.bind (bi_block_id bi)
     (\<lambda>id. if id > 0 then Some id else None))"

definition resolve_block_id :: "file_info \<Rightarrow> block_read_plan \<Rightarrow> i64" where
  "resolve_block_id fi plan =
     (let i = unat (rp_block_index plan);
          fbi = (if i < length (fi_file_block_infos fi) then Some (fi_file_block_infos fi ! i) else None)
      in unwrap_or (Option.bind fbi assigned_id) (rp_block_id plan))"

fun find_locations :: "i64 \<Rightarrow> file_block_info list \<Rightarrow> block_location list" where
  "find_locations block_id [] = []"
| "find_locations block_id (fbi # fbis) =
     (case fbi_block_info fbi of
        None \<Rightarrow> find_locations block_id fbis
      | Some bi \<Rightarrow> if bi_block_id bi = Some block_id then bi_locations bi
                   else find_locations block_id fbis)"

definition block_locations :: "file_info \<Rightarrow> i64 \<Rightarrow> block_location list" where
  "block_locations fi block_id = find_locations block_id (fi_file_block_infos fi)"

definition worker_addr :: "worker_info \<Rightarrow> string result" where
  "worker_addr w =
     (case w_address w of
        None \<Rightarrow> Inl (EInternal ''worker has no address'')
      | Some addr \<Rightarrow> Inr (rpc_endpoint addr))"

text \<open>An operation of the pool, or a connection of its own without one.\<close>

definition through_pool ::
  "('h worker_pool \<Rightarrow> 'e \<Rightarrow> 'h worker_client result \<times> 'h worker_pool \<times> 'e)
   \<Rightarrow> ('e \<Rightarrow> 'h worker_client result \<times> 'e) \<Rightarrow> ('h, 'e) link \<Rightarrow> 'h worker_client result \<times> ('h, 'e) link" where
  "through_pool pooled direct lk =
     (case lk_pool lk of
        Some p \<Rightarrow> (case pooled p (lk_env lk) of (r, p, e) \<Rightarrow> (r, lk\<lparr>lk_pool := Some p, lk_env := e\<rparr>))
      | None \<Rightarrow> (case direct (lk_env lk) of (r, e) \<Rightarrow> (r, lk\<lparr>lk_env := e\<rparr>)))"

definition acquire_worker ::
  "('h, 'e) net \<Rightarrow> string \<Rightarrow> ('h, 'e) link \<Rightarrow> 'h worker_client result \<times> ('h, 'e) link" where
  "acquire_worker net addr =
     through_pool (pool_acquire (nt_dial net) addr) (worker_connect (nt_dial net) addr)"

definition reconnect_worker ::
  "('h, 'e) net \<Rightarrow> string \<Rightarrow> u64 option \<Rightarrow> ('h, 'e) link \<Rightarrow> 'h worker_client result \<times> ('h, 'e) link" where
  "reconnect_worker net addr stale_generation =
     through_pool
       (case stale_generation of
          Some g \<Rightarrow> reconnect_if_stale (nt_dial net) addr g
        | None \<Rightarrow> pool_reconnect (nt_dial net) addr)
       (worker_connect (nt_dial net) addr)"

definition select_for_read ::
  "reader_config \<Rightarrow> ('h, 'e) net \<Rightarrow> file_info \<Rightarrow> i64 \<Rightarrow> ('h, 'e) link \<Rightarrow> worker_info result \<times> ('h, 'e) link" where
  "select_for_read cfg net fi block_id lk =
     (case view_select_worker_for_read (nt_now net (lk_env lk)) block_id (block_locations fi block_id)
             (fc_file_replication_number cfg) (fc_file_read_max_node_retry cfg) (lk_view lk) of
        (r, v) \<Rightarrow> (r, lk\<lparr>lk_view := v\<rparr>))"

text \<open>The second worker, after the connection to the first failed with \<open>e\<close>.\<close>

definition fail_over ::
  "reader_config \<Rightarrow> ('h, 'e) net \<Rightarrow> file_info \<Rightarrow> i64 \<Rightarrow> worker_info \<Rightarrow> client_error \<Rightarrow> ('h, 'e) link
   \<Rightarrow> 'h worker_client result \<times> ('h, 'e) link" where
  "fail_over cfg net fi block_id w err lk =
     (let lk = (case w_address w of
                  Some a \<Rightarrow> lk\<lparr>lk_view := view_mark_failed (nt_now net (lk_env lk)) a (lk_view lk)\<rparr>
                | None \<Rightarrow> lk)
      in case select_for_read cfg net fi block_id lk of
           (Inl _, lk) \<Rightarrow> (Inl err, lk)
         | (Inr retry, lk) \<Rightarrow>
             (case worker_addr retry of
                Inl e \<Rightarrow> (Inl e, lk)
              | Inr retry_addr \<Rightarrow> acquire_worker net retry_addr lk))"

text \<open>The client to read from, with the address of the worker that was selected first.\<close>

definition segment_worker ::
  "reader_config \<Rightarrow> ('h, 'e) net \<Rightarrow> file_info \<Rightarrow> i64 \<Rightarrow> ('h, 'e) link
   \<Rightarrow> (string \<times> 'h worker_client) result \<times> ('h, 'e) link" where
  "segment_worker cfg net fi block_id lk =
     (case select_for_read cfg net fi block_id lk of
        (Inl e, lk) \<Rightarrow> (Inl e, lk)
      | (Inr w, lk) \<Rightarrow>
          (case worker_addr w of
             Inl e \<Rightarrow> (Inl e, lk)
           | Inr addr \<Rightarrow>
               apfst (map_sum id (Pair addr))
                 (case acquire_worker net addr lk of
                    (Inr c, lk) \<Rightarrow> (Inr c, lk)
                  | (Inl e, lk) \<Rightarrow>
                      if is_authentication_failed e then reconnect_worker net addr None lk
                      else fail_over cfg net fi block_id w e lk)))"

section \<open>Reading one segment\<close>

definition try_read_block ::
  "reader_config \<Rightarrow> ('h, 'e) net \<Rightarrow> 'h worker_client \<Rightarrow> i64 \<Rightarrow> block_read_plan
   \<Rightarrow> open_ufs_block_options option \<Rightarrow> bool \<Rightarrow> 'e \<Rightarrow> (bytes result \<times> 'e) option" where
  "try_read_block cfg net c block_id plan ufs positioned e =
     (let offset = sint (rp_offset_in_block plan);
          len = sint (rp_length plan);
          chunk_size = sint (fc_chunk_size cfg);
          rq = (if positioned then read_block_positioned_request block_id offset len chunk_size ufs
                else read_block_request block_id offset len chunk_size None ufs)
      in case nt_read net (wc_inner c) rq e of
           (Inl err, e) \<Rightarrow> Some (Inl err, e)
         | (Inr items, e) \<Rightarrow>
             map_option (\<lambda>(res, _). (res, e))
               (block_read_all (nt_ack net (wc_inner c) rq) (open_direct block_id offset len items)))"

definition with_env :: "('a \<times> 'e) option \<Rightarrow> ('h, 'e) link \<Rightarrow> ('a \<times> ('h, 'e) link) option" where
  "with_env r lk = map_option (\<lambda>(x, e). (x, lk\<lparr>lk_env := e\<rparr>)) r"

definition read_segment ::
  "reader_config \<Rightarrow> ('h, 'e) net \<Rightarrow> file_reader \<Rightarrow> i64 \<Rightarrow> block_read_plan \<Rightarrow> bool \<Rightarrow> ('h, 'e) link
   \<Rightarrow> (bytes result \<times> ('h, 'e) link) option" where
  "read_segment cfg net fr block_id plan positioned lk =
     (let ufs = build_ufs_read_options fr plan
      in case segment_worker cfg net (fr_info fr) block_id lk of
           (Inl e, lk) \<Rightarrow> Some (Inl e, lk)
         | (Inr (addr, c), lk) \<Rightarrow>
             (case with_env (try_read_block cfg net c block_id plan ufs positioned (lk_env lk)) lk of
                Some (Inl e, lk) \<Rightarrow>
                  if is_authentication_failed e
                  then (case reconnect_worker net addr (Some (wc_generation c)) lk of
                          (Inl e, lk) \<Rightarrow> Some (Inl e, lk)
                        | (Inr c2, lk) \<Rightarrow>
                            with_env (try_read_block cfg net c2 block_id plan ufs positioned (lk_env lk)) lk)
                  else Some (Inl e, lk)
              | outcome \<Rightarrow> outcome))"

section \<open>Reading a range\<close>

fun read_plans ::
  "reader_config \<Rightarrow> ('h, 'e) net \<Rightarrow> file_reader \<Rightarrow> bool \<Rightarrow> block_read_plan list \<Rightarrow> bytes \<Rightarrow> ('h, 'e) link
   \<Rightarrow> (bytes result \<times> ('h, 'e) link) option" where
  "read_plans cfg net fr positioned [] buf lk = Some (Inr buf, lk)"
| "read_plans cfg net fr positioned (plan # plans) buf lk =
     (let block_id = resolve_block_id (fr_info fr) plan
      in if block_id \<le> 0 then read_plans cfg net fr positioned plans buf lk
         else case read_segment cfg net fr block_id plan positioned lk of
             None \<Rightarrow> None
           | Some (Inl e, lk) \<Rightarrow> Some (Inl e, lk)
           | Some (Inr data, lk) \<Rightarrow>
               if data = [] then Some (Inl (EInternal (''read_file_range: 0 bytes for block '' @ show_int block_id)), lk)
               else read_plans cfg net fr positioned plans (buf @ data) lk)"

definition read_file_range ::
  "reader_config \<Rightarrow> ('h, 'e) net \<Rightarrow> file_reader \<Rightarrow> bool \<Rightarrow> i64 \<Rightarrow> i64 \<Rightarrow> ('h, 'e) link
   \<Rightarrow> (bytes result \<times> ('h, 'e) link) option" where
  "read_file_range cfg net fr positioned abs_offset abs_end lk =
     (if abs_end \<le> abs_offset then Some (Inr [], lk)
      else read_plans cfg net fr positioned
             (plan_read (fr_info fr) (word_of_int abs_offset) (word_of_int (abs_end - abs_offset))) [] lk)"

text \<open>The next plan whose block has an id, with its index.\<close>

fun next_valid :: "file_info \<Rightarrow> nat \<Rightarrow> block_read_plan list \<Rightarrow> nat \<times> block_read_plan option" where
  "next_valid fi i [] = (i, None)"
| "next_valid fi i (plan # plans) =
     (if resolve_block_id fi plan \<le> 0 then next_valid fi (i + 1) plans else (i, Some plan))"

definition fill_mode_of :: "file_reader \<Rightarrow> fill_mode" where
  "fill_mode_of fr =
     (if \<not> fr_cache_fill fr then FillNone else if fr_cache_async_write fr then FillAsync else FillSync)"

text \<open>The bytes of a plan, through the page cache when there is one.\<close>

definition fetch_plan ::
  "'s cache_ops \<Rightarrow> reader_config \<Rightarrow> ('h, 'e) net \<Rightarrow> file_reader \<Rightarrow> block_read_plan \<Rightarrow> 's \<Rightarrow> ('h, 'e) link
   \<Rightarrow> (bytes result \<times> 's \<times> ('h, 'e) link) option" where
  "fetch_plan ops cfg net fr plan s lk =
     (let block_size = word_of_int (unwrap_or (fi_block_size_bytes (fr_info fr)) (64 * 1024 * 1024)) :: u64;
          abs_offset = sint (rp_block_index plan * block_size + rp_offset_in_block plan);
          abs_end = wrap_i64 (abs_offset + sint (rp_length plan))
      in if fr_cached fr
         then read_through_cache ops (read_file_range cfg net fr True) (fr_cache_file_id fr) (fr_cache_page_size fr)
                (sint (word_of_int (unwrap_or (fi_length (fr_info fr)) 0) :: u64))
                abs_offset abs_end (fill_mode_of fr) s lk
         else map_option (\<lambda>(r, lk). (r, s, lk)) (read_file_range cfg net fr False abs_offset abs_end lk))"

definition read_next_block ::
  "'s cache_ops \<Rightarrow> reader_config \<Rightarrow> ('h, 'e) net \<Rightarrow> file_reader \<Rightarrow> 's \<Rightarrow> ('h, 'e) link
   \<Rightarrow> (bytes option result \<times> file_reader \<times> 's \<times> ('h, 'e) link) option" where
  "read_next_block ops cfg net fr s lk =
     (case next_valid (fr_info fr) (fr_current_plan_index fr) (drop (fr_current_plan_index fr) (fr_plans fr)) of
        (i, None) \<Rightarrow> Some (Inr None, fr\<lparr>fr_current_plan_index := i\<rparr>, s, lk)
      | (i, Some plan) \<Rightarrow>
          let fr = fr\<lparr>fr_current_plan_index := i\<rparr>
          in case fetch_plan ops cfg net fr plan s lk of
               None \<Rightarrow> None
             | Some (Inl e, s, lk) \<Rightarrow> Some (Inl e, fr, s, lk)
             | Some (Inr data, s, lk) \<Rightarrow> Some (Inr (Some data),
                 fr\<lparr>fr_total_bytes_read := fr_total_bytes_read fr + of_nat (length data),
                    fr_current_plan_index := i + 1\<rparr>, s, lk))"

lemma next_valid_Some:
  "next_valid fi i plans = (j, Some p) \<Longrightarrow> i \<le> j \<and> j < i + length plans \<and> plans ! (j - i) = p"
  by (induction fi i plans rule: next_valid.induct) (auto simp: nth_Cons' split: if_splits)

lemma read_next_block_advances:
  assumes "read_next_block ops cfg net fr s lk = Some (Inr (Some d), fr', s', lk')"
  shows "fr_plans fr' = fr_plans fr \<and> fr_current_plan_index fr < fr_current_plan_index fr'
    \<and> fr_current_plan_index fr' \<le> length (fr_plans fr)"
proof -
  obtain i plan where n: "next_valid (fr_info fr) (fr_current_plan_index fr)
      (drop (fr_current_plan_index fr) (fr_plans fr)) = (i, Some plan)"
    using assms by (auto simp: read_next_block_def split: prod.splits option.splits)
  then have "fr_plans fr' = fr_plans fr" "fr_current_plan_index fr' = i + 1"
    using assms by (auto simp: read_next_block_def Let_def split: option.splits sum.splits)
  then show ?thesis using next_valid_Some [OF n] by auto
qed

function (sequential) file_read_loop ::
  "'s cache_ops \<Rightarrow> reader_config \<Rightarrow> ('h, 'e) net \<Rightarrow> file_reader \<Rightarrow> 's \<Rightarrow> ('h, 'e) link \<Rightarrow> bytes
   \<Rightarrow> (bytes result \<times> file_reader \<times> 's \<times> ('h, 'e) link) option" where
  "file_read_loop ops cfg net fr s lk buf =
     (case read_next_block ops cfg net fr s lk of
        None \<Rightarrow> None
      | Some (Inl e, fr, s, lk) \<Rightarrow> Some (Inl e, fr, s, lk)
      | Some (Inr None, fr, s, lk) \<Rightarrow> Some (Inr buf, fr, s, lk)
      | Some (Inr (Some chunk), fr, s, lk) \<Rightarrow> file_read_loop ops cfg net fr s lk (buf @ chunk))"
  by pat_completeness auto
termination
proof (relation "measure (\<lambda>(_, _, _, fr, _). length (fr_plans fr) - fr_current_plan_index fr)")
  fix ops :: "'s cache_ops" and cfg and net :: "('h, 'e) net" and fr s lk buf x r y fr' z s' lk' w chunk
  assume "read_next_block ops cfg net fr s lk = Some x" "(r, y) = x" "(fr', z) = y" "(s', lk') = z"
    "r = Inr w" "w = Some chunk"
  then have "read_next_block ops cfg net fr s lk = Some (Inr (Some chunk), fr', s', lk')" by auto
  from read_next_block_advances [OF this]
  show "((ops, cfg, net, fr', s', lk', buf @ chunk), ops, cfg, net, fr, s, lk, buf)
      \<in> measure (\<lambda>(_, _, _, fr, _). length (fr_plans fr) - fr_current_plan_index fr)" by auto
qed simp

declare file_read_loop.simps [simp del]

definition file_read_all ::
  "'s cache_ops \<Rightarrow> reader_config \<Rightarrow> ('h, 'e) net \<Rightarrow> file_reader \<Rightarrow> 's \<Rightarrow> ('h, 'e) link
   \<Rightarrow> (bytes result \<times> file_reader \<times> 's \<times> ('h, 'e) link) option" where
  "file_read_all ops cfg net fr s lk = file_read_loop ops cfg net fr s lk []"

section \<open>What a read returns\<close>

definition block_id_at :: "file_info \<Rightarrow> nat \<Rightarrow> i64" where
  "block_id_at fi i =
     unwrap_or (Option.bind (if i < length (fi_file_block_infos fi) then Some (fi_file_block_infos fi ! i) else None)
         assigned_id)
       (if i < length (fi_block_ids fi) then fi_block_ids fi ! i else -1)"

text \<open>The status describes the content: its length, a block size, an id for every block.\<close>

definition describes :: "file_info \<Rightarrow> bytes \<Rightarrow> bool" where
  "describes fi content \<longleftrightarrow> fi_length fi = Some (int (length content)) \<and> length content < 2 ^ 63
     \<and> 0 < file_block_size fi \<and> file_block_size fi < 2 ^ 63
     \<and> (\<forall>i. i * file_block_size fi < length content \<longrightarrow> 0 < block_id_at fi i)"

text \<open>
  What the workers promise: an opened stream delivers bytes of the requested range of the
  block, from its start on; it may fail, end early or fall silent at any point.
\<close>

definition workers_serve :: "('h, 'e) net \<Rightarrow> file_info \<Rightarrow> bytes \<Rightarrow> bool" where
  "workers_serve net fi content \<longleftrightarrow>
     (\<forall>h rq e items e' i off n. nt_read net h rq e = (Inr items, e') \<longrightarrow>
        i * file_block_size fi < length content \<longrightarrow> rr_block_id rq = Some (block_id_at fi i) \<longrightarrow>
        rr_offset rq = Some (int off) \<longrightarrow> rr_length rq = Some (int n) \<longrightarrow>
        prefix (arriving items) (seg off n (block_of (file_block_size fi) i content)))"

lemma workers_serveD:
  "workers_serve net fi content \<Longrightarrow> nt_read net h rq e = (Inr items, e') \<Longrightarrow>
     i * file_block_size fi < length content \<Longrightarrow> rr_block_id rq = Some (block_id_at fi i) \<Longrightarrow>
     rr_offset rq = Some (int off) \<Longrightarrow> rr_length rq = Some (int n) \<Longrightarrow>
     prefix (arriving items) (seg off n (block_of (file_block_size fi) i content))"
  unfolding workers_serve_def by blast

definition falls_silent :: "('h, 'e) net \<Rightarrow> bool" where
  "falls_silent net \<longleftrightarrow> (\<exists>h rq e items e'. nt_read net h rq e = (Inr items, e') \<and> \<not> settles items)"

text \<open>The outcomes that are right when \<open>x\<close> is asked for.\<close>

definition yields :: "('h, 'e) net \<Rightarrow> bytes \<Rightarrow> (bytes result \<times> 'w) option \<Rightarrow> bool" where
  "yields net x outcome = (case outcome of
       None \<Rightarrow> falls_silent net
     | Some (Inr data, _) \<Rightarrow> data = x
     | Some (Inl _, _) \<Rightarrow> True)"

lemma yields_simps [simp]:
  "yields net x None = falls_silent net"
  "yields net x (Some (Inr data, w)) = (data = x)"
  "yields net x (Some (Inl e, w)) = True"
  by (simp_all add: yields_def)

lemma yields_with_env: "yields net x r \<Longrightarrow> yields net x (with_env r lk)"
  by (auto simp: yields_def with_env_def split: option.splits sum.splits)

text \<open>A read that does not return waits on a silent stream, whatever it asked for.\<close>

lemma try_read_block_None:
  "try_read_block cfg net c block_id plan ufs positioned e = None \<Longrightarrow> falls_silent net"
proof -
  assume none: "try_read_block cfg net c block_id plan ufs positioned e = None"
  define rq where "rq = (if positioned
      then read_block_positioned_request block_id (sint (rp_offset_in_block plan)) (sint (rp_length plan)) (sint (fc_chunk_size cfg)) ufs
      else read_block_request block_id (sint (rp_offset_in_block plan)) (sint (rp_length plan)) (sint (fc_chunk_size cfg)) None ufs)"
  obtain items e' where "nt_read net (wc_inner c) rq e = (Inr items, e')"
    "block_read_all (nt_ack net (wc_inner c) rq) (open_direct block_id (sint (rp_offset_in_block plan)) (sint (rp_length plan)) items) = None"
    using none unfolding try_read_block_def Let_def rq_def [symmetric]
    by (auto split: prod.splits sum.splits)
  then show ?thesis using block_read_all_returns unfolding falls_silent_def by metis
qed

lemma read_segment_None: "read_segment cfg net fr block_id plan positioned lk = None \<Longrightarrow> falls_silent net"
  by (auto simp: read_segment_def Let_def with_env_def dest: try_read_block_None
      split: prod.splits sum.splits option.splits if_splits)

lemma read_plans_None: "read_plans cfg net fr positioned plans buf lk = None \<Longrightarrow> falls_silent net"
  by (induction cfg net fr positioned plans buf lk rule: read_plans.induct)
    (auto simp: Let_def dest: read_segment_None split: option.splits sum.splits if_splits)

lemma read_file_range_None: "read_file_range cfg net fr positioned a b lk = None \<Longrightarrow> falls_silent net"
  by (auto simp: read_file_range_def dest: read_plans_None split: if_splits)

text \<open>A segment inside the file, of a block that has an id.\<close>

definition good_plan :: "file_info \<Rightarrow> bytes \<Rightarrow> block_read_plan \<Rightarrow> bool" where
  "good_plan fi content p \<longleftrightarrow> 0 < unat (rp_length p)
     \<and> unat (rp_offset_in_block p) + unat (rp_length p) \<le> file_block_size fi
     \<and> unat (rp_block_index p) * file_block_size fi + unat (rp_offset_in_block p) + unat (rp_length p) \<le> length content
     \<and> resolve_block_id fi p = block_id_at fi (unat (rp_block_index p))
     \<and> 0 < block_id_at fi (unat (rp_block_index p))"

lemma good_planD:
  assumes "good_plan fi content p"
  shows "0 < unat (rp_length p)" "unat (rp_offset_in_block p) + unat (rp_length p) \<le> file_block_size fi"
    "unat (rp_block_index p) * file_block_size fi + unat (rp_offset_in_block p) + unat (rp_length p) \<le> length content"
    "resolve_block_id fi p = block_id_at fi (unat (rp_block_index p))"
    "0 < block_id_at fi (unat (rp_block_index p))"
  using assms by (simp_all add: good_plan_def)

lemma describesD:
  assumes "describes fi content"
  shows "fi_length fi = Some (int (length content))" "length content < 2 ^ 63"
    "0 < file_block_size fi" "file_block_size fi < 2 ^ 63"
    "i * file_block_size fi < length content \<Longrightarrow> 0 < block_id_at fi i"
  using assms by (simp_all add: describes_def)

lemma plan_read_good:
  assumes "describes fi content" "p \<in> set (plan_read fi offset len)"
  shows "good_plan fi content p"
proof -
  note d = describesD [OF assms(1)]
  note seg = plan_read_segment [OF d(1-4) assms(2)]
  have "0 < block_id_at fi (unat (rp_block_index p))" using d(5) seg(1,3) by simp
  moreover have "resolve_block_id fi p = block_id_at fi (unat (rp_block_index p))"
    by (simp add: resolve_block_id_def block_id_at_def seg(4) Let_def)
  ultimately show ?thesis using seg(1-3) by (simp add: good_plan_def)
qed

lemma plan_bytes_seg:
  assumes "good_plan fi content p"
  shows "plan_bytes fi content p = seg (unat (rp_block_index p) * file_block_size fi + unat (rp_offset_in_block p))
      (unat (rp_length p)) content"
    and "length (plan_bytes fi content p) = unat (rp_length p)"
proof -
  note g = good_planD [OF assms]
  let ?c = "unat (rp_block_index p) * file_block_size fi + unat (rp_offset_in_block p)"
  have "0 < file_block_size fi" using g(1,2) by linarith
  then have "?c div file_block_size fi = unat (rp_block_index p)" "?c mod file_block_size fi = unat (rp_offset_in_block p)"
    using g(1,2) by simp_all
  then show 1: "plan_bytes fi content p = seg ?c (unat (rp_length p)) content"
    using seg_block [of "unat (rp_length p)" "file_block_size fi" ?c content] g(2) by (simp add: plan_bytes_def)
  show "length (plan_bytes fi content p) = unat (rp_length p)"
    unfolding 1 using g(3) by (simp add: length_seg)
qed

lemma try_read_block_exact:
  assumes "workers_serve net fi content" "describes fi content" "good_plan fi content p"
    and "block_id = block_id_at fi (unat (rp_block_index p))"
  shows "yields net (plan_bytes fi content p) (try_read_block cfg net c block_id p ufs positioned e)"
proof -
  note g = good_planD [OF assms(3)]
  define off len where "off = unat (rp_offset_in_block p)" and "len = unat (rp_length p)"
  have w: "sint (rp_offset_in_block p) = int off" "sint (rp_length p) = int len"
    unfolding off_def len_def using g(1,2) describesD(4) [OF assms(2)] by (intro sint_of_unat; linarith)+
  define rq where "rq = (if positioned
      then read_block_positioned_request block_id (int off) (int len) (sint (fc_chunk_size cfg)) ufs
      else read_block_request block_id (int off) (int len) (sint (fc_chunk_size cfg)) None ufs)"
  have rq: "rr_block_id rq = Some (block_id_at fi (unat (rp_block_index p)))"
    "rr_offset rq = Some (int off)" "rr_length rq = Some (int len)"
    by (simp_all add: rq_def assms(4) read_block_request_def read_block_positioned_request_def)
  have eq: "try_read_block cfg net c block_id p ufs positioned e =
      (case nt_read net (wc_inner c) rq e of
         (Inl err, e) \<Rightarrow> Some (Inl err, e)
       | (Inr items, e) \<Rightarrow> map_option (\<lambda>(res, _). (res, e))
           (block_read_all (nt_ack net (wc_inner c) rq) (open_direct block_id (int off) (int len) items)))"
    by (simp only: try_read_block_def Let_def rq_def w)
  obtain r e' where read: "nt_read net (wc_inner c) rq e = (r, e')" by force
  show ?thesis
  proof (cases r)
    case (Inr items)
    have "unat (rp_block_index p) * file_block_size fi < length content" using g(1,3) by linarith
    from workers_serveD [OF assms(1) read [unfolded Inr] this rq]
    have "prefix (arriving items) (plan_bytes fi content p)" by (simp add: plan_bytes_def off_def len_def)
    moreover have "int (length (plan_bytes fi content p)) = int len"
      using plan_bytes_seg(2) [OF assms(3)] by (simp add: len_def)
    ultimately have "data = plan_bytes fi content p"
      if "block_read_all send (open_direct block_id (int off) (int len) items) = Some (Inr data, br)" for send data br
      using block_read_all_exact(1) [OF _ _ that] by blast
    moreover have "falls_silent net"
      if "block_read_all send (open_direct block_id (int off) (int len) items) = None" for send
      using block_read_all_returns that read Inr unfolding falls_silent_def by metis
    ultimately show ?thesis
      unfolding eq read Inr
      by (cases "block_read_all (nt_ack net (wc_inner c) rq) (open_direct block_id (int off) (int len) items)")
        (auto simp: yields_def split: sum.splits)
  qed (simp add: eq read)
qed

lemma read_segment_exact:
  assumes "workers_serve net (fr_info fr) content" "describes (fr_info fr) content" "good_plan (fr_info fr) content p"
  shows "yields net (plan_bytes (fr_info fr) content p)
    (read_segment cfg net fr (resolve_block_id (fr_info fr) p) p positioned lk)"
proof -
  note t = try_read_block_exact [OF assms good_planD(4) [OF assms(3)]]
  have t: "yields net (plan_bytes (fr_info fr) content p) (with_env
      (try_read_block cfg net c (resolve_block_id (fr_info fr) p) p ufs positioned e) lk)" for c ufs e lk
    using yields_with_env [OF t] .
  let ?x = "plan_bytes (fr_info fr) content p" and ?b = "resolve_block_id (fr_info fr) p"
  let ?attempt = "\<lambda>c lk. with_env (try_read_block cfg net c ?b p (build_ufs_read_options fr p) positioned (lk_env lk)) lk"
  have again: "yields net ?x (case reconnect_worker net addr g lk of
      (Inl e, lk) \<Rightarrow> Some (Inl e, lk) | (Inr c2, lk) \<Rightarrow> ?attempt c2 lk)" for addr g lk
    using t by (auto split: prod.splits sum.splits)
  have once: "yields net ?x (case ?attempt c lk1 of
      Some (Inl e, lk) \<Rightarrow> if is_authentication_failed e
        then (case reconnect_worker net addr g lk of
            (Inl e, lk) \<Rightarrow> Some (Inl e, lk) | (Inr c2, lk) \<Rightarrow> ?attempt c2 lk)
        else Some (Inl e, lk)
    | outcome \<Rightarrow> outcome)" for addr c g lk1
    using t [of c "build_ufs_read_options fr p" "lk_env lk1" lk1] again
    by (cases "?attempt c lk1") (auto split: sum.splits)
  show ?thesis
    using once unfolding read_segment_def Let_def by (auto split: prod.splits sum.splits)
qed

lemma read_plans_exact:
  assumes "workers_serve net (fr_info fr) content" "describes (fr_info fr) content"
    and "\<And>p. p \<in> set plans \<Longrightarrow> good_plan (fr_info fr) content p"
  shows "yields net (buf @ concat (map (plan_bytes (fr_info fr) content) plans))
    (read_plans cfg net fr positioned plans buf lk)"
  using assms(3)
proof (induction plans arbitrary: buf lk)
  case (Cons p plans)
  have p: "good_plan (fr_info fr) content p" using Cons.prems by simp
  have "0 < resolve_block_id (fr_info fr) p" using good_planD(4,5) [OF p] by simp
  moreover note read_segment_exact [OF assms(1,2) p, of cfg positioned lk]
  moreover have "yields net ((buf @ plan_bytes (fr_info fr) content p) @ concat (map (plan_bytes (fr_info fr) content) plans))
      (read_plans cfg net fr positioned plans (buf @ plan_bytes (fr_info fr) content p) lk')" for lk'
    using Cons.IH Cons.prems by (meson list.set_intros(2))
  ultimately show ?case
    by (auto simp: Let_def yields_def [of net _ "read_segment cfg net fr _ p positioned lk"] split: option.splits sum.splits)
qed simp

lemma read_file_range_exact:
  assumes "workers_serve net (fr_info fr) content" "describes (fr_info fr) content"
    and "a \<le> b" "b \<le> length content"
  shows "yields net (seg a (b - a) content) (read_file_range cfg net fr positioned (int a) (int b) lk)"
proof (cases "a = b")
  case False
  note d = describesD [OF assms(2)]
  have w: "unat (word_of_int (int a) :: u64) = a" "unat (word_of_int (int b - int a) :: u64) = b - a"
    using assms(3,4) d(2) unat_of_int_nat [of "int a"] unat_of_int_nat [of "int b - int a"]
    by (simp_all add: nat_diff_distrib')
  have "concat (map (plan_bytes (fr_info fr) content)
      (plan_read (fr_info fr) (word_of_int (int a)) (word_of_int (int b - int a)))) = seg a (b - a) content"
    using plan_read_concat [OF d(1-4)] w by simp
  then show ?thesis
    using read_plans_exact [OF assms(1,2), where buf = "[]"
        and plans = "plan_read (fr_info fr) (word_of_int (int a)) (word_of_int (int b - int a))"]
      plan_read_good [OF assms(2)] assms(3) False
    by (simp add: read_file_range_def)
qed (simp add: read_file_range_def)


text \<open>The reader is an exact miss source.\<close>

lemma read_file_range_ext_exact:
  assumes "workers_serve net (fr_info fr) content" "describes (fr_info fr) content"
  shows "ext_exact (read_file_range cfg net fr positioned) content"
  unfolding ext_exact_def
proof (intro allI impI)
  fix a b e
  assume "a \<le> b \<and> b \<le> length content"
  then have "yields net (seg a (b - a) content) (read_file_range cfg net fr positioned (int a) (int b) e)"
    using read_file_range_exact [OF assms] by blast
  then show "case read_file_range cfg net fr positioned (int a) (int b) e of
      Some (Inr bytes, _) \<Rightarrow> bytes = seg a (b - a) content | _ \<Rightarrow> True"
    by (auto simp: yields_def split: option.splits sum.splits)
qed

lemma abs_offset_value:
  assumes "describes fi content" "good_plan fi content p"
  shows "sint (rp_block_index p * word_of_int (unwrap_or (fi_block_size_bytes fi) (64 * 1024 * 1024)) + rp_offset_in_block p)
      = int (unat (rp_block_index p) * file_block_size fi + unat (rp_offset_in_block p))"
proof -
  note d = describesD [OF assms(1)] and g = good_planD [OF assms(2)]
  define bs :: u64 where "bs = word_of_int (unwrap_or (fi_block_size_bytes fi) (64 * 1024 * 1024))"
  define c where "c = unat (rp_block_index p) * file_block_size fi"
  have bs: "unat bs = file_block_size fi"
    using d(3,4) unfolding file_block_size_def bs_def by (intro unat_of_int_nat) auto
  have small: "c + unat (rp_offset_in_block p) < 2 ^ 63"
    using g(1,3) d(2) unfolding c_def by linarith
  then have "c < 2 ^ 64" by simp
  then have "unat (rp_block_index p * bs) = c"
    unfolding c_def bs [symmetric] by (intro unat_mult_nowrap) simp
  then have "unat (rp_block_index p * bs + rp_offset_in_block p) = c + unat (rp_offset_in_block p)"
    using small by (subst unat_add_nowrap) auto
  then show ?thesis unfolding bs_def [symmetric] c_def [symmetric] using small by (subst sint_of_unat) auto
qed

text \<open>A whole read: the invariant of the cache is kept and the bytes are \<open>x\<close>.\<close>

definition completes ::
  "('s \<Rightarrow> bool) \<Rightarrow> ('h, 'e) net \<Rightarrow> bytes \<Rightarrow> (bytes result \<times> file_reader \<times> 's \<times> ('h, 'e) link) option \<Rightarrow> bool" where
  "completes I net x outcome = (case outcome of
       None \<Rightarrow> falls_silent net
     | Some (r, _, s, _) \<Rightarrow> I s \<and> (r = Inr x \<or> (\<exists>e. r = Inl e)))"

context page_cache
begin

lemma fetch_plan_exact:
  assumes "workers_serve net (fr_info fr) content" "describes (fr_info fr) content" "good_plan (fr_info fr) content p"
    and "honest T s"
    and "fr_cached fr \<Longrightarrow> file_pages T (fr_cache_file_id fr) (unat (max (fr_cache_page_size fr) 1)) content"
    and "fr_cached fr \<Longrightarrow> int (length content) + int (unat (max (fr_cache_page_size fr) 1)) < 2 ^ 63"
  shows "(case fetch_plan ops cfg net fr p s lk of
       None \<Rightarrow> falls_silent net
     | Some (r, s', _) \<Rightarrow> honest T s' \<and> (r = Inr (plan_bytes (fr_info fr) content p) \<or> (\<exists>e. r = Inl e)))"
proof -
  note d = describesD [OF assms(2)] and g = good_planD [OF assms(3)]
  define c t where "c = unat (rp_block_index p) * file_block_size (fr_info fr) + unat (rp_offset_in_block p)"
    and "t = c + unat (rp_length p)"
  have t: "t \<le> length content" "c \<le> t" using g(3) by (simp_all add: c_def t_def)
  have x: "plan_bytes (fr_info fr) content p = seg c (t - c) content"
    using plan_bytes_seg(1) [OF assms(3)] by (simp add: c_def t_def)
  have len: "sint (rp_length p) = int (unat (rp_length p))"
    using g(2) d(4) by (intro sint_of_unat) linarith
  have stop: "wrap_i64 (int c + sint (rp_length p)) = int t"
  proof -
    have "int c + sint (rp_length p) = int t" by (simp add: len t_def)
    moreover have "t < 2 ^ 63" using t d(2) by linarith
    ultimately show ?thesis by (simp add: wrap_i64_id)
  qed
  have flen: "sint (word_of_int (unwrap_or (fi_length (fr_info fr)) 0) :: u64) = int (length content)"
    unfolding d(1) using d(2) unat_of_int_nat [of "int (length content)"] by (subst sint_of_unat) auto
  note vals = abs_offset_value [OF assms(2,3), folded c_def] stop flen
  show ?thesis
  proof (cases "fr_cached fr")
    case True
    have "\<exists>a b e. read_file_range cfg net fr True a b e = None \<Longrightarrow> falls_silent net"
      using read_file_range_None by metis
    with read_through_range [OF assms(5) read_file_range_ext_exact [OF assms(1,2)] assms(4) t(2,1) assms(6),
        OF True True, of cfg True "fill_mode_of fr" lk]
    show ?thesis
      unfolding fetch_plan_def Let_def vals x using True by (auto split: option.splits)
  next
    case False
    then show ?thesis
      using read_file_range_exact [OF assms(1,2) t(2,1), of cfg False lk] assms(4)
      unfolding fetch_plan_def Let_def vals x
      by (auto simp: yields_def split: option.splits sum.splits)
  qed
qed

lemma next_valid_good:
  assumes "\<And>p. p \<in> set plans \<Longrightarrow> good_plan fi content p"
  shows "next_valid fi i plans = (i, case plans of [] \<Rightarrow> None | p # _ \<Rightarrow> Some p)"
proof (cases plans)
  case (Cons p ps)
  then have "0 < resolve_block_id fi p" using good_planD(4,5) [of fi content p] assms by simp
  then show ?thesis using Cons by simp
qed simp

text \<open>The loop returns what is left of the plan.\<close>

lemma file_read_loop_exact:
  assumes "workers_serve net (fr_info fr) content" "describes (fr_info fr) content"
    and "\<And>p. p \<in> set (fr_plans fr) \<Longrightarrow> good_plan (fr_info fr) content p" "honest T s"
    and "fr_cached fr \<Longrightarrow> file_pages T (fr_cache_file_id fr) (unat (max (fr_cache_page_size fr) 1)) content"
    and "fr_cached fr \<Longrightarrow> int (length content) + int (unat (max (fr_cache_page_size fr) 1)) < 2 ^ 63"
  shows "completes (honest T) net
    (buf @ concat (map (plan_bytes (fr_info fr) content) (drop (fr_current_plan_index fr) (fr_plans fr))))
    (file_read_loop ops cfg net fr s lk buf)"
  using assms
proof (induction "length (fr_plans fr) - fr_current_plan_index fr" arbitrary: fr s lk buf rule: less_induct)
  case less
  let ?i = "fr_current_plan_index fr"
  have nv: "next_valid (fr_info fr) ?i (drop ?i (fr_plans fr))
      = (?i, case drop ?i (fr_plans fr) of [] \<Rightarrow> None | p # _ \<Rightarrow> Some p)"
    by (rule next_valid_good [where content = content]) (use less.prems(3) in_set_dropD in metis)
  show ?case
  proof (cases "drop ?i (fr_plans fr)")
    case Nil
    then have "file_read_loop ops cfg net fr s lk buf = Some (Inr buf, fr, s, lk)"
      using nv by (simp add: file_read_loop.simps [of ops cfg net fr] read_next_block_def)
    then show ?thesis using less.prems(4) Nil by (simp add: completes_def)
  next
    case (Cons p plans)
    have p: "good_plan (fr_info fr) content p" "?i < length (fr_plans fr)" "drop (Suc ?i) (fr_plans fr) = plans"
    proof -
      show "good_plan (fr_info fr) content p"
        using less.prems(3) in_set_dropD [of p ?i "fr_plans fr"] Cons by simp
      show "?i < length (fr_plans fr)" using Cons by (metis drop_all list.distinct(1) not_le)
      show "drop (Suc ?i) (fr_plans fr) = plans" using arg_cong [OF Cons, of tl] by (simp add: drop_Suc tl_drop)
    qed
    note f = fetch_plan_exact [OF less.prems(1,2) p(1) less.prems(4-6), of cfg lk]
    have nv': "next_valid (fr_info fr) ?i (drop ?i (fr_plans fr)) = (?i, Some p)" by (subst nv) (simp add: Cons)
    have "read_next_block ops cfg net fr s lk = (case fetch_plan ops cfg net fr p s lk of
        None \<Rightarrow> None
      | Some (Inl e, s, lk) \<Rightarrow> Some (Inl e, fr, s, lk)
      | Some (Inr data, s, lk) \<Rightarrow> Some (Inr (Some data),
          fr\<lparr>fr_total_bytes_read := fr_total_bytes_read fr + of_nat (length data),
             fr_current_plan_index := ?i + 1\<rparr>, s, lk))"
      unfolding read_next_block_def nv' by simp
    note step = file_read_loop.simps [of ops cfg net fr] this
    show ?thesis
    proof (cases "fetch_plan ops cfg net fr p s lk")
      case None
      then show ?thesis using f by (simp add: step completes_def)
    next
      case (Some out)
      obtain r s' lk' where out: "out = (r, s', lk')" by (cases out)
      show ?thesis
      proof (cases r)
        case (Inl e)
        then show ?thesis using f Some out by (simp add: step completes_def)
      next
        case (Inr data)
        have d: "data = plan_bytes (fr_info fr) content p" "honest T s'" using f Some out Inr by auto
        let ?fr = "fr\<lparr>fr_total_bytes_read := fr_total_bytes_read fr + of_nat (length data), fr_current_plan_index := ?i + 1\<rparr>"
        have "file_read_loop ops cfg net fr s lk buf = file_read_loop ops cfg net ?fr s' lk' (buf @ data)"
          using Some out Inr by (simp add: step)
        moreover have "length (fr_plans ?fr) - fr_current_plan_index ?fr < length (fr_plans fr) - ?i" using p(2) by simp
        moreover have "buf @ concat (map (plan_bytes (fr_info fr) content) (drop ?i (fr_plans fr)))
            = (buf @ data) @ concat (map (plan_bytes (fr_info fr) content) (drop (Suc ?i) (fr_plans fr)))"
          using d(1) p(3) Cons by simp
        ultimately show ?thesis
          using less.hyps [of ?fr s' "buf @ data" lk'] less.prems d(2) by simp
      qed
    qed
  qed
qed

end


text \<open>A reader that a range was opened with, its page cache attached or not.\<close>

definition opened_for :: "reader_config \<Rightarrow> file_info \<Rightarrow> u64 \<Rightarrow> u64 \<Rightarrow> file_reader \<Rightarrow> bool" where
  "opened_for cfg fi offset len fr \<longleftrightarrow> fr_info fr = fi \<and> fr_plans fr = plan_read fi offset len \<and> fr_current_plan_index fr = 0"

text \<open>
  (C2) A file read is exact or an error.  A reader opened on a range of a file whose status
  describes its content, over any worker list, failed workers, pool and dialling outcomes, with
  workers that send only bytes of what they are asked for, directly or through a local page cache
  in any state reachable from empty directories in which only pages of this content were put for
  the file: a read of all its segments returns exactly the bytes of the range, cut off at the end
  of the file, or an error, and it returns unless a stream falls silent.
\<close>

theorem file_read_exact:
  assumes "foyer_ok fo" and "cm_create fo build xxh3 made env options d = Inr s0"
    and "\<And>dir. re_list env dir = None" and "\<And>p c k. fo_entries fo (build p c k) = Map.empty"
    and "length (co_dirs options) < 2 ^ 64" and "cm_steps False fo xxh3 T s0 s"
    and "\<And>pid. io_ok (ios pid)" and "\<And>pid page. T pid page \<Longrightarrow> plain_name (file_id pid)"
    and "opened_for cfg fi offset len fr" and "describes fi content" and "workers_serve net fi content"
    and "fr_cached fr \<Longrightarrow> file_pages T (fr_cache_file_id fr) (unat (max (fr_cache_page_size fr) 1)) content"
    and "fr_cached fr \<Longrightarrow> int (length content) + int (unat (max (fr_cache_page_size fr) 1)) < 2 ^ 63"
  shows "(case file_read_all (local_ops fo xxh3 ios) cfg net fr s lk of
       None \<Rightarrow> falls_silent net
     | Some (res, _) \<Rightarrow> res = Inr (seg (unat offset) (unat len) content) \<or> (\<exists>e. res = Inl e))"
proof -
  have fr: "fr_info fr = fi" "fr_plans fr = plan_read fi offset len" "fr_current_plan_index fr = 0"
    using assms(9) by (simp_all add: opened_for_def)
  have "cache_ok fo xxh3 T s0" using cm_create_fresh [OF assms(2-5)] by simp
  then have "local_honest fo xxh3 ios T s"
    using cm_steps_ok [OF assms(1,6)] assms(1,7,8) by (simp add: local_honest_def)
  from local.file_read_loop_exact [where fr = fr and content = content and lk = lk and cfg = cfg and net = net and buf = "[]",
      OF _ _ _ this assms(12,13)] plan_read_good [OF assms(10)] assms(10,11)
  show ?thesis
    using plan_read_concat [OF describesD(1-4) [OF assms(10)], of offset len]
    by (auto simp: file_read_all_def fr completes_def split: option.splits)
qed


declare split_pages.simps [code]

section \<open>Two workers and a file of two blocks\<close>

definition demo_host :: "i64 \<Rightarrow> string \<Rightarrow> worker_info" where
  "demo_host wid host = (sample_worker wid host)\<lparr>w_address := map_option (\<lambda>a. a\<lparr>a_rpc_port := Some 1\<rparr>)
     (w_address (sample_worker wid host))\<rparr>"

definition demo_location :: "string \<Rightarrow> block_location" where
  "demo_location host = location_of (demo_host (if host = ''a'' then 1 else 2) host)"

definition two_blocks :: "string list \<Rightarrow> file_info" where
  "two_blocks hosts = default_file_info\<lparr>fi_file_id := Some 42, fi_length := Some 9, fi_block_size_bytes := Some 5,
     fi_block_ids := [100, 101], fi_file_block_infos := map (\<lambda>b.
       \<lparr>fbi_block_info = Some \<lparr>bi_block_id = Some b, bi_length = None, bi_locations = map demo_location hosts\<rparr>,
        fbi_offset = None\<rparr>) [100, 101]\<rparr>"

definition demo_link :: "(string, nat) link" where
  "demo_link = \<lparr>lk_pool = Some (pool_new 1),
     lk_view = \<lparr>wv_workers = [demo_host 1 ''a'', demo_host 2 ''b''], wv_hash_ring = [], wv_local_worker_id = None,
       wv_failed = failed_new, wv_failure_ttl = 5\<rparr>, lk_env = 0\<rparr>"

text \<open>Every address answers, and every worker has both blocks.\<close>

definition demo_stream :: "read_request \<Rightarrow> stream_item list" where
  "demo_stream rq = [Data (Some (seg (nat (unwrap_or (rr_offset rq) 0)) (nat (unwrap_or (rr_length rq) 0))
     (block_of 5 (if rr_block_id rq = Some 100 then 0 else 1) demo_file))), End]"

definition demo_net :: "(string, nat) net" where
  "demo_net = \<lparr>nt_now = id, nt_dial = (\<lambda>addr e. (Inr addr, e + 1)),
     nt_read = (\<lambda>h rq e. (Inr (demo_stream rq), e + 1)), nt_ack = (\<lambda>_ _ _. Sent)\<rparr>"

definition demo_config :: reader_config where
  "demo_config = \<lparr>fc_chunk_size = 4, fc_file_replication_number = 1, fc_file_read_max_node_retry = 1,
     fc_check_block_replicas = 0, fc_client_cache_page_size = 4, fc_client_cache_async_write_enabled = False,
     fc_file_metadata_sync_interval = 1, fc_range_coalesce_enabled = True, fc_range_coalesce_gap_bytes = 2,
     fc_range_coalesce_max_bytes = 8\<rparr>"

definition demo_reader :: file_reader where
  "demo_reader = (file_reader_build demo_config ''/f'' (two_blocks [''a'']) 3 100)
     \<lparr>fr_cached := True, fr_cache_file_id := ''42'', fr_cache_page_size := 4, fr_cache_fill := True\<rparr>"

lemma two_blocks_describes: "describes (two_blocks hosts) demo_file"
proof -
  have "0 < block_id_at (two_blocks hosts) i" if "i * 5 < 9" for i
  proof -
    have "i = 0 \<or> i = 1" using that by linarith
    then show ?thesis by (auto simp: block_id_at_def two_blocks_def assigned_id_def)
  qed
  then show ?thesis
    by (auto simp: describes_def two_blocks_def file_block_size_def demo_file_def)
qed

lemma two_blocks_served: "workers_serve demo_net (two_blocks hosts) demo_file"
proof -
  have "block_of 5 (if block_id_at (two_blocks hosts) i = 100 then 0 else 1) demo_file = block_of 5 i demo_file"
    if "i * 5 < 9" for i
  proof -
    have "i = 0 \<or> i = 1" using that by linarith
    then show ?thesis by (auto simp: block_id_at_def two_blocks_def assigned_id_def)
  qed
  then show ?thesis
    by (auto simp: workers_serve_def demo_net_def demo_stream_def two_blocks_def file_block_size_def demo_file_def)
qed

lemma demo_net_settles: "\<not> falls_silent demo_net"
  by (simp add: falls_silent_def demo_net_def demo_stream_def settles_def)

theorem file_read_exact_witness:
  "map_option fst (file_read_all (local_ops (lru_foyer 1) (\<lambda>_. 7) (\<lambda>_. demo_io)) demo_config demo_net demo_reader
     demo_manager demo_link) = Some (Inr [7, 8, 8, 8, 8, 9])"
proof -
  let ?read = "file_read_all (local_ops (lru_foyer 1) (\<lambda>_. 7) (\<lambda>_. demo_io)) demo_config demo_net demo_reader
     demo_manager demo_link"
  have plain: "plain_name (file_id pid)" if "demo_pages pid page" for pid page
    using that by (simp add: demo_pages_def plain_name_def)
  have pages: "file_pages demo_pages (fr_cache_file_id demo_reader) (unat (max (fr_cache_page_size demo_reader) 1)) demo_file"
    using demo_file_pages by (simp add: demo_reader_def)
  have opened: "opened_for demo_config (two_blocks [''a'']) 3 100 demo_reader"
    by (simp add: opened_for_def demo_reader_def file_reader_build_def)
  have "case ?read of None \<Rightarrow> falls_silent demo_net
    | Some (res, _) \<Rightarrow> res = Inr (seg (unat (3 :: u64)) (unat (100 :: u64)) demo_file) \<or> (\<exists>e. res = Inl e)"
    by (rule file_read_exact [where T = demo_pages, OF lru_foyer_ok demo_create demo_env(4,5,6) cm_steps.refl
          demo_env(1) plain opened two_blocks_describes two_blocks_served pages])
      (assumption, simp add: demo_reader_def demo_file_def)
  moreover have "case ?read of Some (Inr _, _) \<Rightarrow> True | _ \<Rightarrow> False" by code_simp
  ultimately show ?thesis
    using demo_net_settles by (auto simp: demo_file_def seg_def split: option.splits sum.splits)
qed

section \<open>An expired session after a change of worker\<close>

text \<open>The pool of a reader holds no client at any slot of an address.\<close>

definition lacks :: "string \<Rightarrow> ('h, 'e) link \<Rightarrow> bool" where
  "lacks a lk \<longleftrightarrow> (\<exists>p. lk_pool lk = Some p \<and> 1 \<le> wp_pool_size p \<and> wp_pool_size p < 2 ^ 64
     \<and> (\<forall>s < wp_pool_size p. wp_clients p (slot_key (wp_pool_size p) a s) = None))"

definition unreachable :: "('h, 'e) net \<Rightarrow> string \<Rightarrow> bool" where
  "unreachable net a \<longleftrightarrow> (\<forall>e. \<exists>err. fst (nt_dial net a e) = Inl err)"

lemma lacks_cong: "lk_pool lk' = lk_pool lk \<Longrightarrow> lacks a lk' \<longleftrightarrow> lacks a lk"
  by (simp add: lacks_def)

lemma next_slot_less:
  assumes "1 \<le> wp_pool_size p" "wp_pool_size p < 2 ^ 64"
  shows "fst (next_slot b p) < wp_pool_size p"
proof -
  let ?p = "p\<lparr>wp_clients := Map.empty, wp_next_generation := 1\<rparr>"
  have "pool_ok ?p" using assms by (simp add: pool_ok_def)
  from next_slot_bound [OF this, of b] show ?thesis
    by (simp add: next_slot_def Let_def split: if_splits)
qed

lemma dial_into_refused:
  assumes "unreachable net a"
  shows "\<exists>err e'. dial_into (nt_dial net) key a p e = (Inl err, p, e') \<and> fst (nt_dial net a e) = Inl err"
proof -
  obtain err where "fst (nt_dial net a e) = Inl err" using assms by (auto simp: unreachable_def)
  then show ?thesis by (cases "nt_dial net a e") (simp add: dial_into_def worker_connect_def)
qed

lemma dial_into_clients:
  "wp_clients (fst (snd (dial_into dial key b p e))) k = wp_clients p k \<or> k = key"
  "wp_pool_size (fst (snd (dial_into dial key b p e))) = wp_pool_size p"
  by (auto simp: dial_into_def insert_client_def Let_def split: prod.splits sum.splits)

lemma pool_acquire_lacks:
  assumes "unreachable net a" "1 \<le> wp_pool_size p" "wp_pool_size p < 2 ^ 64"
    and "\<forall>s < wp_pool_size p. wp_clients p (slot_key (wp_pool_size p) a s) = None"
    and "pool_acquire (nt_dial net) b p e = (res, p', e')"
  shows "wp_pool_size p' = wp_pool_size p \<and> (\<forall>s < wp_pool_size p. wp_clients p' (slot_key (wp_pool_size p) a s) = None)
    \<and> (b = a \<longrightarrow> wp_clients p' = wp_clients p \<and> (\<exists>err env. res = Inl err \<and> fst (nt_dial net a env) = Inl err))"
proof -
  let ?n = "wp_pool_size p"
  let ?s = "fst (next_slot b p)" and ?q = "snd (next_slot b p)"
  let ?key = "slot_key ?n b ?s"
  let ?r = "snd (reconnect_lock_for ?key ?q)"
  have s: "?s < ?n" by (rule next_slot_less [OF assms(2,3)])
  have acq: "acquire_by_key (nt_dial net) ?key b ?q e = (res, p', e')"
    using assms(5) by (simp add: pool_acquire_def Let_def case_prod_beta)
  show ?thesis
  proof (cases "b = a")
    case True
    then have "dial_into (nt_dial net) ?key a ?r e = (res, p', e')"
      using acq assms(4) s by (simp add: acquire_by_key_def)
    then show ?thesis using dial_into_refused [OF assms(1), of ?key ?r e] assms(4) by auto
  next
    case False
    then have other: "slot_key ?n a s \<noteq> ?key" if "s < ?n" for s using slot_key_inject [OF _ that s] by blast
    show ?thesis
    proof (cases "wp_clients p ?key")
      case None
      then have "dial_into (nt_dial net) ?key b ?r e = (res, p', e')" using acq by (simp add: acquire_by_key_def)
      then have "wp_clients p' k = wp_clients p k" if "k \<noteq> ?key" for k
        using dial_into_clients(1) [of "nt_dial net" ?key b ?r e k] that by simp
      moreover have "wp_pool_size p' = ?n"
        using dial_into_clients(2) [of "nt_dial net" ?key b ?r e] \<open>dial_into _ _ _ _ _ = _\<close> by simp
      ultimately show ?thesis using other assms(4) False by simp
    next
      case (Some client)
      then show ?thesis using acq assms(4) False by (auto simp: acquire_by_key_def)
    qed
  qed
qed

lemma acquire_worker_lacks:
  assumes "unreachable net a" "lacks a lk" "acquire_worker net b lk = (res, lk')"
  shows "lacks a lk' \<and> (b = a \<longrightarrow> (\<exists>err. res = Inl err))"
proof -
  obtain p where p: "lk_pool lk = Some p" "1 \<le> wp_pool_size p" "wp_pool_size p < 2 ^ 64"
    "\<forall>s < wp_pool_size p. wp_clients p (slot_key (wp_pool_size p) a s) = None"
    using assms(2) by (auto simp: lacks_def)
  obtain r p' e' where acq: "pool_acquire (nt_dial net) b p (lk_env lk) = (r, p', e')" by (metis prod_cases3)
  then have "res = r" "lk' = lk\<lparr>lk_pool := Some p', lk_env := e'\<rparr>"
    using assms(3) p(1) by (simp_all add: acquire_worker_def through_pool_def)
  then show ?thesis using pool_acquire_lacks [OF assms(1) p(2-4) acq] p(2,3) by (auto simp: lacks_def)
qed

lemma reconnect_by_key_refused:
  assumes "unreachable net a" "wp_clients p key = None"
  shows "\<exists>err p' e'. reconnect_by_key (nt_dial net) key a g p e = (Inl err, p', e') \<and> wp_clients p' = wp_clients p
    \<and> fst (nt_dial net a e) = Inl err"
  using dial_into_refused [OF assms(1), of key "remove_client key (snd (reconnect_lock_for key p))" e] assms(2)
  by (auto simp: reconnect_by_key_def refreshed_def remove_client_def Let_def fun_upd_idem)

lemma reconnect_worker_refused:
  assumes "unreachable net a" "lacks a lk"
  shows "\<exists>err env lk'. reconnect_worker net a g lk = (Inl err, lk') \<and> fst (nt_dial net a env) = Inl err
    \<and> map_option wp_clients (lk_pool lk') = map_option wp_clients (lk_pool lk)"
proof -
  obtain p where p: "lk_pool lk = Some p" "1 \<le> wp_pool_size p" "wp_pool_size p < 2 ^ 64"
    "\<forall>s < wp_pool_size p. wp_clients p (slot_key (wp_pool_size p) a s) = None"
    using assms(2) by (auto simp: lacks_def)
  let ?rec = "case g of Some g \<Rightarrow> reconnect_if_stale (nt_dial net) a g | None \<Rightarrow> pool_reconnect (nt_dial net) a"
  have "\<exists>err env p' e'. ?rec p (lk_env lk) = (Inl err, p', e') \<and> wp_clients p' = wp_clients p \<and> fst (nt_dial net a env) = Inl err"
  proof (cases g)
    case None
    let ?q = "snd (next_slot a p)" and ?key = "slot_key (wp_pool_size p) a (fst (next_slot a p))"
    have "wp_clients ?q ?key = None" using p(4) next_slot_less [OF p(2,3)] by simp
    from reconnect_by_key_refused [OF assms(1) this, of "- 1" "lk_env lk"] None show ?thesis
      by (auto simp: pool_reconnect_def Let_def case_prod_beta)
  next
    case (Some g')
    have "find (holds_generation p g') (map (slot_key (wp_pool_size p) a) [0 ..< wp_pool_size p]) = None"
      using p(4) by (auto simp: find_None_iff holds_generation_def)
    then have eq: "?rec p (lk_env lk) = (if wp_pool_size p \<le> 1 then reconnect_by_key (nt_dial net) a a g' p (lk_env lk)
        else pool_acquire (nt_dial net) a p (lk_env lk))"
      using Some by (simp add: reconnect_if_stale_def)
    show ?thesis
    proof (cases "wp_pool_size p \<le> 1")
      case True
      have "wp_clients p (slot_key (wp_pool_size p) a 0) = None" using p(2,4) by simp
      then have "wp_clients p a = None" using True by (simp add: slot_key_def)
      from reconnect_by_key_refused [OF assms(1) this, of g' "lk_env lk"] eq True show ?thesis by auto
    next
      case False
      obtain r p' e' where acq: "pool_acquire (nt_dial net) a p (lk_env lk) = (r, p', e')" by (metis prod_cases3)
      then show ?thesis using pool_acquire_lacks [OF assms(1) p(2-4) acq] eq False by auto
    qed
  qed
  then show ?thesis using p(1) by (cases g) (fastforce simp: reconnect_worker_def through_pool_def)+
qed

lemma select_for_read_pool: "select_for_read cfg net fi b lk = (r, lk') \<Longrightarrow> lk_pool lk' = lk_pool lk"
  by (auto simp: select_for_read_def split: prod.splits)

lemma fail_over_lacks:
  assumes "unreachable net a" "lacks a lk" "fail_over cfg net fi b w err lk = (Inr c, lk')"
  shows "lacks a lk'"
proof -
  let ?lk = "case w_address w of
      Some ad \<Rightarrow> lk\<lparr>lk_view := view_mark_failed (nt_now net (lk_env lk)) ad (lk_view lk)\<rparr> | None \<Rightarrow> lk"
  obtain retry lk1 where sel: "select_for_read cfg net fi b ?lk = (Inr retry, lk1)"
    using assms(3) by (auto simp: fail_over_def Let_def split: prod.splits sum.splits)
  then obtain addr where "worker_addr retry = Inr addr" "acquire_worker net addr lk1 = (Inr c, lk')"
    using assms(3) by (auto simp: fail_over_def Let_def split: sum.splits)
  moreover have "lacks a lk1"
    using assms(2) select_for_read_pool [OF sel] by (simp add: lacks_def split: option.splits)
  ultimately show ?thesis using acquire_worker_lacks [OF assms(1)] by blast
qed

lemma apfst_Pair_Inr: "apfst (map_sum id (Pair x)) r = (Inr (y, c), lk) \<Longrightarrow> x = y \<and> r = (Inr c, lk)"
  by (cases r; cases "fst r") auto

lemma segment_worker_lacks:
  assumes "unreachable net a" "lacks a lk" "segment_worker cfg net fi b lk = (Inr (a, c), lk')"
  shows "lacks a lk'"
proof -
  obtain w lk1 where sel: "select_for_read cfg net fi b lk = (Inr w, lk1)"
    using assms(3) by (auto simp: segment_worker_def split: prod.splits sum.splits)
  then have addr: "worker_addr w = Inr a"
    using assms(3) by (cases "worker_addr w") (auto simp: segment_worker_def dest!: apfst_Pair_Inr)
  have lk1: "lacks a lk1" using assms(2) select_for_read_pool [OF sel] by (simp add: lacks_def)
  obtain err lk2 where acq: "acquire_worker net a lk1 = (Inl err, lk2)" and lk2: "lacks a lk2"
    using acquire_worker_lacks [OF assms(1) lk1, of a] by (cases "acquire_worker net a lk1") auto
  obtain err' lk3 where "reconnect_worker net a None lk2 = (Inl err', lk3)"
    using reconnect_worker_refused [OF assms(1) lk2] by blast
  then have "fail_over cfg net fi b w err lk2 = (Inr c, lk')"
    using assms(3) by (auto simp: segment_worker_def sel addr acq dest!: apfst_Pair_Inr split: if_splits)
  then show ?thesis by (rule fail_over_lacks [OF assms(1) lk2])
qed

text \<open>
  (C12) After a change of worker, an expired session is never renewed.  When the worker selected first
  cannot be reached and the reader has moved to another one, whose session turns out to be expired,
  the reader reconnects to the first worker again: the read of the segment always ends with the
  first worker's connection error, whatever pool, view and network, and the pool keeps all its
  clients, the expired one included.
\<close>

theorem failover_reconnects_first_worker:
  assumes "unreachable net a" and "lacks a lk"
    and "segment_worker cfg net (fr_info fr) block_id lk = (Inr (a, c), lk')"
    and "try_read_block cfg net c block_id plan (build_ufs_read_options fr plan) positioned (lk_env lk') = Some (Inl e, env)"
    and "is_authentication_failed e"
  shows "\<exists>err lk'' env'. read_segment cfg net fr block_id plan positioned lk = Some (Inl err, lk'')
    \<and> fst (nt_dial net a env') = Inl err
    \<and> map_option wp_clients (lk_pool lk'') = map_option wp_clients (lk_pool lk')"
proof -
  let ?lk = "lk'\<lparr>lk_env := env\<rparr>"
  have "lacks a ?lk" using segment_worker_lacks [OF assms(1-3)] by (simp add: lacks_def)
  from reconnect_worker_refused [OF assms(1) this, of "Some (wc_generation c)"]
  obtain err lk'' env' where "reconnect_worker net a (Some (wc_generation c)) ?lk = (Inl err, lk'')"
    and "fst (nt_dial net a env') = Inl err" "map_option wp_clients (lk_pool lk'') = map_option wp_clients (lk_pool lk')"
    by auto
  then show ?thesis
    using assms(3-5) by (auto simp: read_segment_def with_env_def)
qed

text \<open>
  Worker \<open>a\<close> refuses connections; the first session with \<open>b\<close> has expired, later ones work.  A
  handle is the address and the number of the call that made it.
\<close>

definition expired_net :: "(string \<times> nat, nat) net" where
  "expired_net = \<lparr>nt_now = id,
     nt_dial = (\<lambda>addr e. (if addr = ''a:1'' then Inl (ETransport ''refused'') else Inr (addr, e), e + 1)),
     nt_read = (\<lambda>(addr, n) rq e. (if n \<le> 1 then Inl (EAuthenticationFailed ''expired'') else Inr (demo_stream rq), e + 1)),
     nt_ack = (\<lambda>_ _ _. Sent)\<rparr>"

definition expired_link :: "(string \<times> nat, nat) link" where
  "expired_link = \<lparr>lk_pool = Some (pool_new 1), lk_view = lk_view demo_link, lk_env = 0\<rparr>"

definition one_block :: file_reader where
  "one_block = file_reader_build demo_config ''/f'' (two_blocks [''a'', ''b'']) 0 5"

definition first_plan :: block_read_plan where
  "first_plan = \<lparr>rp_block_id = 100, rp_block_index = 0, rp_offset_in_block = 0, rp_length = 5\<rparr>"

text \<open>Here a reconnect to \<open>b\<close> would have served the block.\<close>

theorem failover_reconnects_first_worker_witness:
  "\<exists>lk''. read_segment demo_config expired_net one_block 100 first_plan False expired_link
     = Some (Inl (ETransport ''refused''), lk'')"
proof -
  let ?seg = "segment_worker demo_config expired_net (fr_info one_block) 100 expired_link"
  have seg: "?seg = (Inr (''a:1'', \<lparr>wc_inner = (''b:1'', 1), wc_addr = ''b:1'', wc_generation = 1\<rparr>), snd ?seg)"
    (is "_ = (Inr (_, ?c), _)")
    by (rule prod_eqI) (simp_all, code_simp)
  have try1: "try_read_block demo_config expired_net ?c 100 first_plan (build_ufs_read_options one_block first_plan) False
      (lk_env (snd ?seg)) = Some (Inl (EAuthenticationFailed ''expired''), lk_env (snd ?seg) + 1)"
    by (simp add: try_read_block_def Let_def expired_net_def)
  have "unreachable expired_net ''a:1''" by (simp add: unreachable_def expired_net_def)
  moreover have "lacks ''a:1'' expired_link" by (simp add: lacks_def expired_link_def pool_new_def)
  ultimately have "\<exists>err lk'' env'. read_segment demo_config expired_net one_block 100 first_plan False expired_link = Some (Inl err, lk'')
      \<and> fst (nt_dial expired_net ''a:1'' env') = Inl err
      \<and> map_option wp_clients (lk_pool lk'') = map_option wp_clients (lk_pool (snd ?seg))"
    by (rule failover_reconnects_first_worker [OF _ _ seg try1]) simp
  then show ?thesis by (auto simp: expired_net_def)
qed

section \<open>The order of the block infos\<close>

lemma assigned_id_pair: "assigned_id fbi = map_option snd (block_pair fbi)"
  by (auto simp: assigned_id_def block_pair_def Let_def split: bind_splits)

lemma map_filter_all: "map f xs = map Some ys \<Longrightarrow> List.map_filter f xs = ys"
proof (induction xs arbitrary: ys)
  case (Cons x xs)
  then show ?case by (cases ys) (auto simp: List.map_filter_def)
qed (simp add: List.map_filter_def)

text \<open>
  (C21) The reader agrees with the filled-in ids exactly when the block infos are in file order.  The
  ids that a status lacks are filled in by offset, but the reader takes the id at the position of
  the block among the infos: for a status whose infos all carry ids, no two the same, the two
  agree on every block if and only if the infos are sorted by offset.
\<close>

theorem reader_ids_agree_iff_sorted:
  assumes "fi_block_ids fi = []" and "map block_pair (fi_file_block_infos fi) = map Some pairs"
    and "distinct (map snd pairs)" and "length pairs < 2 ^ 64"
  shows "(\<forall>plan. unat (rp_block_index plan) < length pairs \<longrightarrow>
      resolve_block_id (ensure_block_ids_from_file_block_infos fi) plan
        = fi_block_ids (ensure_block_ids_from_file_block_infos fi) ! unat (rp_block_index plan))
    \<longleftrightarrow> sorted (map fst pairs)"
proof -
  let ?fi = "ensure_block_ids_from_file_block_infos fi"
  have len: "length (fi_file_block_infos fi) = length pairs" using assms(2) by (metis length_map)
  have ids: "fi_block_ids ?fi = map snd (sort_key fst pairs)" and infos: "fi_file_block_infos ?fi = fi_file_block_infos fi"
    using assms(1) len map_filter_all [OF assms(2)] by (auto simp: ensure_block_ids_from_file_block_infos_def)
  have resolve: "resolve_block_id ?fi plan = map snd pairs ! unat (rp_block_index plan)"
    if "unat (rp_block_index plan) < length pairs" for plan
  proof -
    have "block_pair (fi_file_block_infos fi ! unat (rp_block_index plan)) = Some (pairs ! unat (rp_block_index plan))"
      using that len assms(2) by (metis nth_map)
    then show ?thesis using that len by (simp add: resolve_block_id_def infos assigned_id_pair Let_def)
  qed
  have "(\<forall>plan. unat (rp_block_index plan) < length pairs \<longrightarrow> resolve_block_id ?fi plan = fi_block_ids ?fi ! unat (rp_block_index plan))
      \<longleftrightarrow> (\<forall>i < length pairs. map snd pairs ! i = map snd (sort_key fst pairs) ! i)" (is "?A \<longleftrightarrow> ?B")
  proof
    assume ?A
    show ?B
    proof (intro allI impI)
      fix i assume i: "i < length pairs"
      let ?plan = "\<lparr>rp_block_id = 0, rp_block_index = word_of_nat i, rp_offset_in_block = 0, rp_length = 0\<rparr>"
      have "unat (rp_block_index ?plan) = i" using i assms(4) by (simp add: unat_of_nat)
      then show "map snd pairs ! i = map snd (sort_key fst pairs) ! i"
        using \<open>?A\<close> resolve [of ?plan] ids i by metis
    qed
  qed (use resolve ids in auto)
  also have "\<dots> \<longleftrightarrow> map snd pairs = map snd (sort_key fst pairs)"
    by (auto simp: list_eq_iff_nth_eq)
  also have "\<dots> \<longleftrightarrow> pairs = sort_key fst pairs"
  proof
    assume "map snd pairs = map snd (sort_key fst pairs)"
    then show "pairs = sort_key fst pairs"
      using assms(3) by (intro map_inj_on [of snd]) (auto simp: distinct_map)
  qed simp
  also have "\<dots> \<longleftrightarrow> sorted (map fst pairs)"
    using sorted_sort_key [of fst pairs] by (metis sort_key_id_if_sorted)
  finally show ?thesis .
qed

text \<open>The status of the file with its block infos in reverse order and no id list.\<close>

definition unordered_info :: file_info where
  "unordered_info = (two_blocks [''a''])\<lparr>fi_block_ids := [], fi_file_block_infos :=
     map2 (\<lambda>fbi off. fbi\<lparr>fbi_offset := Some off\<rparr>) (rev (fi_file_block_infos (two_blocks [''a'']))) [5, 0]\<rparr>"

theorem reader_ids_agree_iff_sorted_witness:
  "\<exists>plan. unat (rp_block_index plan) < Suc (Suc 0) \<and>
     resolve_block_id (ensure_block_ids_from_file_block_infos unordered_info) plan
       \<noteq> fi_block_ids (ensure_block_ids_from_file_block_infos unordered_info) ! unat (rp_block_index plan)"
proof -
  have "fi_block_ids unordered_info = []"
    "map block_pair (fi_file_block_infos unordered_info) = map Some [(5, 101), (0, 100)]"
    by (simp_all add: unordered_info_def two_blocks_def block_pair_def)
  from reader_ids_agree_iff_sorted [OF this] show ?thesis by auto
qed

lemma unordered_infos_swap_blocks:
  "map_option fst (file_read_all disabled_ops demo_config demo_net
     (file_reader_build demo_config ''/f'' (ensure_block_ids_from_file_block_infos unordered_info) 0 4) () demo_link)
   = Some (Inr [8, 8, 8, 9])"
  by code_simp

end
