(* ===== verification/Reader_Context.thy ===== *)
theory Reader_Context
  imports File_Reader Metadata_Cache Range_Coalesce
begin

text \<open>
  Opening files through the shared context (\<open>FileSystemContext\<close> in \<^verbatim>\<open>src/src/context.rs\<close>, the openers of
  \<^verbatim>\<open>src/src/io/file_reader.rs\<close>): the status comes through the metadata cache, the worker list from the
  shared router, connections from the shared pool, and the page cache is attached to streaming
  readers.  The one-shot reads of a file, of a range and of many ranges are built on it.  The
  master, the \<open>CheckBlocks\<close> probe and the \<open>lru\<close> crate are parameters.
\<close>

section \<open>The context\<close>

record ('c, 'h, 's, 'e) fs_context =
  cx_config :: reader_config
  cx_metadata_cache :: "'c metadata_cache option"
  cx_worker_router :: worker_router
  cx_worker_pool :: "'h worker_pool"
  cx_cache_manager :: "'s option"
  cx_env :: 'e

record ('c, 'e) services =
  sv_lru :: "'c lru"
  sv_get_status :: "string \<Rightarrow> 'e \<Rightarrow> file_info result \<times> 'e"
  sv_check_blocks :: "string \<Rightarrow> i64 list \<Rightarrow> (i64 \<times> i64) list result"
  sv_orders :: hash_orders
  sv_clock :: "nat \<Rightarrow> instant"

definition get_file_info_cached ::
  "('c, 'e) services \<Rightarrow> ('h, 'e) net \<Rightarrow> string \<Rightarrow> ('c, 'h, 's, 'e) fs_context
   \<Rightarrow> file_info result \<times> ('c, 'h, 's, 'e) fs_context" where
  "get_file_info_cached sv net path cx =
     (case get_status_through_cache (sv_lru sv) (nt_now net (cx_env cx))
             (nt_now net (snd (sv_get_status sv path (cx_env cx)))) (cx_metadata_cache cx) path
             (fc_file_metadata_sync_interval (cx_config cx)) (sv_get_status sv path) (cx_env cx) of
        (r, cache, e) \<Rightarrow> (r, cx\<lparr>cx_metadata_cache := cache, cx_env := e\<rparr>))"

definition invalidate_metadata :: "'c lru \<Rightarrow> string \<Rightarrow> bool \<Rightarrow> ('c, 'h, 's, 'e) fs_context \<Rightarrow> ('c, 'h, 's, 'e) fs_context" where
  "invalidate_metadata L path with_parent cx =
     (case cx_metadata_cache cx of
        None \<Rightarrow> cx
      | Some cache \<Rightarrow> cx\<lparr>cx_metadata_cache :=
          Some (if with_parent then mc_invalidate_with_parent L path cache else mc_invalidate L path cache)\<rparr>)"

definition invalidate_file_info :: "'c lru \<Rightarrow> string \<Rightarrow> ('c, 'h, 's, 'e) fs_context \<Rightarrow> ('c, 'h, 's, 'e) fs_context" where
  "invalidate_file_info L path = invalidate_metadata L path True"

section \<open>Opening a reader\<close>

definition reject_directory :: "file_info \<Rightarrow> string \<Rightarrow> unit result" where
  "reject_directory fi path = (if unwrap_or (fi_folder fi) False then Inl (EOpenDirectory path) else Inr ())"

definition init_with_context ::
  "('c, 'e) services \<Rightarrow> ('h, 'e) net \<Rightarrow> string \<Rightarrow> ('c, 'h, 's, 'e) fs_context
   \<Rightarrow> (file_info \<times> router_view) result \<times> ('c, 'h, 's, 'e) fs_context" where
  "init_with_context sv net path cx =
     (case get_file_info_cached sv net path cx of
        (Inl e, cx) \<Rightarrow> (Inl e, cx)
      | (Inr fi, cx) \<Rightarrow>
          (case reject_directory fi path of
             Inl e \<Rightarrow> (Inl e, cx)
           | Inr _ \<Rightarrow>
               if wr_workers (cx_worker_router cx) = []
               then (Inl (ENoWorkerAvailable ''no workers available for reading''), cx)
               else (Inr (maybe_enrich_file_block_locations (sv_orders sv) (sv_check_blocks sv) (sv_clock sv)
                            (fc_check_block_replicas (cx_config cx)) fi (view_from_shared (cx_worker_router cx))), cx)))"

text \<open>
  The process-wide record of recent calls to \<open>on_file_open\<close>, by file id, length and modification
  time; it is shared by all contexts.
\<close>

type_synonym dedup_map = "((i64 \<times> i64 \<times> i64) \<times> instant) list"

definition ON_FILE_OPEN_DEDUP_TTL :: duration where
  "ON_FILE_OPEN_DEDUP_TTL = 60 * 1000000000"

definition recently_opened :: "instant \<Rightarrow> i64 \<times> i64 \<times> i64 \<Rightarrow> dedup_map \<Rightarrow> bool" where
  "recently_opened now key dedup =
     (case map_of dedup key of Some last_open \<Rightarrow> now - last_open < ON_FILE_OPEN_DEDUP_TTL | None \<Rightarrow> False)"

definition note_opened :: "instant \<Rightarrow> i64 \<times> i64 \<times> i64 \<Rightarrow> dedup_map \<Rightarrow> dedup_map" where
  "note_opened now key dedup =
     (let kept = (if 4096 < length dedup
                  then filter (\<lambda>(_, last_open). now - last_open < ON_FILE_OPEN_DEDUP_TTL) dedup else dedup)
      in (key, now) # filter (\<lambda>(k, _). k \<noteq> key) kept)"

definition attach_cache ::
  "'s cache_ops \<Rightarrow> reader_config \<Rightarrow> instant \<Rightarrow> bool \<Rightarrow> file_reader \<Rightarrow> 's option \<Rightarrow> dedup_map
   \<Rightarrow> file_reader \<times> 's option \<times> dedup_map" where
  "attach_cache ops cfg now use_page_cache fr cache dedup =
     (let fi = fr_info fr; file_id = unwrap_or (fi_file_id fi) 0
      in if \<not> use_page_cache \<or> \<not> page_cache_eligible file_id
         then (fr\<lparr>fr_cached := False, fr_cache_fill := False\<rparr>, cache, dedup)
         else
           let cache_file_id = show_int file_id;
               len = unwrap_or (fi_length fi) 0;
               mtime = unwrap_or (fi_last_modification_time_ms fi) 0;
               key = (file_id, len, mtime);
               (cache, dedup) =
                 (case cache of
                    None \<Rightarrow> (None, dedup)
                  | Some s \<Rightarrow>
                      if recently_opened now key dedup then (Some s, dedup)
                      else (Some (op_on_file_open ops cache_file_id len mtime s), note_opened now key dedup))
           in (fr\<lparr>fr_cache_fill := (cache \<noteq> None),
                  fr_cache_async_write := fc_client_cache_async_write_enabled cfg,
                  fr_cache_page_size := fc_client_cache_page_size cfg,
                  fr_cache_file_id := cache_file_id, fr_cached := (cache \<noteq> None)\<rparr>, cache, dedup))"

definition open_inner ::
  "'s cache_ops \<Rightarrow> ('c, 'e) services \<Rightarrow> ('h, 'e) net \<Rightarrow> string \<Rightarrow> (u64 \<times> u64) option \<Rightarrow> bool
   \<Rightarrow> ('c, 'h, 's, 'e) fs_context \<Rightarrow> dedup_map
   \<Rightarrow> (file_reader \<times> router_view) result \<times> ('c, 'h, 's, 'e) fs_context \<times> dedup_map" where
  "open_inner ops sv net path wanted use_page_cache cx dedup =
     (case init_with_context sv net path cx of
        (Inl e, cx) \<Rightarrow> (Inl e, cx, dedup)
      | (Inr (fi, view), cx) \<Rightarrow>
          let (offset, len) = (case wanted of Some r \<Rightarrow> r | None \<Rightarrow> (0, word_of_int (unwrap_or (fi_length fi) 0)));
              fr = file_reader_build (cx_config cx) path fi offset len;
              (fr, cache, dedup) = attach_cache ops (cx_config cx) (nt_now net (cx_env cx)) use_page_cache fr
                                     (cx_cache_manager cx) dedup
          in (Inr (fr, view), cx\<lparr>cx_cache_manager := cache\<rparr>, dedup))"

definition open_with_context ::
  "'s cache_ops \<Rightarrow> ('c, 'e) services \<Rightarrow> ('h, 'e) net \<Rightarrow> string \<Rightarrow> ('c, 'h, 's, 'e) fs_context \<Rightarrow> dedup_map
   \<Rightarrow> (file_reader \<times> router_view) result \<times> ('c, 'h, 's, 'e) fs_context \<times> dedup_map" where
  "open_with_context ops sv net path = open_inner ops sv net path None True"

definition open_range_with_context ::
  "'s cache_ops \<Rightarrow> ('c, 'e) services \<Rightarrow> ('h, 'e) net \<Rightarrow> string \<Rightarrow> u64 \<Rightarrow> u64 \<Rightarrow> ('c, 'h, 's, 'e) fs_context
   \<Rightarrow> dedup_map \<Rightarrow> (file_reader \<times> router_view) result \<times> ('c, 'h, 's, 'e) fs_context \<times> dedup_map" where
  "open_range_with_context ops sv net path offset len = open_inner ops sv net path (Some (offset, len)) True"

section \<open>One-shot reads\<close>

text \<open>The pool and the environment of the context, seen by a reader and taken back from it.\<close>

definition link_of :: "('c, 'h, 's, 'e) fs_context \<Rightarrow> router_view \<Rightarrow> ('h, 'e) link" where
  "link_of cx view = \<lparr>lk_pool = Some (cx_worker_pool cx), lk_view = view, lk_env = cx_env cx\<rparr>"

definition give_back :: "('h, 'e) link \<Rightarrow> ('c, 'h, 's, 'e) fs_context \<Rightarrow> ('c, 'h, 's, 'e) fs_context" where
  "give_back lk cx = cx\<lparr>cx_worker_pool := unwrap_or (lk_pool lk) (cx_worker_pool cx), cx_env := lk_env lk\<rparr>"

text \<open>An opened reader without page cache reads everything; the record of opens is untouched.\<close>

definition read_once ::
  "'s cache_ops \<Rightarrow> ('c, 'e) services \<Rightarrow> ('h, 'e) net \<Rightarrow> string \<Rightarrow> (u64 \<times> u64) option
   \<Rightarrow> ('c, 'h, 's, 'e) fs_context \<Rightarrow> (bytes result \<times> ('c, 'h, 's, 'e) fs_context) option" where
  "read_once ops sv net path wanted cx =
     (case open_inner ops sv net path wanted False cx [] of
        (Inl e, cx, _) \<Rightarrow> Some (Inl e, cx)
      | (Inr (fr, view), cx, _) \<Rightarrow>
          map_option (\<lambda>(r, _, _, lk). (r, give_back lk cx))
            (file_read_all disabled_ops (cx_config cx) net fr () (link_of cx view)))"

definition read_file_with_context ::
  "'s cache_ops \<Rightarrow> ('c, 'e) services \<Rightarrow> ('h, 'e) net \<Rightarrow> string
   \<Rightarrow> ('c, 'h, 's, 'e) fs_context \<Rightarrow> (bytes result \<times> ('c, 'h, 's, 'e) fs_context) option" where
  "read_file_with_context ops sv net path = read_once ops sv net path None"

definition read_range_with_context ::
  "'s cache_ops \<Rightarrow> ('c, 'e) services \<Rightarrow> ('h, 'e) net \<Rightarrow> string \<Rightarrow> u64 \<Rightarrow> u64
   \<Rightarrow> ('c, 'h, 's, 'e) fs_context \<Rightarrow> (bytes result \<times> ('c, 'h, 's, 'e) fs_context) option" where
  "read_range_with_context ops sv net path offset len = read_once ops sv net path (Some (offset, len))"

text \<open>The loops of \<open>read_ranges_with_context\<close> over a range read.\<close>

fun read_each ::
  "(u64 \<Rightarrow> u64 \<Rightarrow> 'w \<Rightarrow> (bytes result \<times> 'w) option) \<Rightarrow> (u64 \<times> u64) list \<Rightarrow> bytes list \<Rightarrow> 'w
   \<Rightarrow> (bytes list result \<times> 'w) option" where
  "read_each rd [] out w = Some (Inr out, w)"
| "read_each rd ((off, len) # ranges) out w =
     (if len = 0 then read_each rd ranges (out @ [[]]) w
      else case rd off len w of
          None \<Rightarrow> None
        | Some (Inl e, w) \<Rightarrow> Some (Inl e, w)
        | Some (Inr bytes, w) \<Rightarrow> read_each rd ranges (out @ [bytes]) w)"

definition short_fetch_error :: "merged_fetch \<Rightarrow> nat \<Rightarrow> client_error" where
  "short_fetch_error f n = EBlockIo (''read_ranges: merged fetch (offset='' @ show_nat (unat (mf_offset f))
     @ '', len='' @ show_nat (unat (mf_len f)) @ '') returned '' @ show_nat n @ '' bytes'')"

fun read_fetches ::
  "(u64 \<Rightarrow> u64 \<Rightarrow> 'w \<Rightarrow> (bytes result \<times> 'w) option) \<Rightarrow> merged_fetch list \<Rightarrow> bytes list \<Rightarrow> 'w
   \<Rightarrow> (bytes list result \<times> 'w) option" where
  "read_fetches rd [] bufs w = Some (Inr bufs, w)"
| "read_fetches rd (f # fetches) bufs w =
     (case rd (mf_offset f) (mf_len f) w of
        None \<Rightarrow> None
      | Some (Inl e, w) \<Rightarrow> Some (Inl e, w)
      | Some (Inr bytes, w) \<Rightarrow>
          if of_nat (length bytes) \<noteq> mf_len f then Some (Inl (short_fetch_error f (length bytes)), w)
          else read_fetches rd fetches (bufs @ [bytes]) w)"

definition splice_from_plan :: "coalesce_plan \<Rightarrow> bytes list \<Rightarrow> bytes list" where
  "splice_from_plan plan fetch_bufs =
     map (\<lambda>s. if sm_fetch_index s = NO_FETCH then []
              else seg (unat (sm_offset_in_fetch s)) (unat (sm_len s)) (fetch_bufs ! sm_fetch_index s))
       (cp_slices plan)"

definition read_ranges_by ::
  "reader_config \<Rightarrow> (u64 \<Rightarrow> u64 \<Rightarrow> 'w \<Rightarrow> (bytes result \<times> 'w) option) \<Rightarrow> (u64 \<times> u64) list \<Rightarrow> 'w
   \<Rightarrow> (bytes list result \<times> 'w) option" where
  "read_ranges_by cfg rd ranges w =
     (if \<not> fc_range_coalesce_enabled cfg then read_each rd ranges [] w
      else let plan = coalesce_plan_of ranges (fc_range_coalesce_gap_bytes cfg) (fc_range_coalesce_max_bytes cfg)
           in map_option (apfst (map_sum id (splice_from_plan plan))) (read_fetches rd (cp_fetches plan) [] w))"

definition read_ranges_with_context ::
  "'s cache_ops \<Rightarrow> ('c, 'e) services \<Rightarrow> ('h, 'e) net \<Rightarrow> string \<Rightarrow> (u64 \<times> u64) list
   \<Rightarrow> ('c, 'h, 's, 'e) fs_context \<Rightarrow> (bytes list result \<times> ('c, 'h, 's, 'e) fs_context) option" where
  "read_ranges_with_context ops sv net path ranges cx =
     read_ranges_by (cx_config cx) (read_range_with_context ops sv net path) ranges cx"

section \<open>What an opened reader knows\<close>

lemma ensure_block_ids_fields [simp]:
  "fi_length (ensure_block_ids_from_file_block_infos fi) = fi_length fi"
  "fi_block_size_bytes (ensure_block_ids_from_file_block_infos fi) = fi_block_size_bytes fi"
  "fi_file_block_infos (ensure_block_ids_from_file_block_infos fi) = fi_file_block_infos fi"
  "fi_block_ids fi \<noteq> [] \<Longrightarrow> fi_block_ids (ensure_block_ids_from_file_block_infos fi) = fi_block_ids fi"
  by (simp_all add: ensure_block_ids_from_file_block_infos_def)

lemma recompute_fields [simp]:
  "fi_length (recompute_in_goosefs_percentage fi) = fi_length fi"
  "fi_block_size_bytes (recompute_in_goosefs_percentage fi) = fi_block_size_bytes fi"
  "fi_file_block_infos (recompute_in_goosefs_percentage fi) = fi_file_block_infos fi"
  "fi_block_ids (recompute_in_goosefs_percentage fi) = fi_block_ids fi"
  by (simp_all add: recompute_in_goosefs_percentage_def Let_def)

lemma apply_to_block_id [simp]: "assigned_id (apply_to_block probed fbi) = assigned_id fbi"
  by (simp add: apply_to_block_def assigned_id_def split: option.splits)

text \<open>Enrichment changes locations and percentages, never which block is where.\<close>

definition same_blocks :: "file_info \<Rightarrow> file_info \<Rightarrow> bool" where
  "same_blocks fi fi' \<longleftrightarrow> fi_length fi' = fi_length fi \<and> fi_block_size_bytes fi' = fi_block_size_bytes fi
     \<and> map assigned_id (fi_file_block_infos fi') = map assigned_id (fi_file_block_infos fi)
     \<and> (fi_block_ids fi \<noteq> [] \<longrightarrow> fi_block_ids fi' = fi_block_ids fi)"

lemma enrich_same_blocks:
  "same_blocks fi (fst (maybe_enrich_file_block_locations ho check clock n fi v))"
proof -
  have "same_blocks fi (fst (snd (enrich_file_block_locations ho check clock k fi v)))" for k
    by (auto simp: enrich_file_block_locations_def Let_def same_blocks_def apply_probed_locations_def
        split: prod.splits sum.splits)
  moreover have "same_blocks fi (ensure_block_ids_from_file_block_infos fi)" for fi
    by (simp add: same_blocks_def)
  moreover have "same_blocks fi fi' \<Longrightarrow> same_blocks fi (ensure_block_ids_from_file_block_infos fi')" for fi'
    by (auto simp: same_blocks_def)
  ultimately show ?thesis
    unfolding maybe_enrich_file_block_locations_def Let_def
    by (auto split: prod.splits sum.splits) (metis fst_conv snd_conv)+
qed

lemma same_blocks_id:
  assumes "same_blocks fi fi'" "0 < block_id_at fi i"
  shows "block_id_at fi' i = block_id_at fi i"
proof -
  let ?a = "\<lambda>fi. Option.bind (if i < length (fi_file_block_infos fi) then Some (fi_file_block_infos fi ! i) else None) assigned_id"
  have len: "length (fi_file_block_infos fi') = length (fi_file_block_infos fi)"
    using assms(1) unfolding same_blocks_def by (metis length_map)
  have "assigned_id (fi_file_block_infos fi' ! i) = assigned_id (fi_file_block_infos fi ! i)"
    if "i < length (fi_file_block_infos fi)"
    using assms(1) that len unfolding same_blocks_def by (metis nth_map)
  then have a: "?a fi' = ?a fi" using len by simp
  show ?thesis
    using assms a by (cases "?a fi") (auto simp: block_id_at_def same_blocks_def split: if_splits)
qed

lemma same_blocks_describes:
  assumes "same_blocks fi fi'" "describes fi content" "workers_serve net fi content"
  shows "describes fi' content \<and> workers_serve net fi' content"
proof -
  have size: "file_block_size fi' = file_block_size fi" and len: "fi_length fi' = fi_length fi"
    using assms(1) by (simp_all add: same_blocks_def file_block_size_def)
  have id: "block_id_at fi' i = block_id_at fi i" if "i * file_block_size fi < length content" for i
    using same_blocks_id [OF assms(1)] describesD(5) [OF assms(2) that] by simp
  have "describes fi' content" using assms(2) id by (simp add: describes_def size len)
  moreover have "workers_serve net fi' content"
    using assms(3) id unfolding workers_serve_def size by metis
  ultimately show ?thesis ..
qed

section \<open>Reads through the context are exact\<close>

text \<open>
  Everything the client may be told about the file is true: the master describes its current
  content, and so does what the metadata cache remembers of it.
\<close>

definition true_status :: "('h, 'e) net \<Rightarrow> bytes \<Rightarrow> file_info \<Rightarrow> bool" where
  "true_status net content fi \<longleftrightarrow> describes fi content \<and> workers_serve net fi content"

definition remembers_truth :: "'c lru \<Rightarrow> ('h, 'e) net \<Rightarrow> bytes \<Rightarrow> string \<Rightarrow> 'c metadata_cache \<Rightarrow> bool" where
  "remembers_truth L net content path mc \<longleftrightarrow>
     (\<forall>item fi. held L mc (normalize_path path) = Some item \<longrightarrow> ci_status item = Some (SlotPresent fi)
        \<longrightarrow> true_status net content fi)"

definition truthful ::
  "('c, 'e) services \<Rightarrow> ('h, 'e) net \<Rightarrow> string \<Rightarrow> bytes \<Rightarrow> ('c, 'h, 's, 'e) fs_context \<Rightarrow> bool" where
  "truthful sv net path content cx \<longleftrightarrow> lru_ok (sv_lru sv)
     \<and> (\<forall>e fi e'. sv_get_status sv path e = (Inr fi, e') \<longrightarrow> true_status net content fi)
     \<and> (\<forall>mc. cx_metadata_cache cx = Some mc \<longrightarrow> remembers_truth (sv_lru sv) net content path mc)"

lemma truthful_cong:
  "truthful sv net path content cx \<Longrightarrow> cx_metadata_cache cx' = cx_metadata_cache cx
   \<Longrightarrow> truthful sv net path content cx'"
  by (simp add: truthful_def)

lemma remembers_lookup:
  assumes "lru_ok L" "remembers_truth L net content path mc"
  shows "remembers_truth L net content path (after_lookup L now mc path sync)"
    and "cached_answer L now mc path sync = Some (SlotPresent fi) \<Longrightarrow> true_status net content fi"
proof -
  show "remembers_truth L net content path (after_lookup L now mc path sync)"
    using assms lookup_status_spec(2) [OF assms(1), of now path mc]
    by (auto simp: remembers_truth_def after_lookup_def live_def split: option.splits if_splits)
  show "cached_answer L now mc path sync = Some (SlotPresent fi) \<Longrightarrow> true_status net content fi"
    using assms(2)
    by (auto simp: remembers_truth_def cached_answer_def live_def bind_eq_Some_conv
        split: option.splits if_splits)
qed

lemma remembers_record:
  assumes "lru_ok L" "remembers_truth L net content path mc"
    and "\<And>fi. answer = Inr fi \<Longrightarrow> true_status net content fi"
  shows "remembers_truth L net content path (record_answer L later path answer mc)"
proof -
  have put: "ci_status item = Some slot"
    if "held L (put_status L later path slot mc) (normalize_path path) = Some item" for slot item
    using put_status_held(1) [OF assms(1), of mc path later slot] that by auto
  show ?thesis
    using assms(2,3)
    by (cases answer) (auto simp: remembers_truth_def record_answer_def dest: put)
qed

lemma get_file_info_cached_true:
  assumes "truthful sv net path content cx"
  shows "truthful sv net path content (snd (get_file_info_cached sv net path cx))"
    and "fst (get_file_info_cached sv net path cx) = Inr fi \<Longrightarrow> true_status net content fi"
    and "cx_config (snd (get_file_info_cached sv net path cx)) = cx_config cx"
proof -
  let ?sync = "fc_file_metadata_sync_interval (cx_config cx)" and ?L = "sv_lru sv"
  let ?now = "nt_now net (cx_env cx)" and ?rpc = "sv_get_status sv path (cx_env cx)"
  have L: "lru_ok ?L" and master: "\<And>fi e'. ?rpc = (Inr fi, e') \<Longrightarrow> true_status net content fi"
    using assms by (auto simp: truthful_def)
  have rpc: "fst ?rpc = Inr fi \<Longrightarrow> true_status net content fi" for fi
    using master [of fi "snd ?rpc"] by (metis prod.collapse)
  show "cx_config (snd (get_file_info_cached sv net path cx)) = cx_config cx"
    by (simp add: get_file_info_cached_def split: prod.splits)
  have "truthful sv net path content (snd (get_file_info_cached sv net path cx))
    \<and> (\<forall>fi. fst (get_file_info_cached sv net path cx) = Inr fi \<longrightarrow> true_status net content fi)"
  proof (cases "cx_metadata_cache cx")
    case None
    then show ?thesis
      using assms rpc
      by (cases ?rpc; cases "fst ?rpc")
        (auto simp: get_file_info_cached_def get_status_through_cache_def truthful_def)
  next
    case (Some mc)
    have mc: "remembers_truth ?L net content path mc" using assms Some by (simp add: truthful_def)
    note look = remembers_lookup [OF L mc, of ?now ?sync]
    show ?thesis
    proof (cases "cached_answer ?L ?now mc path ?sync")
      case None
      then show ?thesis
        using assms Some rpc remembers_record [OF L look(1) rpc]
        by (auto simp: get_file_info_cached_def get_status_through_cache_eq [OF L] truthful_def)
    next
      case (Some slot)
      then show ?thesis
        using assms \<open>cx_metadata_cache cx = Some mc\<close> look
        by (cases slot) (auto simp: get_file_info_cached_def get_status_through_cache_eq [OF L] truthful_def slot_result_def)
    qed
  qed
  then show "truthful sv net path content (snd (get_file_info_cached sv net path cx))"
    and "fst (get_file_info_cached sv net path cx) = Inr fi \<Longrightarrow> true_status net content fi" by blast+
qed

lemma init_with_context_true:
  assumes "truthful sv net path content cx"
  shows "truthful sv net path content (snd (init_with_context sv net path cx))"
    and "cx_config (snd (init_with_context sv net path cx)) = cx_config cx"
    and "fst (init_with_context sv net path cx) = Inr (fi, v) \<Longrightarrow> true_status net content fi"
proof -
  obtain r cx1 where g: "get_file_info_cached sv net path cx = (r, cx1)" by force
  note t = get_file_info_cached_true [OF assms, unfolded g fst_conv snd_conv]
  show "truthful sv net path content (snd (init_with_context sv net path cx))"
    and "cx_config (snd (init_with_context sv net path cx)) = cx_config cx"
    using t(1,3) by (auto simp: init_with_context_def g split: sum.splits)
  assume "fst (init_with_context sv net path cx) = Inr (fi, v)"
  then obtain fi0 where "r = Inr fi0"
    "maybe_enrich_file_block_locations (sv_orders sv) (sv_check_blocks sv) (sv_clock sv)
       (fc_check_block_replicas (cx_config cx1)) fi0 (view_from_shared (cx_worker_router cx1)) = (fi, v)"
    by (auto simp: init_with_context_def g split: sum.splits if_splits)
  then show "true_status net content fi"
    using t(2) [of fi0] enrich_same_blocks same_blocks_describes unfolding true_status_def by (metis fst_conv)
qed

text \<open>An invalidation after a change of the file makes the context truthful again.\<close>

lemma invalidation_restores_truth:
  assumes "lru_ok (sv_lru sv)"
    and "\<And>e fi e'. sv_get_status sv path e = (Inr fi, e') \<Longrightarrow> true_status net content fi"
  shows "truthful sv net path content (invalidate_metadata (sv_lru sv) path with_parent cx)"
  using assms
  by (auto simp: truthful_def invalidate_metadata_def remembers_truth_def mc_invalidate_held
      mc_invalidate_with_parent_held split: option.splits)

text \<open>A streaming reader opened through the context knows the file and has its range planned.\<close>

lemma open_inner_opened:
  assumes "truthful sv net path content cx"
    and "open_inner ops sv net path (Some (off, len)) use_page_cache cx dedup = (Inr (fr, v), cx', dedup')"
  shows "true_status net content (fr_info fr) \<and> opened_for (cx_config cx) (fr_info fr) off len fr"
proof -
  obtain r cx1 where i: "init_with_context sv net path cx = (r, cx1)" by force
  note t = init_with_context_true [OF assms(1), unfolded i fst_conv snd_conv]
  obtain fi v' where r: "r = Inr (fi, v')" using assms(2) by (cases r) (auto simp: open_inner_def i)
  then have "fr_info fr = fi" "opened_for (cx_config cx) fi off len fr"
    using assms(2) t(2)
    by (auto simp: open_inner_def i attach_cache_def Let_def opened_for_def file_reader_build_def
        split: if_splits option.splits prod.splits)
  then show ?thesis using t(3) r by simp
qed

text \<open>
  The outcomes of a read that may not return: it returns the right value or an error, in a state
  with the invariant, or it has no result and a stream fell silent.
\<close>

definition answers :: "('w \<Rightarrow> bool) \<Rightarrow> bool \<Rightarrow> 'a \<Rightarrow> ('a result \<times> 'w) option \<Rightarrow> bool" where
  "answers J silent value outcome \<longleftrightarrow>
     (case outcome of None \<Rightarrow> silent | Some (r, w) \<Rightarrow> J w \<and> (r = Inr value \<or> (\<exists>e. r = Inl e)))"

lemma answers_simps [simp]:
  "answers J silent value None \<longleftrightarrow> silent"
  "answers J silent value (Some (Inl e, w)) \<longleftrightarrow> J w"
  "answers J silent value (Some (Inr v, w)) \<longleftrightarrow> J w \<and> v = value"
  by (simp_all add: answers_def)

lemma answersE:
  assumes "answers J silent value outcome"
  obtains "outcome = None" "silent" | e w where "outcome = Some (Inl e, w)" "J w"
    | w where "outcome = Some (Inr value, w)" "J w"
  using assms by (auto simp: answers_def split: option.splits)

lemma answers_map:
  "answers J silent value outcome \<Longrightarrow> answers J silent (f value) (map_option (apfst (map_sum id f)) outcome)"
  by (erule answersE) simp_all

lemma word_of_length: "length content < 2 ^ 63 \<Longrightarrow> unat (word_of_int (int (length content)) :: u64) = length content"
  using unat_of_int_nat [of "int (length content)"] by simp

lemma read_once_exact:
  assumes "truthful sv net path content cx"
    and "bytes = (case wanted of Some (off, len) \<Rightarrow> seg (unat off) (unat len) content | None \<Rightarrow> content)"
  shows "answers (truthful sv net path content) (falls_silent net) bytes (read_once ops sv net path wanted cx)"
proof -
  obtain r cx1 where i: "init_with_context sv net path cx = (r, cx1)" by force
  note t = init_with_context_true [OF assms(1), unfolded i fst_conv snd_conv]
  show ?thesis
  proof (cases r)
    case (Inl e)
    then show ?thesis using t(1) by (simp add: read_once_def open_inner_def i)
  next
    case (Inr fv)
    obtain fi v where fv: "fv = (fi, v)" by force
    have true: "describes fi content" "workers_serve net fi content"
      using t(3) [of fi v] Inr fv by (simp_all add: true_status_def)
    note d = describesD [OF true(1)]
    obtain off len where ol: "(case wanted of Some r \<Rightarrow> r | None \<Rightarrow> (0, word_of_int (unwrap_or (fi_length fi) 0))) = (off, len)"
      by force
    then have bytes: "seg (unat off) (unat len) content = bytes"
      using assms(2) d(1) word_of_length [OF d(2)] by (auto simp: seg_def split: option.splits)
    define fr where "fr = (file_reader_build (cx_config cx1) path fi off len)\<lparr>fr_cached := False, fr_cache_fill := False\<rparr>"
    have fr: "fr_info fr = fi" "fr_plans fr = plan_read fi off len" "fr_current_plan_index fr = 0" "\<not> fr_cached fr"
      by (simp_all add: fr_def file_reader_build_def)
    have opened: "open_inner ops sv net path wanted False cx [] = (Inr (fr, v), cx1, [])"
      by (simp add: open_inner_def i Inr fv ol attach_cache_def Let_def fr_def file_reader_build_def)
    have "completes (\<lambda>_. True) net bytes (file_read_all disabled_ops (cx_config cx1) net fr () (link_of cx1 v))"
      using disabled.file_read_loop_exact [where fr = fr and content = content and net = net and buf = "[]"
          and cfg = "cx_config cx1" and lk = "link_of cx1 v" and s = "()"] true fr
        plan_read_good [OF true(1)] plan_read_concat [OF d(1-4), of off len] bytes
      by (simp add: file_read_all_def)
    moreover have "truthful sv net path content (give_back lk cx1)" for lk
      by (rule truthful_cong [OF t(1)]) (simp add: give_back_def)
    ultimately show ?thesis
      by (auto simp: answers_def read_once_def opened completes_def split: option.splits)
  qed
qed

text \<open>
  What the batch reader relies on: a range read that keeps an invariant and returns the bytes of
  the range, an error, or nothing at all.
\<close>

locale range_reader =
  fixes rd :: "u64 \<Rightarrow> u64 \<Rightarrow> 'w \<Rightarrow> (bytes result \<times> 'w) option"
    and I :: "'w \<Rightarrow> bool" and silent :: bool and content :: bytes
  assumes rd_exact: "I w \<Longrightarrow> answers I silent (seg (unat off) (unat len) content) (rd off len w)"
begin

lemma read_each_exact:
  "I w \<Longrightarrow> answers I silent (out @ map (\<lambda>(off, len). seg (unat off) (unat len) content) wanted)
     (read_each rd wanted out w)"
proof (induction wanted arbitrary: out w)
  case (Cons r wanted)
  obtain off len where r: "r = (off, len)" by force
  show ?case
  proof (cases "len = 0")
    case True
    then show ?thesis using Cons.IH [OF Cons.prems, of "out @ [[]]"] r by (simp add: seg_def)
  next
    case False
    show ?thesis
      using rd_exact [OF Cons.prems, of off len] Cons.IH [of _ "out @ [seg (unat off) (unat len) content]"] False r
      by (elim answersE) simp_all
  qed
qed simp

lemma read_fetches_exact:
  "I w \<Longrightarrow> answers I silent (bufs @ map (\<lambda>f. seg (unat (mf_offset f)) (unat (mf_len f)) content) fetches)
     (read_fetches rd fetches bufs w)"
proof (induction fetches arbitrary: bufs w)
  case (Cons f fetches)
  show ?case
    using rd_exact [OF Cons.prems, of "mf_offset f" "mf_len f"]
      Cons.IH [of _ "bufs @ [seg (unat (mf_offset f)) (unat (mf_len f)) content]"]
    by (elim answersE) simp_all
qed simp

lemma read_ranges_by_exact:
  assumes "I w" "\<forall>(off, len) \<in> set ranges. fits off len" "length ranges < NO_FETCH"
  shows "answers I silent (map (\<lambda>(off, len). seg (unat off) (unat len) content) ranges) (read_ranges_by cfg rd ranges w)"
proof (cases "fc_range_coalesce_enabled cfg")
  case False
  then show ?thesis using read_each_exact [OF assms(1), of "[]" ranges] by (simp add: read_ranges_by_def)
next
  case True
  define p where "p = coalesce_plan_of ranges (fc_range_coalesce_gap_bytes cfg) (fc_range_coalesce_max_bytes cfg)"
  have "splice_from_plan p (map (\<lambda>f. seg (unat (mf_offset f)) (unat (mf_len f)) content) (cp_fetches p))
      = map (\<lambda>(off, len). seg (unat off) (unat len) content) ranges"
  proof (rule nth_equalityI)
    show len: "length (splice_from_plan p (map (\<lambda>f. seg (unat (mf_offset f)) (unat (mf_len f)) content) (cp_fetches p)))
        = length (map (\<lambda>(off, len). seg (unat off) (unat len) content) ranges)"
      using coalesce_slices_length [OF assms(2)] by (simp add: splice_from_plan_def p_def)
    fix i
    assume "i < length (splice_from_plan p (map (\<lambda>f. seg (unat (mf_offset f)) (unat (mf_len f)) content) (cp_fetches p)))"
    then have i: "i < length ranges" using len by simp
    obtain off l where r: "ranges ! i = (off, l)" by fastforce
    have s: "slice_output p content (cp_slices p ! i) = seg (unat off) (unat l) content"
      unfolding p_def by (rule slice_bytes [OF assms(2,3) i r])
    have "sm_fetch_index (cp_slices p ! i) = NO_FETCH \<or> sm_fetch_index (cp_slices p ! i) < length (cp_fetches p)"
      using coalesce_slice_at(3,4) [OF assms(2) i r] unfolding p_def by (cases "l = 0") (auto simp: empty_slice_def)
    then show "splice_from_plan p (map (\<lambda>f. seg (unat (mf_offset f)) (unat (mf_len f)) content) (cp_fetches p)) ! i
        = map (\<lambda>(off, len). seg (unat off) (unat len) content) ranges ! i"
      using s i r coalesce_slices_length [OF assms(2)]
      by (auto simp: splice_from_plan_def slice_output_def Let_def p_def)
  qed
  then show ?thesis
    using answers_map [OF read_fetches_exact [OF assms(1), of "[]" "cp_fetches p"], of "splice_from_plan p"] True
    by (simp add: read_ranges_by_def p_def Let_def)
qed

lemma read_fetches_full:
  "I w \<Longrightarrow> read_fetches rd fetches bufs w = Some (Inr out, w') \<Longrightarrow> f \<in> set fetches
   \<Longrightarrow> length (seg (unat (mf_offset f)) (unat (mf_len f)) content) = unat (mf_len f)"
proof (induction fetches arbitrary: bufs w)
  case (Cons g fetches)
  let ?bytes = "seg (unat (mf_offset g)) (unat (mf_len g)) content"
  obtain w1 where w1: "rd (mf_offset g) (mf_len g) w = Some (Inr ?bytes, w1)" "I w1"
    using rd_exact [OF Cons.prems(1), of "mf_offset g" "mf_len g"] Cons.prems(2) by (elim answersE) auto
  then have full: "of_nat (length ?bytes) = mf_len g" and
    rest: "read_fetches rd fetches (bufs @ [?bytes]) w1 = Some (Inr out, w')"
    using Cons.prems(2) by (auto split: if_splits)
  have "length ?bytes < 2 ^ 64" using unat_u64_less [of "mf_len g"] by (simp add: length_seg)
  then have "length ?bytes = unat (of_nat (length ?bytes) :: u64)" by (simp add: unat_of_nat)
  then have "length ?bytes = unat (mf_len g)" unfolding full .
  then show ?case using Cons.IH [OF w1(2) rest] Cons.prems(3) by auto
qed simp

text \<open>A range beyond the end makes its merged fetch come back short.\<close>

lemma read_ranges_by_tail:
  assumes "I w" "\<forall>(off, len) \<in> set ranges. fits off len" "fc_range_coalesce_enabled cfg"
    and "(off, len) \<in> set ranges" "0 < len" "length content < unat off + unat len"
  shows "read_ranges_by cfg rd ranges w \<noteq> Some (Inr out, w')"
proof
  assume read: "read_ranges_by cfg rd ranges w = Some (Inr out, w')"
  let ?p = "coalesce_plan_of ranges (fc_range_coalesce_gap_bytes cfg) (fc_range_coalesce_max_bytes cfg)"
  obtain i where i: "i < length ranges" "ranges ! i = (off, len)" using assms(4) by (auto simp: in_set_conv_nth)
  define f where "f = cp_fetches ?p ! sm_fetch_index (cp_slices ?p ! i)"
  have len: "len \<noteq> 0" using assms(5) by auto
  note at = coalesce_slice_at [OF assms(2) i, of "fc_range_coalesce_gap_bytes cfg" "fc_range_coalesce_max_bytes cfg"]
  have f: "f \<in> set (cp_fetches ?p)" using at(4) [OF len] by (simp add: f_def)
  have "unat off + unat len \<le> unat (mf_offset f) + unat (mf_len f)" using at(6,7) [OF len] by (simp add: f_def)
  moreover obtain bufs where "read_fetches rd (cp_fetches ?p) [] w = Some (Inr bufs, w')"
    using read assms(3)
    by (cases "read_fetches rd (cp_fetches ?p) [] w") (auto simp: read_ranges_by_def Let_def map_sum_def split: sum.splits)
  then have "length (seg (unat (mf_offset f)) (unat (mf_len f)) content) = unat (mf_len f)"
    by (rule read_fetches_full [OF assms(1) _ f])
  moreover have "0 < unat len" using len by (simp add: unat_gt_0)
  ultimately show False using assms(6) at(7) [OF len] by (auto simp: length_seg f_def split: if_splits)
qed

end

interpretation shared: range_reader "read_range_with_context ops sv net path" "truthful sv net path content"
    "falls_silent net" content
  by unfold_locales (simp add: read_range_with_context_def read_once_exact)

text \<open>
  (C3) A batch of range reads is exact or an error.  With a master and a metadata cache that describe
  the file truthfully and workers that send only bytes of what they are asked for, reading any
  ranges that end below \<open>2 ^ 64\<close> through the shared context, with or without coalescing, over
  any failures of workers and connections, returns for every range exactly its bytes, cut off at
  the end of the file, in the order of the request, or an error; it returns unless a stream falls
  silent.
\<close>

theorem read_ranges_exact:
  assumes "truthful sv net path content cx" and "\<forall>(off, len) \<in> set ranges. fits off len"
    and "length ranges < NO_FETCH"
  shows "answers (truthful sv net path content) (falls_silent net)
           (map (\<lambda>(off, len). seg (unat off) (unat len) content) ranges)
           (read_ranges_with_context ops sv net path ranges cx)"
  unfolding read_ranges_with_context_def by (rule shared.read_ranges_by_exact [OF assms])

definition demo_services :: "(nat \<times> (string \<times> cached_item) list, nat) services" where
  "demo_services = \<lparr>sv_lru = list_lru, sv_get_status = (\<lambda>path e. (Inr (two_blocks [''a'']), e + 1)),
     sv_check_blocks = (\<lambda>_ _. Inr []), sv_orders = \<lparr>ho_ids = id, ho_keys = id\<rparr>, sv_clock = id\<rparr>"

definition demo_context ::
  "bool \<Rightarrow> (nat \<times> (string \<times> cached_item) list, string, unit, nat) fs_context" where
  "demo_context coalesce = \<lparr>cx_config = demo_config\<lparr>fc_range_coalesce_enabled := coalesce\<rparr>,
     cx_metadata_cache = mc_maybe_new list_lru 9 4,
     cx_worker_router = \<lparr>wr_workers = [demo_host 1 ''a'', demo_host 2 ''b''], wr_failed = failed_new,
       wr_failure_ttl = 6, wr_last_refresh = 0, wr_worker_refresh_ttl = 3, wr_local_worker_id = None,
       wr_hash_ring = []\<rparr>,
     cx_worker_pool = pool_new 1, cx_cache_manager = None, cx_env = 0\<rparr>"

lemma demo_truthful: "truthful demo_services demo_net ''/f'' demo_file (demo_context b)"
  using lru_okD(1) [OF list_lru_ok]
  by (auto simp: truthful_def demo_services_def list_lru_ok true_status_def two_blocks_describes two_blocks_served
      demo_context_def mc_maybe_new_def remembers_truth_def held_def)

lemma demo_fetches:
  "cp_fetches (coalesce_plan_of [(6, 2), (3, 2)] 2 8) = [\<lparr>mf_offset = 3, mf_len = 5\<rparr>]"
  by (simp add: coalesce_plan_of_def sorted_ranges_def coalesce_step_def sat_add_def Let_def)

lemma demo_coalesced:
  "read_ranges_with_context disabled_ops demo_services demo_net ''/f'' ranges (demo_context True) =
     map_option (apfst (map_sum id (splice_from_plan (coalesce_plan_of ranges 2 8))))
       (read_fetches (read_range_with_context disabled_ops demo_services demo_net ''/f'')
          (cp_fetches (coalesce_plan_of ranges 2 8)) [] (demo_context True))"
  by (simp add: read_ranges_with_context_def read_ranges_by_def Let_def) (simp add: demo_context_def demo_config_def)

theorem read_ranges_exact_witness:
  "map_option fst (read_ranges_with_context disabled_ops demo_services demo_net ''/f'' [(6, 2), (3, 2)]
     (demo_context True)) = Some (Inr [[8, 8], [7, 8]])"
proof -
  let ?read = "read_ranges_with_context disabled_ops demo_services demo_net ''/f'' [(6, 2), (3, 2)] (demo_context True)"
  have "answers (truthful demo_services demo_net ''/f'' demo_file) (falls_silent demo_net)
      (map (\<lambda>(off, len). seg (unat off) (unat len) demo_file) [(6 :: u64, 2 :: u64), (3, 2)]) ?read"
    by (rule read_ranges_exact [OF demo_truthful]) (simp_all add: fits_def NO_FETCH_def)
  moreover have "case read_fetches (read_range_with_context disabled_ops demo_services demo_net ''/f'')
      [\<lparr>mf_offset = 3, mf_len = 5\<rparr>] [] (demo_context True) of Some (Inr _, _) \<Rightarrow> True | _ \<Rightarrow> False"
    by code_simp
  then have "case ?read of Some (Inr _, _) \<Rightarrow> True | _ \<Rightarrow> False"
    by (auto simp: demo_coalesced demo_fetches split: option.splits sum.splits)
  ultimately show ?thesis
    by (elim answersE) (simp_all add: demo_file_def seg_def)
qed

text \<open>
  (C6) Coalescing rejects what single reads cut off.  With coalescing enabled, a batch with any
  non-empty range that reaches beyond the end of the file never succeeds, however the range is
  merged and whatever the workers do: it fails as a whole, or a stream falls silent.  Without
  coalescing such a range is cut off at the end.
\<close>

theorem coalescing_rejects_tail:
  assumes "truthful sv net path content cx" and "\<forall>(off, len) \<in> set ranges. fits off len"
    and "length ranges < NO_FETCH" and "fc_range_coalesce_enabled (cx_config cx)"
    and "(off, len) \<in> set ranges" and "0 < len" and "length content < unat off + unat len"
  shows "(case read_ranges_with_context ops sv net path ranges cx of
       None \<Rightarrow> falls_silent net
     | Some (res, _) \<Rightarrow> \<exists>e. res = Inl e)"
  using shared.read_ranges_by_exact [OF assms(1-3), where ops = ops and cfg = "cx_config cx"]
    shared.read_ranges_by_tail [OF assms(1,2,4-7), where ops = ops]
  unfolding read_ranges_with_context_def by (elim answersE) auto

theorem coalescing_rejects_tail_witness:
  "(\<exists>e cx. read_ranges_with_context disabled_ops demo_services demo_net ''/f'' [(0, 2), (6, 5)] (demo_context True) = Some (Inl e, cx))
   \<and> map_option fst (read_ranges_with_context disabled_ops demo_services demo_net ''/f'' [(0, 2), (6, 5)] (demo_context False))
     = Some (Inr [[7, 7], [8, 8, 9]])"
proof
  let ?ranges = "[(0, 2), (6, 5)] :: (u64 \<times> u64) list"
  have "case read_ranges_with_context disabled_ops demo_services demo_net ''/f'' ?ranges (demo_context True) of
      None \<Rightarrow> falls_silent demo_net | Some (res, _) \<Rightarrow> \<exists>e. res = Inl e"
    by (rule coalescing_rejects_tail [OF demo_truthful, where off = 6 and len = 5])
      (simp_all add: fits_def NO_FETCH_def demo_file_def, simp add: demo_context_def)
  then show "\<exists>e cx. read_ranges_with_context disabled_ops demo_services demo_net ''/f'' ?ranges (demo_context True) = Some (Inl e, cx)"
    using demo_net_settles by (auto split: option.splits)
  have "map_option fst (read_each (read_range_with_context disabled_ops demo_services demo_net ''/f'')
      [(0, 2), (6, 5)] [] (demo_context False)) = Some (Inr [[7, 7], [8, 8, 9]])"
    by code_simp
  then show "map_option fst (read_ranges_with_context disabled_ops demo_services demo_net ''/f'' ?ranges
      (demo_context False)) = Some (Inr [[7, 7], [8, 8, 9]])"
    by (simp add: read_ranges_with_context_def read_ranges_by_def) (simp add: demo_context_def)
qed

section \<open>The record of recent opens\<close>

definition open_key :: "file_reader \<Rightarrow> i64 \<times> i64 \<times> i64" where
  "open_key fr = (unwrap_or (fi_file_id (fr_info fr)) 0, unwrap_or (fi_length (fr_info fr)) 0,
     unwrap_or (fi_last_modification_time_ms (fr_info fr)) 0)"

text \<open>Readers opened one after the other, by any contexts: the record they leave.\<close>

definition attach_all ::
  "'s cache_ops \<Rightarrow> (instant \<times> reader_config \<times> bool \<times> file_reader \<times> 's option) list \<Rightarrow> dedup_map \<Rightarrow> dedup_map" where
  "attach_all ops = fold (\<lambda>(now, cfg, use_page_cache, fr, cache) dedup.
     snd (snd (attach_cache ops cfg now use_page_cache fr cache dedup)))"

lemma attach_cache_record:
  "snd (snd (attach_cache ops cfg now use_page_cache fr cache dedup)) =
     (if use_page_cache \<and> page_cache_eligible (unwrap_or (fi_file_id (fr_info fr)) 0) \<and> cache \<noteq> None
         \<and> \<not> recently_opened now (open_key fr) dedup
      then note_opened now (open_key fr) dedup else dedup)"
  by (auto simp: attach_cache_def open_key_def Let_def split: option.splits)

text \<open>A noted open stays in the record as long as it is recent.\<close>

definition noted :: "instant \<Rightarrow> instant \<Rightarrow> i64 \<times> i64 \<times> i64 \<Rightarrow> dedup_map \<Rightarrow> bool" where
  "noted t t' key dedup \<longleftrightarrow> (\<exists>u. map_of dedup key = Some u \<and> t \<le> u \<and> u \<le> t')"

lemma map_of_filter_keep: "map_of xs k = Some v \<Longrightarrow> P (k, v) \<Longrightarrow> map_of (filter P xs) k = Some v"
  by (induction xs) (auto split: if_splits)

lemma noted_note:
  assumes "noted t t' key dedup" "t' - t < ON_FILE_OPEN_DEDUP_TTL" "t \<le> now" "now \<le> t'"
  shows "noted t t' key (note_opened now key' dedup)"
proof (cases "key' = key")
  case True
  then show ?thesis using assms(3,4) by (simp add: noted_def note_opened_def Let_def)
next
  case False
  obtain u where u: "map_of dedup key = Some u" "t \<le> u" "u \<le> t'" using assms(1) by (auto simp: noted_def)
  then have "now - u < ON_FILE_OPEN_DEDUP_TTL" using assms(2,4) by linarith
  then have "map_of (if 4096 < length dedup
      then filter (\<lambda>(_, last_open). now - last_open < ON_FILE_OPEN_DEDUP_TTL) dedup else dedup) key = Some u"
    using u(1) by (auto intro: map_of_filter_keep)
  then have "map_of (note_opened now key' dedup) key = Some u"
    using False map_of_filter_keep [of _ key u "\<lambda>(k, _). k \<noteq> key'"]
    by (simp add: note_opened_def Let_def del: filter_filter)
  then show ?thesis using u(2,3) by (auto simp: noted_def)
qed

lemma noted_attach_all:
  assumes "t' - t < ON_FILE_OPEN_DEDUP_TTL"
  shows "noted t t' key dedup \<Longrightarrow> \<forall>(now, _) \<in> set opens. t \<le> now \<and> now \<le> t'
    \<Longrightarrow> noted t t' key (attach_all ops opens dedup)"
proof (induction opens arbitrary: dedup)
  case (Cons x opens)
  obtain now cfg use_page_cache fr cache where x: "x = (now, cfg, use_page_cache, fr, cache)" by (cases x) auto
  have "noted t t' key (snd (snd (attach_cache ops cfg now use_page_cache fr cache dedup)))"
    using Cons.prems noted_note [OF Cons.prems(1) assms] by (auto simp: attach_cache_record x)
  then show ?case using Cons.IH Cons.prems(2) by (simp add: attach_all_def x)
qed (simp add: attach_all_def)

text \<open>
  (C27) An open in one context hides an overwrite from all others.  Once some context has opened a file
  under a new identity and checked its own page cache, any other context that opens the file within
  a minute skips the check, however many files have been opened in between: the cache it attaches
  is the very state it had, with whatever pages of the overwritten file it held, where with no
  record the check would have run on it.
\<close>

theorem dedup_hides_overwrite:
  assumes "page_cache_eligible (unwrap_or (fi_file_id (fr_info fr)) 0)" and "open_key first = open_key fr"
    and "\<not> recently_opened t (open_key fr) dedup0"
    and "dedup = attach_all ops opens (snd (snd (attach_cache ops cfg' t True first (Some s') dedup0)))"
    and "\<forall>(now, _) \<in> set opens. t \<le> now \<and> now \<le> t'" and "t \<le> t'" and "t' < t + ON_FILE_OPEN_DEDUP_TTL"
  shows "\<exists>fr'. attach_cache ops cfg t' True fr (Some s) dedup = (fr', Some s, dedup) \<and> fr_cached fr'
    \<and> fst (snd (attach_cache ops cfg t' True fr (Some s) [])) =
        Some (op_on_file_open ops (show_int (unwrap_or (fi_file_id (fr_info fr)) 0))
          (unwrap_or (fi_length (fr_info fr)) 0) (unwrap_or (fi_last_modification_time_ms (fr_info fr)) 0) s)"
proof -
  have ttl: "t' - t < ON_FILE_OPEN_DEDUP_TTL" using assms(6,7) by linarith
  have "page_cache_eligible (unwrap_or (fi_file_id (fr_info first)) 0)"
    using assms(1,2) by (simp add: open_key_def)
  then have "noted t t' (open_key fr) (snd (snd (attach_cache ops cfg' t True first (Some s') dedup0)))"
    using assms(2,3,6) by (simp add: attach_cache_record noted_def note_opened_def Let_def)
  from noted_attach_all [OF ttl this assms(5), of ops]
  obtain u where u: "map_of dedup (open_key fr) = Some u" "t \<le> u" "u \<le> t'"
    unfolding assms(4) [symmetric] by (auto simp: noted_def)
  then have "t' - u < ON_FILE_OPEN_DEDUP_TTL" using ttl by linarith
  then have "recently_opened t' (open_key fr) dedup" using u(1) by (simp add: recently_opened_def)
  moreover have "\<not> recently_opened t' (open_key fr) []" by (simp add: recently_opened_def)
  ultimately show ?thesis
    using assms(1) by (simp add: attach_cache_def open_key_def Let_def)
qed

text \<open>A reader of the file under a new identity, and a manager that still holds its old first page.\<close>

definition rewritten :: file_reader where
  "rewritten = file_reader_build demo_config ''/f'' ((two_blocks [''a''])\<lparr>fi_last_modification_time_ms := Some 2\<rparr>) 0 9"

definition stale_manager :: "Cache_Reach.lru cache_manager" where
  "stale_manager = demo_put 0 [7, 7, 7, 7] (demo_open 9 1 demo_manager)"

definition first_page :: "Cache_Reach.lru cache_manager option \<Rightarrow> bytes" where
  "first_page cache = (case cache of None \<Rightarrow> []
     | Some s \<Rightarrow> fst (cm_get_bytes (lru_foyer 1) (\<lambda>_. 7) demo_io (page_id_of ''42'' 0) 0 4 s))"

theorem dedup_hides_overwrite_witness:
  "let ops = local_ops (lru_foyer 1) (\<lambda>_. 7) (\<lambda>_. demo_io);
       dedup = snd (snd (attach_cache ops demo_config 10 True rewritten (Some demo_manager) []))
   in first_page (fst (snd (attach_cache ops demo_config 20 True rewritten (Some stale_manager) dedup))) = [7, 7, 7, 7]
    \<and> first_page (fst (snd (attach_cache ops demo_config 20 True rewritten (Some stale_manager) []))) = []"
proof -
  let ?ops = "local_ops (lru_foyer 1) (\<lambda>_. 7) (\<lambda>_. demo_io)"
  have id: "page_cache_eligible (unwrap_or (fi_file_id (fr_info rewritten)) 0)" by code_simp
  have new: "\<not> recently_opened 10 (open_key rewritten) []" by (simp add: recently_opened_def)
  have hidden: "first_page (Some stale_manager) = [7, 7, 7, 7]" by code_simp
  have checked: "first_page (Some (op_on_file_open ?ops (show_int (unwrap_or (fi_file_id (fr_info rewritten)) 0))
      (unwrap_or (fi_length (fr_info rewritten)) 0)
      (unwrap_or (fi_last_modification_time_ms (fr_info rewritten)) 0) stale_manager)) = []" by code_simp
  note dedup_hides_overwrite [OF id HOL.refl new HOL.refl, where ops = ?ops and opens = "[]" and t' = 20 and cfg = demo_config
      and cfg' = demo_config and s' = demo_manager and s = stale_manager]
  then show ?thesis
    by (auto simp: Let_def attach_all_def ON_FILE_OPEN_DEDUP_TTL_def hidden checked simp del: One_nat_def)
qed

end
