(* ===== verification/Spec2Isabelle.thy ===== *)
theory Spec2Isabelle
  imports Block_Mapper Checksums Murmur3 Range_Coalesce Singleflight Replica_Write Router_View
    Router_Refresh Router_Publish Caching_Reader Metadata_Cache Block_Locations Block_Reader Worker_Pool File_Reader Reader_Context
begin

text \<open>
  A verification development for the GooseFS Rust client (\<^verbatim>\<open>src/src/\<close>, crate \<^verbatim>\<open>goosefs-sdk\<close>).

  \<^bold>\<open>The program.\<close>  A client asks a master for the blocks of a file and talks to workers for their
  bytes.  Which master answers is found by polling a list of addresses, one caller polling for
  all (\<^verbatim>\<open>client/master_inquire.rs\<close>); which worker serves a block is decided by block locations, by
  the local host and by a consistent-hash ring, with failed workers left out for a while
  (\<^verbatim>\<open>block/router.rs\<close>).  A read is cut into block segments (\<^verbatim>\<open>block/mapper.rs\<close>), many small ranges are
  merged before they are fetched (\<^verbatim>\<open>io/range_coalesce.rs\<close>), and pages may be kept in a disk cache on
  the client (\<^verbatim>\<open>cache/\<close>).  A write chooses workers with room and tolerates the loss of replicas
  (\<^verbatim>\<open>io/replica_write.rs\<close>).  Errors of the RPC layer are classified once (\<^verbatim>\<open>error.rs\<close>) and drive the
  retry policies (\<^verbatim>\<open>retry.rs\<close>).

  \<^bold>\<open>Conventions.\<close>  \<^verbatim>\<open>u8\<close>, \<^verbatim>\<open>u32\<close> and \<^verbatim>\<open>u64\<close> are words and wrap as in a release build; \<^verbatim>\<open>i32\<close> and \<^verbatim>\<open>i64\<close>
  are integers with \<open>wrap_i64\<close> where a result can leave the range; lengths and indices of vectors
  are natural numbers; durations and instants are natural numbers of nanoseconds; bytes are lists
  of \<open>u8\<close>; \<open>'a result\<close> is \<open>client_error + 'a\<close>; \<^verbatim>\<open>f32\<close> and \<^verbatim>\<open>f64\<close> are the rounded rationals of
  \<open>Ieee_Float\<close>.  Log lines and exported metrics are left out everywhere.  The clock, random
  numbers, file-system outcomes, RPC answers and third-party hash functions are arguments.

  \<^bold>\<open>The theories.\<close>
  \<^item> \<open>Goose_Prelude\<close>: the types above, results, segments of lists, shared lemmas.
    \<open>Rust_Text\<close>: UTF-8 decoding, trimming, splitting and parsing of integers, with the round
    trips of printing and parsing.  \<open>Ieee_Float\<close>: rounding to 24 and 53 bits, bounds on it.
  \<^item> \<open>Proto_Types\<close>: the fields of the protocol messages the code below uses.
  \<^item> \<open>Client_Error\<close> (\<^verbatim>\<open>error.rs\<close>): the error type, its conversion from a gRPC status, its predicates;
    which statuses are retried and how each special case is recognised.
  \<^item> \<open>Block_Mapper\<close> (\<^verbatim>\<open>block/mapper.rs\<close>): reading and writing plans tile the range, and reading the
    planned segments yields the requested bytes.
  \<^item> \<open>Range_Coalesce\<close> (\<^verbatim>\<open>io/range_coalesce.rs\<close>): every input range gets its own bytes back from the
    merged fetches; the fetches keep the cap and the gap.
  \<^item> \<open>Checksums\<close> (\<^verbatim>\<open>io/crc32.rs\<close>, \<^verbatim>\<open>io/crc32c.rs\<close>): the tables compute the shift register, appending
    composes, one changed byte is detected.  \<open>Murmur3\<close> (\<^verbatim>\<open>block/murmur3.rs\<close>): the ring's hash.
  \<^item> \<open>Retry_Policy\<close> (\<^verbatim>\<open>retry.rs\<close>): the sleeps and attempts of both policies.
    \<open>Master_Inquire\<close> (\<^verbatim>\<open>client/master_inquire.rs\<close>): pings, the polling loop, the factory; the poll
    returns and finds a primary that answers.
  \<^item> \<open>Singleflight\<close> (\<^verbatim>\<open>client/master_inquire.rs\<close>): callers sharing one poll, as an interleaving
    transition system with cancellation; no follower is left waiting, all see the leader's
    result, and the gate does not exclude a second poll.
  \<^item> \<open>Hash_Ring\<close>, \<open>Failed_Workers\<close>, \<open>Worker_Router\<close>, \<open>Router_Refresh\<close>, \<open>Router_View\<close>
    (\<^verbatim>\<open>block/router.rs\<close>): the ring and its lookup, the failure set with its time to live, the
    shared router with every operation, its refresh, and the per-reader view that answers as
    the router does on the same state.  Operations are whole steps there.  \<open>Router_Publish\<close> takes
    an update apart into its stores, interleaved with everything else: list and ring agree except
    between two of them as long as updates come one at a time, and need not when they do not.
  \<^item> \<open>Replica_Write\<close> (\<^verbatim>\<open>io/replica_write.rs\<close>): watermarks in floating point, the filter of full
    workers, plans and their degradation.
  \<^item> \<open>Page_Store\<close> (\<^verbatim>\<open>cache/page_id.rs\<close>, \<^verbatim>\<open>allocator.rs\<close>, \<^verbatim>\<open>store/local.rs\<close>): pages and identity
    sidecars on disk, every file-system call with its outcome as an argument; atomic writes and
    round trips.
  \<^item> \<open>Page_Cache\<close>, \<open>Cache_Invariant\<close>, \<open>Cache_Reach\<close> (\<^verbatim>\<open>cache/manager.rs\<close>, \<^verbatim>\<open>cache/options.rs\<close>): the
    local cache manager, the invariant each operation keeps, and runs of it in any order with
    evictions, background fills, the reaper and faults.  A step of a run is one whole
    operation: the per-page locks of the code make the operations on one page exclude each other.
  \<^item> \<open>Caching_Reader\<close> (\<^verbatim>\<open>cache/caching_reader.rs\<close>, \<^verbatim>\<open>cache/mod.rs\<close>): reading a range through any cache
    that keeps the contract \<open>page_cache\<close>, shown for the disabled and the local manager.
  \<^item> \<open>Metadata_Cache\<close> (\<^verbatim>\<open>metadata_cache.rs\<close>): statuses, missing paths and listings kept for a time,
    specified over the log of what the master said; a cached answer was said since the path was
    last invalidated, a mutation is seen, and a status write revives an expired listing.
  \<^item> \<open>Block_Locations\<close> (\<^verbatim>\<open>block/locations.rs\<close>): filling in block ids and probing workers for blocks.
  \<^item> \<open>Block_Reader\<close> (\<^verbatim>\<open>io/reader.rs\<close>): one block from a stream of responses, with acknowledgements,
    half-close and draining; the whole range or an error, never a part of it.
  \<^item> \<open>Worker_Pool\<close> (pool of \<^verbatim>\<open>client/worker.rs\<close>): connections per address and slot, and racing
    reconnects as a transition system; racing callers share one handshake, unless an
    invalidation splits them.
  \<^item> \<open>File_Reader\<close> (\<^verbatim>\<open>io/file_reader.rs\<close>): segments read from located or hashed workers, over the
    page cache or directly, with failover and reconnects; the read is exact or an error, provided
    that the block infos are in file order, and an expired session is not renewed after a change
    of worker.
  \<^item> \<open>Reader_Context\<close> (the openers of \<^verbatim>\<open>io/file_reader.rs\<close>, \<^verbatim>\<open>context.rs\<close>): the status through the
    metadata cache, the attached page cache, and the one-shot reads of a file, a range and many
    ranges; a batch is exact or an error, coalescing rejects a range beyond the end, and an open
    in one context makes others skip their check.  The record of opens, shared by all contexts of a
    process, is an argument.
  \<^item> This theory: properties that need the cache manager and the reader together.

  \<^bold>\<open>Interfaces.\<close>  What one part relies on in another is a locale, interpreted on the definitions of
  the part that provides it; the laws assumed of third-party code are hypotheses with a concrete
  instance behind each witness: \<open>foyer_ok\<close> states that the in-memory metadata cache (foyer) returns what
  was inserted, reports every entry that leaves, and forgets what is removed (instance
  \<open>lru_foyer\<close>); \<open>lru_ok\<close> the same of the \<open>lru\<close> crate (instance \<open>list_lru\<close>); xxHash3 is any function
  into \<open>u64\<close>; the iteration order of hash maps is a parameter.  Of the servers the readers assume
  only honesty: \<open>describes\<close> says that a file status has the length, the block size and the block
  ids of the content, \<open>workers_serve\<close> that data frames of a read are bytes of the block asked for,
  and \<open>truthful\<close> that the master and the metadata cache give such a status.  Streams may break,
  end early or fall silent, and dialling may fail, at any point.

  \<^bold>\<open>Bounds and fuel.\<close>  The polling loop runs over an environment that answers each round and
  recurses on the remaining budget; \<open>poll_returns\<close> shows that it ends.  The page-splitting loop
  is \<open>partial_function (option)\<close>, \<open>None\<close> being a call that does not return, and the properties show
  that it returns when the range lies in the file and the file length plus one page stays below
  $2^{63}$.  Every other loop is total; a read that waits for a silent stream has the value \<open>None\<close>,
  and the properties of the readers exclude every other cause of it.

  \<^bold>\<open>Not modelled.\<close>
  \<^item> Generated protobuf codecs and service stubs: outputs of a generator.
  \<^item> The RPC clients (\<^verbatim>\<open>client/master.rs\<close>, the calls of \<^verbatim>\<open>client/worker.rs\<close>, \<^verbatim>\<open>client/metrics_master.rs\<close>),
    the block stream writer (\<^verbatim>\<open>io/writer.rs\<close>), the adapter to poll-style traits (\<^verbatim>\<open>io/async_reader.rs\<close>), and
    connecting, closing and the background tasks of the context: their behaviour is that of the
    network they wrap.
  \<^item> Authentication and SASL: message exchange with a server-side contract that is not in the
    repository.
  \<^item> The io_uring page store: unsafe code over kernel rings.
  \<^item> Metrics, heartbeats and the push gateway: observation only.
  \<^item> Configuration parsing beyond the fields used above: a table of keys.
  \<^item> The Python bindings, examples and benchmarks: wrappers around the crate.
  \<^item> The seekable input stream (\<^verbatim>\<open>io/file_in_stream.rs\<close>) and the file writer (\<^verbatim>\<open>io/file_writer.rs\<close>): the
    block plans, the page-cache reads, the choice of replicas and the checksums they are built on
    are the theories above; their own buffers and stream hand-over are not.
  \<^item> The file system facade (\<^verbatim>\<open>fs/\<close>): option builders and forwarding to the master client; the
    metadata-cache calls it makes are in \<open>Metadata_Cache\<close>.
\<close>

section \<open>Overwritten files, from the open to the bytes\<close>

lemma overwrite_cache_ok:
  assumes "foyer_ok fo" "cm_steps True fo xxh3 T s0 s" "cache_ok fo xxh3 T s0" "index_complete fo xxh3 s0"
    and "cm_versions s f = Some v" "v \<noteq> (len, mtime)"
    and "\<And>pid page. (pid, page) \<in> set (cm_fills s) \<Longrightarrow> file_id pid \<noteq> f"
    and "\<And>pid page. file_id pid \<noteq> f \<Longrightarrow> T pid page \<Longrightarrow> T' pid page"
  shows "cache_ok fo xxh3 T' (cm_on_file_open fo xxh3 ios f len mtime s)"
    (is "cache_ok fo xxh3 T' ?s")
proof (rule cache_okI)
  have ok: "cache_ok fo xxh3 T s" by (rule cm_steps_ok [OF assms(1-3)])
  have shape: "cache_shape fo xxh3 s" by (rule cache_okD [OF ok])
  have idx: "index_complete fo xxh3 s" by (rule cm_steps_index [OF assms(1-4)])
  have sh: "shrinks fo xxh3 s ?s" by (rule cm_on_file_open_shrinks [OF assms(1) shape])
  show "cache_shape fo xxh3 ?s" by (rule shrinks_shape [OF sh shape])
  have ok': "cache_ok fo xxh3 T ?s" by (rule shrinks_ok [OF sh ok])
  show "\<exists>page. stored xxh3 ?s pid = Some page \<and> page \<noteq> [] \<and> T' pid page"
    if "resident fo xxh3 ?s pid \<noteq> None" for pid
  proof -
    have "resident fo xxh3 ?s pid = resident fo xxh3 (cm_invalidate fo xxh3 ios f s) pid"
      using assms(5,6) by (cases v) (auto simp: cm_on_file_open_def Let_def resident_def cm_dir_def)
    then have "file_id pid \<noteq> f"
      using that cm_invalidate_resident [OF assms(1) shape idx, of ios f pid] by auto
    then show ?thesis using cache_okD(2) [OF ok' that] assms(8) by blast
  qed
  show "plain_name (file_id pid) \<and> T' pid page" if "(pid, page) \<in> set (cm_fills ?s)" for pid page
  proof -
    have "(pid, page) \<in> set (cm_fills s)" using that shrinksD(8) [OF sh] by blast
    then show ?thesis using cache_okD(3) [OF ok] assms(7,8) by blast
  qed
qed

text \<open>
  (C25) After an overwrite a reader gets the new bytes.  A file that was cached under one identity
  is opened with another and then read through the cache against its new content: the read
  returns exactly the new bytes of the range (or an error of the miss source, or stays silent
  with it).  Two things are
  assumed of the run: no page was put again between its eviction and the reaper's turn, and
  no background fill of the file is still waiting when it is opened.
\<close>

theorem read_after_overwrite:
  assumes "foyer_ok fo" and "cm_create fo build xxh3 made env options d = Inr s0"
    and "\<And>dir. re_list env dir = None" and "\<And>p c k. fo_entries fo (build p c k) = Map.empty"
    and "length (co_dirs options) < 2 ^ 64" and "cm_steps True fo xxh3 T s0 s"
    and "cm_versions s f = Some v" and "v \<noteq> (len, mtime)"
    and "\<And>pid page. (pid, page) \<in> set (cm_fills s) \<Longrightarrow> file_id pid \<noteq> f"
    and "\<And>pid page. file_id pid \<noteq> f \<Longrightarrow> T pid page \<Longrightarrow> T' pid page"
    and "\<And>pid. io_ok (ios pid)" and "\<And>pid page. T' pid page \<Longrightarrow> plain_name (file_id pid)"
    and "file_pages T' f (unat (max page_size 1)) content" and "ext_exact ext content"
    and "c \<le> t" and "t \<le> length content"
    and "int (length content) + int (unat (max page_size 1)) < 2 ^ 63"
  shows "(case read_through_cache (local_ops fo xxh3 ios) ext f page_size (int (length content))
      (int c) (int t) mode (cm_on_file_open fo xxh3 ios f len mtime s) e of
       None \<Rightarrow> \<exists>a b e. ext a b e = None
     | Some (res, s', _) \<Rightarrow>
         (res = Inr (seg c (t - c) content) \<or> (\<exists>err. res = Inl err \<and> (\<exists>a b e e'. ext a b e = Some (Inl err, e')))))"
proof -
  have fresh: "cache_ok fo xxh3 T s0" "index_complete fo xxh3 s0"
    using cm_create_fresh [OF assms(2-5)] by (auto simp: index_complete_def)
  have "local_honest fo xxh3 ios T' (cm_on_file_open fo xxh3 ios f len mtime s)"
    using overwrite_cache_ok [OF assms(1,6) fresh assms(7-10)] assms(1,11,12)
    by (simp add: local_honest_def)
  from local.read_through_range [OF assms(13,14) this assms(15-17), of mode e] show ?thesis
    by (auto split: option.splits)
qed

text \<open>The file of the demonstration run after an overwrite: nine bytes, all changed.\<close>

definition demo_file2 :: bytes where
  "demo_file2 = [1, 2, 3, 4, 5, 6, 7, 8, 9]"

definition demo_pages2 :: "page_id \<Rightarrow> bytes \<Rightarrow> bool" where
  "demo_pages2 pid page \<longleftrightarrow> file_id pid = ''42'' \<and> page = block_of 4 (unat (page_index pid)) demo_file2"

definition demo_ext2 :: "i64 \<Rightarrow> i64 \<Rightarrow> unit \<Rightarrow> (bytes result \<times> unit) option" where
  "demo_ext2 a b e = Some (Inr (seg (nat a) (nat (b - a)) demo_file2), ())"

lemma demo_pages_put:
  "cm_steps True (lru_foyer 1) (\<lambda>_. 7) demo_pages demo_manager (demo_put 0 [7, 7, 7, 7] (demo_open 9 1 demo_manager))"
proof (intro cm_steps.step [OF cm_steps.step [OF cm_steps.refl cm_step.opened] cm_step.put])
  show "demo_pages (page_id_of ''42'' 0) [7, 7, 7, 7]"
    by (simp add: demo_pages_def page_id_of_def block_of_def demo_file_def seg_def)
qed (simp_all add: demo_env)

theorem read_after_overwrite_witness:
  "\<exists>s' e'. read_through_cache (local_ops (lru_foyer 1) (\<lambda>_. 7) (\<lambda>_. demo_io)) demo_ext2 ''42'' 4 9 2 6
     FillAsync (demo_open 9 2 (demo_put 0 [7, 7, 7, 7] (demo_open 9 1 demo_manager))) ()
     = Some (Inr [3, 4, 5, 6], s', e')"
proof -
  let ?s = "demo_put 0 [7, 7, 7, 7] (demo_open 9 1 demo_manager)"
  have v: "cm_versions ?s ''42'' = Some (9, 1)" and fills: "cm_fills ?s = []" by code_simp+
  have plain: "plain_name (file_id pid)" if "demo_pages2 pid page" for pid page
    using that by (simp add: demo_pages2_def plain_name_def)
  have pages: "file_pages demo_pages2 ''42'' (unat (max 4 1 :: u64)) demo_file2"
    by (simp add: file_pages_def demo_pages2_def page_id_of_def max_def word_le_nat_alt)
  have ext: "ext_exact demo_ext2 demo_file2"
    by (auto simp: ext_exact_def demo_ext2_def nat_diff_distrib' simp flip: of_nat_diff)
  have len: "length demo_file2 = 9" by (simp add: demo_file2_def)
  have idle: "file_id pid \<noteq> ''42''" if "(pid, page) \<in> set (cm_fills ?s)" for pid page
    using that unfolding fills by simp
  have others: "demo_pages2 pid page" if "file_id pid \<noteq> ''42''" "demo_pages pid page" for pid page
    using that by (simp add: demo_pages_def)
  have changed: "(9, 1) \<noteq> (9 :: i64, 2 :: i64)" by simp
  have "case read_through_cache (local_ops (lru_foyer 1) (\<lambda>_. 7) (\<lambda>_. demo_io)) demo_ext2 ''42'' 4
      (int (length demo_file2)) (int 2) (int 6) FillAsync (demo_open 9 2 ?s) () of
      None \<Rightarrow> \<exists>a b e. demo_ext2 a b e = None
    | Some (res, s', _) \<Rightarrow> res = Inr (seg 2 (6 - 2) demo_file2)
        \<or> (\<exists>err. res = Inl err \<and> (\<exists>a b e e'. demo_ext2 a b e = Some (Inl err, e')))"
    by (rule read_after_overwrite [OF lru_foyer_ok demo_create demo_env(4,5,6) demo_pages_put v changed idle others demo_env(1) plain pages ext]) (simp_all add: len)
  then show ?thesis
    by (auto simp: len demo_ext2_def demo_file2_def seg_def split: option.splits)
qed

text \<open>
  (C26) A background fill can bring overwritten bytes back.  A fill scheduled before the overwrite
  was noticed runs after the invalidation and stores the old page under the new identity; the
  run is calm in the sense of the property above, and the old bytes are served after it.
\<close>

theorem late_fill_survives_overwrite:
  "let s = cm_run_fill (lru_foyer 1) (\<lambda>_. 7) demo_io 0
        (demo_open 8 2 (cm_schedule_fill (page_id_of ''42'' 0) [7, 7, 7, 7] (demo_open 8 1 demo_manager)))
   in cm_steps True (lru_foyer 1) (\<lambda>_. 7) demo_data demo_manager s
    \<and> cm_versions s ''42'' = Some (8, 2)
    \<and> fst (cm_get_bytes (lru_foyer 1) (\<lambda>_. 7) demo_io (page_id_of ''42'' 0) 0 4 s) = [7, 7, 7, 7]"
  unfolding Let_def
proof (intro conjI)
  show "cm_steps True (lru_foyer 1) (\<lambda>_. 7) demo_data demo_manager
     (cm_run_fill (lru_foyer 1) (\<lambda>_. 7) demo_io 0
        (demo_open 8 2 (cm_schedule_fill (page_id_of ''42'' 0) [7, 7, 7, 7] (demo_open 8 1 demo_manager))))"
    by (intro cm_steps.step [OF _ cm_step.fill] cm_steps.step [OF _ cm_step.opened]
        cm_steps.step [OF _ cm_step.schedule] cm_steps.step [OF cm_steps.refl cm_step.opened])
      (simp_all add: demo_env, simp add: demo_data_def page_id_of_def)
qed code_simp+

end
